(* ===== verification/Prelude.thy ===== *)
theory Prelude
  imports Main "HOL-Library.Word" "HOL-Library.Char_ord" "HOL-Library.List_Lexorder"
    "HOL-Library.Sublist"
begin

text \<open>
  What every component shares: the machine integers of the program, Go byte strings with the
  few \<^verbatim>\<open>strings\<close> and \<^verbatim>\<open>strconv\<close> routines the program calls, and Go maps.

  A Go \<^verbatim>\<open>string\<close> is a sequence of bytes, and so is an Isabelle \<^typ>\<open>string\<close> (a \<^typ>\<open>char\<close> is
  a byte). A Go map is an association list kept sorted by key, so that a map has one
  representation, its length is \<^verbatim>\<open>len\<close> and its key list is the sorted key list the program
  builds whenever the order of an iteration could be seen.
\<close>

section \<open>Collections of facts\<close>

named_theorems core_simps \<open>equations of the evaluation core (internal/core)\<close>
named_theorems config_simps \<open>equations of the configuration subsystem (internal/config)\<close>
named_theorems client_simps \<open>equations of the client package (pkg/client)\<close>
named_theorems transport_simps \<open>equations of the HTTP surface (internal/transport)\<close>

section \<open>Machine integers\<close>

type_synonym int32 = "32 word"
type_synonym int64 = "64 word"
type_synonym uint64 = "64 word"
type_synonym uint32 = "32 word"

text \<open>Go's \<^verbatim>\<open><\<close> on a signed integer type.\<close>

definition slt :: "'a::len word \<Rightarrow> 'a word \<Rightarrow> bool" where
  "slt a b \<longleftrightarrow> sint a < sint b"

definition sle :: "'a::len word \<Rightarrow> 'a word \<Rightarrow> bool" where
  "sle a b \<longleftrightarrow> sint a \<le> sint b"

lemma slt_irrefl [simp]: "\<not> slt a a"
  by (simp add: slt_def)

lemma sle_refl [simp]: "sle a a"
  by (simp add: sle_def)

lemma not_slt: "\<not> slt a b \<longleftrightarrow> sle b a"
  by (auto simp: slt_def sle_def)

lemma slt_trans: "slt a b \<Longrightarrow> slt b c \<Longrightarrow> slt a c"
  by (simp add: slt_def)

lemma slt_sle_trans: "slt a b \<Longrightarrow> sle b c \<Longrightarrow> slt a c"
  by (simp add: slt_def sle_def)

lemma sle_antisym: "sle a b \<Longrightarrow> sle b a \<Longrightarrow> a = b"
  by (simp add: sle_def word_uint_eq_iff uint_sint)

text \<open>Incrementing a signed 64-bit counter below the largest value adds one.\<close>

lemma sint_inc64:
  assumes "sint (g :: int64) < 2 ^ 63 - 1"
  shows "sint (g + 1) = sint g + 1"
proof -
  have "- (2 ^ 63) \<le> sint g" using sint_ge [of g] by simp
  then have "signed_take_bit 63 (sint g + 1) = sint g + 1"
    using assms by (intro signed_take_bit_int_eq_self) auto
  then show ?thesis by (simp add: sint_word_ariths)
qed

section \<open>Bytes and strings\<close>

abbreviation byte :: "char \<Rightarrow> nat" where
  "byte c \<equiv> of_char c"

definition is_digit :: "char \<Rightarrow> bool" where
  "is_digit c \<longleftrightarrow> 48 \<le> byte c \<and> byte c \<le> 57"

definition is_lower :: "char \<Rightarrow> bool" where
  "is_lower c \<longleftrightarrow> 97 \<le> byte c \<and> byte c \<le> 122"

definition is_upper :: "char \<Rightarrow> bool" where
  "is_upper c \<longleftrightarrow> 65 \<le> byte c \<and> byte c \<le> 90"

text \<open>\<^verbatim>\<open>strings.IndexByte\<close>: the first position of a byte; \<^const>\<open>None\<close> stands for -1.\<close>

fun strings_IndexByte :: "string \<Rightarrow> char \<Rightarrow> nat option" where
  "strings_IndexByte [] c = None"
| "strings_IndexByte (x # xs) c =
     (if x = c then Some 0 else map_option Suc (strings_IndexByte xs c))"

lemma strings_IndexByte_None: "strings_IndexByte s c = None \<longleftrightarrow> c \<notin> set s"
  by (induction s) auto

lemma strings_IndexByte_Some:
  "strings_IndexByte s c = Some i \<Longrightarrow>
     s = take i s @ c # drop (Suc i) s \<and> c \<notin> set (take i s) \<and> i < length s"
  by (induction s arbitrary: i) (auto split: if_splits)

lemma strings_IndexByte_append:
  "c \<notin> set xs \<Longrightarrow> strings_IndexByte (xs @ c # ys) c = Some (length xs)"
  by (induction xs) auto

text \<open>\<^verbatim>\<open>strings.Contains\<close>.\<close>

fun strings_Contains :: "string \<Rightarrow> string \<Rightarrow> bool" where
  "strings_Contains [] sub = (sub = [])"
| "strings_Contains (c # s) sub = (prefix sub (c # s) \<or> strings_Contains s sub)"

lemma strings_Contains_iff: "strings_Contains s sub \<longleftrightarrow> (\<exists>pre post. s = pre @ sub @ post)"
proof (induction s)
  case Nil
  then show ?case by auto
next
  case (Cons c s)
  show ?case
  proof
    assume "strings_Contains (c # s) sub"
    then consider "prefix sub (c # s)" | "strings_Contains s sub" by auto
    then show "\<exists>pre post. c # s = pre @ sub @ post"
    proof cases
      case 1
      then show ?thesis by (metis append_Nil prefix_def)
    next
      case 2
      then show ?thesis using Cons.IH by (metis append_Cons)
    qed
  next
    assume "\<exists>pre post. c # s = pre @ sub @ post"
    then obtain pre post where eq: "c # s = pre @ sub @ post" by blast
    show "strings_Contains (c # s) sub"
    proof (cases pre)
      case Nil
      with eq have "prefix sub (c # s)" by (metis append_Nil prefixI)
      then show ?thesis by simp
    next
      case (Cons d pre')
      with eq have "s = pre' @ sub @ post" by simp
      with Cons.IH have "strings_Contains s sub" by blast
      then show ?thesis by simp
    qed
  qed
qed

text \<open>\<^verbatim>\<open>strings.Compare\<close>: bytewise lexicographic order as -1, 0 or 1.\<close>

definition strings_Compare :: "string \<Rightarrow> string \<Rightarrow> int" where
  "strings_Compare a b = (if a = b then 0 else if a < b then -1 else 1)"

section \<open>Decimal numbers\<close>

text \<open>\<^verbatim>\<open>strconv.FormatInt(n, 10)\<close> and \<^verbatim>\<open>strconv.AppendInt\<close>.\<close>

fun format_nat :: "nat \<Rightarrow> string" where
  "format_nat n =
     (if n < 10 then [''0123456789'' ! n]
      else format_nat (n div 10) @ [''0123456789'' ! (n mod 10)])"

declare format_nat.simps [simp del]

lemma format_nat_small: "n < 10 \<Longrightarrow> format_nat n = [''0123456789'' ! n]"
  by (subst format_nat.simps) simp

lemma format_nat_big:
  "\<not> n < 10 \<Longrightarrow> format_nat n = format_nat (n div 10) @ [''0123456789'' ! (n mod 10)]"
  by (subst format_nat.simps) simp

definition strconv_FormatInt :: "int \<Rightarrow> string" where
  "strconv_FormatInt i = (if i < 0 then CHR ''-'' # format_nat (nat (- i)) else format_nat (nat i))"

text \<open>The value of a digit string, as \<^verbatim>\<open>strconv.ParseUint(s, 10, 64)\<close> accumulates it.\<close>

definition digits_val :: "string \<Rightarrow> nat" where
  "digits_val s = foldl (\<lambda>n c. 10 * n + (byte c - 48)) 0 s"

lemma nth_digits: "d < 10 \<Longrightarrow> byte (''0123456789'' ! d) = 48 + d"
proof -
  assume "d < 10"
  then have "d \<in> {0,1,2,3,4,5,6,7,8,9}" by auto
  then show ?thesis by (auto simp: numeral_nat)
qed

lemma digit_char_neq_0: "d < 10 \<Longrightarrow> d \<noteq> 0 \<Longrightarrow> ''0123456789'' ! d \<noteq> CHR ''0''"
proof
  assume "d < 10" "d \<noteq> 0" "''0123456789'' ! d = CHR ''0''"
  then have "48 + d = byte (CHR ''0'')" by (metis nth_digits)
  then show False using \<open>d \<noteq> 0\<close> by simp
qed

lemma is_digit_nth: "d < 10 \<Longrightarrow> is_digit (''0123456789'' ! d)"
  by (simp add: is_digit_def nth_digits)

lemma format_nat_digits: "c \<in> set (format_nat n) \<Longrightarrow> is_digit c"
proof (induction n rule: format_nat.induct)
  case (1 n)
  then show ?case
    by (cases "n < 10") (auto simp: is_digit_nth format_nat_small format_nat_big)
qed

lemma format_nat_nonempty [simp]: "format_nat n \<noteq> []"
  by (cases "n < 10") (simp_all add: format_nat_small format_nat_big)

lemma digits_val_snoc: "digits_val (s @ [c]) = 10 * digits_val s + (byte c - 48)"
  by (simp add: digits_val_def)

lemma digits_val_format_nat [simp]: "digits_val (format_nat n) = n"
proof (induction n rule: format_nat.induct)
  case (1 n)
  show ?case
  proof (cases "n < 10")
    case True
    then show ?thesis
      by (simp add: digits_val_def nth_digits format_nat_small)
  next
    case False
    with 1 have "digits_val (format_nat (n div 10)) = n div 10" by simp
    with False show ?thesis
      by (simp add: digits_val_snoc nth_digits format_nat_big)
  qed
qed

lemma format_nat_inj: "format_nat m = format_nat n \<Longrightarrow> m = n"
  by (metis digits_val_format_nat)

text \<open>
  The digits of \<^verbatim>\<open>strconv.ParseUint\<close> and \<^verbatim>\<open>strconv.ParseInt\<close> in base 10: no digit, or a byte that
  is not a digit, is a syntax error; a value out of range is a range error. Both are
  \<^const>\<open>None\<close>, since no caller tells them apart.
\<close>

definition parse_digits :: "string \<Rightarrow> nat option" where
  "parse_digits s = (if s \<noteq> [] \<and> list_all is_digit s then Some (digits_val s) else None)"

definition strconv_ParseUint64 :: "string \<Rightarrow> uint64 option" where
  "strconv_ParseUint64 s =
     (case parse_digits s of
        None \<Rightarrow> None
      | Some n \<Rightarrow> if n < 2 ^ 64 then Some (of_nat n) else None)"

fun strconv_ParseInt64 :: "string \<Rightarrow> int64 option" where
  "strconv_ParseInt64 [] = None"
| "strconv_ParseInt64 (c # s) =
     (let neg = (c = CHR ''-''); body = (if c = CHR ''-'' \<or> c = CHR ''+'' then s else c # s)
      in case parse_digits body of
           None \<Rightarrow> None
         | Some n \<Rightarrow>
             if neg then (if n \<le> 2 ^ 63 then Some (of_int (- int n)) else None)
             else (if n < 2 ^ 63 then Some (of_nat n) else None))"

lemma parse_digits_format_nat [simp]: "parse_digits (format_nat n) = Some n"
  by (auto simp: parse_digits_def list_all_iff intro: format_nat_digits)

lemma is_digit_not_sign [simp]: "\<not> is_digit (CHR ''-'')" "\<not> is_digit (CHR ''+'')"
    "\<not> is_digit (CHR '':'')" "\<not> is_digit (CHR ''.'')"
  by (simp_all add: is_digit_def)

lemma strconv_ParseInt64_FormatInt:
  "strconv_ParseInt64 (strconv_FormatInt (sint (i :: int64))) = Some i"
proof (cases "sint i < 0")
  case True
  have "- (2 ^ 63) \<le> sint i" using sint_ge [of i] by simp
  with True have "nat (- sint i) \<le> 2 ^ 63" by (simp add: nat_le_iff)
  moreover have "(of_int (sint i) :: int64) = i"
    by (simp add: word_uint_eq_iff uint_sint)
  ultimately show ?thesis using True by (simp add: strconv_FormatInt_def)
next
  case False
  have "sint i < 2 ^ 63" using sint_lt [of i] by simp
  with False have small: "nat (sint i) < 2 ^ 63" by (simp add: nat_less_iff)
  obtain c s where cs: "format_nat (nat (sint i)) = c # s"
    by (meson format_nat_nonempty neq_Nil_conv)
  then have "is_digit c" by (metis format_nat_digits list.set_intros(1))
  then have "c \<noteq> CHR ''-''" "c \<noteq> CHR ''+''" by auto
  moreover have "(of_nat (nat (sint i)) :: int64) = i"
    using False by (simp add: word_uint_eq_iff uint_sint)
  moreover have "parse_digits (c # s) = Some (nat (sint i))" by (simp flip: cs)
  ultimately show ?thesis using False small cs by (simp add: strconv_FormatInt_def)
qed

section \<open>Go maps\<close>

type_synonym ('k, 'v) gomap = "('k \<times> 'v) list"

definition gm_get :: "('k, 'v) gomap \<Rightarrow> 'k \<Rightarrow> 'v option" where
  "gm_get m k = map_of m k"

fun gm_set :: "'k::linorder \<Rightarrow> 'v \<Rightarrow> ('k, 'v) gomap \<Rightarrow> ('k, 'v) gomap" where
  "gm_set k v [] = [(k, v)]"
| "gm_set k v (p # m) =
     (if k < fst p then (k, v) # p # m
      else if k = fst p then (k, v) # m
      else p # gm_set k v m)"

definition gm_del :: "'k \<Rightarrow> ('k, 'v) gomap \<Rightarrow> ('k, 'v) gomap" where
  "gm_del k m = filter (\<lambda>p. fst p \<noteq> k) m"

definition gm_keys :: "('k, 'v) gomap \<Rightarrow> 'k list" where
  "gm_keys m = map fst m"

definition gm_has :: "('k, 'v) gomap \<Rightarrow> 'k \<Rightarrow> bool" where
  "gm_has m k \<longleftrightarrow> gm_get m k \<noteq> None"

definition gm_ok :: "('k::linorder, 'v) gomap \<Rightarrow> bool" where
  "gm_ok m \<longleftrightarrow> sorted_wrt (<) (map fst m)"

text \<open>
  The interface of a map as the program uses it: a lookup, an assignment, a delete and the
  sorted list of the keys. The program fills maps by ranging over a slice and assigning, so
  that a later element with the same key wins; that is proved once here.
\<close>

locale keyed_map =
  fixes lookup :: "'m \<Rightarrow> 'k::linorder \<Rightarrow> 'v option"
    and assign :: "'k \<Rightarrow> 'v \<Rightarrow> 'm \<Rightarrow> 'm"
    and remove :: "'k \<Rightarrow> 'm \<Rightarrow> 'm"
    and keys :: "'m \<Rightarrow> 'k list"
    and valid :: "'m \<Rightarrow> bool"
  assumes lookup_assign: "lookup (assign k v m) k' = (if k' = k then Some v else lookup m k')"
    and lookup_remove: "lookup (remove k m) k' = (if k' = k then None else lookup m k')"
    and valid_assign: "valid m \<Longrightarrow> valid (assign k v m)"
    and valid_remove: "valid m \<Longrightarrow> valid (remove k m)"
    and keys_lookup: "set (keys m) = {k. lookup m k \<noteq> None}"
    and keys_sorted: "valid m \<Longrightarrow> sorted_wrt (<) (keys m)"
begin

lemma keys_assign: "set (keys (assign k v m)) = insert k (set (keys m))"
  by (auto simp: keys_lookup lookup_assign)

lemma keys_remove: "set (keys (remove k m)) = set (keys m) - {k}"
  by (auto simp: keys_lookup lookup_remove)

lemma valid_fold: "valid m \<Longrightarrow> valid (foldl (\<lambda>m x. assign (f x) (g x) m) m xs)"
  by (induction xs arbitrary: m) (auto simp: valid_assign)

lemma lookup_fold_other:
  "k \<notin> f ` set xs \<Longrightarrow> lookup (foldl (\<lambda>m x. assign (f x) (g x) m) m xs) k = lookup m k"
  by (induction xs arbitrary: m) (auto simp: lookup_assign)

lemma lookup_fold_last:
  "k \<notin> f ` set ys \<Longrightarrow> f x = k \<Longrightarrow>
     lookup (foldl (\<lambda>m x. assign (f x) (g x) m) m (xs @ x # ys)) k = Some (g x)"
  by (simp add: lookup_fold_other lookup_assign)

lemma keys_fold:
  "set (keys (foldl (\<lambda>m x. assign (f x) (g x) m) m xs)) = f ` set xs \<union> set (keys m)"
  by (induction xs arbitrary: m) (auto simp: keys_assign)

lemma keys_distinct: "valid m \<Longrightarrow> distinct (keys m)"
  using keys_sorted strict_sorted_iff by blast

lemma keys_determined:
  assumes "valid m" and "valid m'" and "\<And>k. lookup m k = None \<longleftrightarrow> lookup m' k = None"
  shows "keys m = keys m'"
proof -
  have "set (keys m) = set (keys m')" using assms(3) by (simp add: keys_lookup)
  then show ?thesis
    using keys_sorted assms(1,2) by (meson strict_sorted_equal)
qed

end

lemma gm_get_set: "gm_get (gm_set k v m) k' = (if k' = k then Some v else gm_get m k')"
  by (induction m) (auto simp: gm_get_def)

lemma gm_get_del: "gm_get (gm_del k m) k' = (if k' = k then None else gm_get m k')"
  by (induction m) (auto simp: gm_get_def gm_del_def)

lemma gm_keys_iff: "set (gm_keys m) = {k. gm_get m k \<noteq> None}"
  by (force simp: gm_keys_def gm_get_def map_of_eq_None_iff)

lemma set_fst_gm_set: "fst ` set (gm_set k v m) = insert k (fst ` set m)"
  by (induction m) auto

lemma gm_ok_set: "gm_ok m \<Longrightarrow> gm_ok (gm_set k v m)"
  by (induction m) (auto simp: gm_ok_def set_fst_gm_set)

lemma gm_ok_del: "gm_ok m \<Longrightarrow> gm_ok (gm_del k m)"
  unfolding gm_ok_def gm_del_def by (induction m) auto

lemma gm_ok_Nil [simp]: "gm_ok []"
  by (simp add: gm_ok_def)

lemma gm_keys_sorted: "gm_ok m \<Longrightarrow> sorted_wrt (<) (gm_keys m)"
  by (simp add: gm_ok_def gm_keys_def)

interpretation gm: keyed_map gm_get gm_set gm_del gm_keys gm_ok
  by unfold_locales
    (simp_all add: gm_get_set gm_get_del gm_keys_iff gm_ok_set gm_ok_del gm_keys_sorted)

declare gm_get_set [simp] gm_get_del [simp]

lemma gm_get_Nil [simp]: "gm_get [] k = None"
  by (simp add: gm_get_def)

lemma gm_has_set [simp]: "gm_has (gm_set k v m) k' \<longleftrightarrow> k' = k \<or> gm_has m k'"
  by (simp add: gm_has_def)

lemma gm_has_keys: "gm_has m k \<longleftrightarrow> k \<in> set (gm_keys m)"
  by (simp add: gm_has_def gm_keys_iff)

text \<open>A map has one representation: two maps with the same lookups are the same map.\<close>

lemma alist_eqI:
  assumes "map fst m = map fst m'" and "distinct (map fst m)" and "map_of m = map_of m'"
  shows "m = m'"
  using assms
proof (induction m arbitrary: m')
  case Nil
  then show ?case by simp
next
  case (Cons p m)
  obtain k v where p: "p = (k, v)" by (cases p)
  from Cons.prems(1) p obtain w n where m': "m' = (k, w) # n" by (cases m') auto
  have "w = v" using fun_cong [OF Cons.prems(3), of k] by (simp add: p m')
  moreover have "map_of m = map_of n"
  proof
    fix x
    have "k \<notin> fst ` set m" "k \<notin> fst ` set n"
      using Cons.prems(1,2) p m' by (auto simp flip: set_map)
    then have "map_of m k = None" "map_of n k = None" by (simp_all add: map_of_eq_None_iff)
    then show "map_of m x = map_of n x"
      using fun_cong [OF Cons.prems(3), of x] p m' by (cases "x = k") simp_all
  qed
  ultimately show ?case using Cons p m' by simp
qed

lemma gm_eqI:
  assumes "gm_ok m" and "gm_ok m'" and "\<And>k. gm_get m k = gm_get m' k"
  shows "m = m'"
proof (rule alist_eqI)
  show "map fst m = map fst m'"
    using gm.keys_determined [of m m'] assms by (simp add: gm_keys_def)
  show "distinct (map fst m)" using assms(1) by (simp add: gm_ok_def strict_sorted_iff)
  show "map_of m = map_of m'" using assms(3) by (auto simp: gm_get_def)
qed

text \<open>An assignment to a map puts the entry at its place.\<close>

lemma gm_set_new: "\<not> gm_has m k \<Longrightarrow> \<exists>xs ys. m = xs @ ys \<and> gm_set k v m = xs @ (k, v) # ys"
proof (induction m)
  case (Cons p m)
  show ?case
  proof (cases "k < fst p")
    case True
    then have "p # m = [] @ p # m \<and> gm_set k v (p # m) = [] @ (k, v) # p # m" by simp
    then show ?thesis by blast
  next
    case False
    have ne: "fst p \<noteq> k" using Cons.prems by (cases p) (auto simp: gm_has_def gm_get_def)
    then have "\<not> gm_has m k" using Cons.prems by (cases p) (auto simp: gm_has_def gm_get_def split: if_splits)
    then obtain xs ys where "m = xs @ ys" "gm_set k v m = xs @ (k, v) # ys" using Cons.IH by blast
    then have "p # m = (p # xs) @ ys \<and> gm_set k v (p # m) = (p # xs) @ (k, v) # ys" using False ne by simp
    then show ?thesis by blast
  qed
qed simp

lemma gm_set_old: "gm_ok m \<Longrightarrow> gm_get m k = Some w \<Longrightarrow> \<exists>xs ys. m = xs @ (k, w) # ys \<and> gm_set k v m = xs @ (k, v) # ys"
proof (induction m)
  case (Cons p m)
  show ?case
  proof (cases "fst p = k")
    case True
    then have "p # m = [] @ (k, w) # m \<and> gm_set k v (p # m) = [] @ (k, v) # m"
      using Cons.prems(2) by (cases p) (simp add: gm_get_def)
    then show ?thesis by blast
  next
    case False
    then have g: "gm_get m k = Some w" using Cons.prems(2) by (cases p) (simp add: gm_get_def)
    then have "(k, w) \<in> set m" by (simp add: gm_get_def map_of_SomeD)
    then have lt: "\<not> k < fst p" using Cons.prems(1) by (force simp: gm_ok_def)
    obtain xs ys where "m = xs @ (k, w) # ys" "gm_set k v m = xs @ (k, v) # ys"
      using Cons.IH g Cons.prems(1) by (auto simp: gm_ok_def)
    then have "p # m = (p # xs) @ (k, w) # ys \<and> gm_set k v (p # m) = (p # xs) @ (k, v) # ys"
      using False lt by simp
    then show ?thesis by blast
  qed
qed simp

text \<open>Replacing one summand.\<close>

lemma sum_list_replace:
  "k < length xs \<Longrightarrow> sum_list (xs[k := y]) = sum_list xs + y - (xs ! k :: 'a::ab_group_add)"
proof (induction xs arbitrary: k)
  case (Cons x xs)
  then show ?case by (cases k) (simp_all add: algebra_simps)
qed simp

section \<open>Results\<close>

text \<open>An error or a value: the operations after the first error are skipped.\<close>

definition rbind :: "'e + 'a \<Rightarrow> ('a \<Rightarrow> 'e + 'b) \<Rightarrow> 'e + 'b" where
  "rbind r k = (case r of Inl e \<Rightarrow> Inl e | Inr x \<Rightarrow> k x)"

lemma rbind_simps [simp]: "rbind (Inl e) k = Inl e" "rbind (Inr x) k = k x"
  by (simp_all add: rbind_def)

lemma rbind_Inr: "rbind r k = Inr y \<longleftrightarrow> (\<exists>x. r = Inr x \<and> k x = Inr y)"
  by (cases r) auto

text \<open>A loop that stops at the first error.\<close>

fun rmap :: "('a \<Rightarrow> 'e + 'b) \<Rightarrow> 'a list \<Rightarrow> 'e + 'b list" where
  "rmap f [] = Inr []"
| "rmap f (x # xs) = rbind (f x) (\<lambda>y. rbind (rmap f xs) (\<lambda>ys. Inr (y # ys)))"

lemma rmap_id: "list_all (\<lambda>x. f (g x) = Inr x) xs \<Longrightarrow> rmap f (map g xs) = Inr xs"
  by (induction xs) simp_all

lemma snd_True: "snd p \<Longrightarrow> p = (fst p, True)"
  by (cases p) simp

end
