(* ===== verification/Client_State.thy ===== *)
theory Client_State
  imports Prelude
begin

text \<open>
  The lifecycle of the client (\<^verbatim>\<open>pkg/client/state.go\<close>): the four states, the state machine that owns the
  transitions, and the wait for readiness. The mutex makes each transition one step; the
  change hook, which the client fills with calls that contain their own panics, is the list of its calls in
  the order of the transitions, and the channel \<^verbatim>\<open>readyCh\<close> is whether it has been closed.
\<close>

section \<open>States\<close>

datatype State = StateUninitialized | StateHealthy | StateDegradedStale | StateClosed

fun State_String :: "State \<Rightarrow> string" where
  "State_String StateUninitialized = ''UNINITIALIZED''"
| "State_String StateHealthy = ''HEALTHY''"
| "State_String StateDegradedStale = ''DEGRADED_STALE''"
| "State_String StateClosed = ''CLOSED''"

definition Serving :: "State \<Rightarrow> bool" where
  "Serving s \<longleftrightarrow> s = StateHealthy \<or> s = StateDegradedStale"

lemma Serving_simps [simp]:
  "\<not> Serving StateUninitialized" "Serving StateHealthy" "Serving StateDegradedStale" "\<not> Serving StateClosed"
  by (simp_all add: Serving_def)

section \<open>The state machine\<close>

type_synonym change = "State \<times> State \<times> string"

record stateMachine =
  sm_cur :: State
  sm_ready :: bool
  sm_changes :: "change list"

definition newStateMachine :: stateMachine where
  "newStateMachine = \<lparr>sm_cur = StateUninitialized, sm_ready = False, sm_changes = []\<rparr>"

definition sm_set :: "State \<Rightarrow> string \<Rightarrow> stateMachine \<Rightarrow> bool \<times> stateMachine" where
  "sm_set to reason sm =
     (let from = sm_cur sm
      in if from = StateClosed \<or> from = to then (False, sm)
         else (True, sm\<lparr>sm_cur := to, sm_ready := sm_ready sm \<or> Serving to,
                 sm_changes := sm_changes sm @ [(from, to, reason)]\<rparr>))"

definition onHydratedFromDisk :: "stateMachine \<Rightarrow> stateMachine" where
  "onHydratedFromDisk sm = snd (sm_set StateDegradedStale ''l2_hydrated'' sm)"

definition onStreamDead :: "string \<Rightarrow> stateMachine \<Rightarrow> stateMachine" where
  "onStreamDead reason sm = snd (sm_set StateDegradedStale reason sm)"

definition onLiveConfirmation :: "int64 \<Rightarrow> int64 \<Rightarrow> stateMachine \<Rightarrow> stateMachine" where
  "onLiveConfirmation heldGen sourceGen sm =
     (if slt heldGen sourceGen then sm else snd (sm_set StateHealthy ''recovered'' sm))"

definition sm_close :: "stateMachine \<Rightarrow> stateMachine" where
  "sm_close sm = snd (sm_set StateClosed ''shutdown'' sm)"

text \<open>
  One look at the wait: the answers it may return now. Both cases of the \<^verbatim>\<open>select\<close> may be ready, and then
  either is taken; with none ready it blocks, and the list is empty.
\<close>

definition waitForReady :: "stateMachine \<Rightarrow> bool \<Rightarrow> bool list" where
  "waitForReady sm ctx_done =
     (if Serving (sm_cur sm) then [True]
      else (if sm_ready sm then [True] else []) @ (if ctx_done then [Serving (sm_cur sm)] else []))"

section \<open>Runs\<close>

inductive sm_step :: "stateMachine \<Rightarrow> stateMachine \<Rightarrow> bool" where
  step_hydrated: "sm_step sm (onHydratedFromDisk sm)"
| step_dead: "sm_step sm (onStreamDead reason sm)"
| step_live: "sm_step sm (onLiveConfirmation held source sm)"
| step_close: "sm_step sm (sm_close sm)"

inductive_cases sm_stepE: "sm_step sm sm'"

inductive sm_reachable :: "stateMachine \<Rightarrow> bool" where
  start: "sm_reachable newStateMachine"
| step: "sm_reachable sm \<Longrightarrow> sm_step sm sm' \<Longrightarrow> sm_reachable sm'"

text \<open>Every step is a call of \<^const>\<open>sm_set\<close> with one of three targets, or nothing.\<close>

lemma sm_step_cases:
  assumes "sm_step sm sm'"
  shows "sm' = sm \<or> (\<exists>to reason. to \<noteq> StateUninitialized \<and> sm' = snd (sm_set to reason sm))"
  using assms
  by (elim sm_stepE)
    (auto simp: onHydratedFromDisk_def onStreamDead_def onLiveConfirmation_def sm_close_def)

text \<open>The record of a well-formed run: a chain of moves from the first state to the last.\<close>

fun change_chain :: "State \<Rightarrow> change list \<Rightarrow> State \<Rightarrow> bool" where
  "change_chain s [] t \<longleftrightarrow> s = t"
| "change_chain s ((from, to, reason) # cs) t \<longleftrightarrow>
     from = s \<and> from \<noteq> to \<and> from \<noteq> StateClosed \<and> to \<noteq> StateUninitialized \<and> change_chain to cs t"

lemma change_chain_snoc:
  "change_chain s (cs @ [(from, to, reason)]) t \<longleftrightarrow>
     change_chain s cs from \<and> from \<noteq> to \<and> from \<noteq> StateClosed \<and> to \<noteq> StateUninitialized \<and> to = t"
  by (induction cs arbitrary: s) auto

definition sm_ok :: "stateMachine \<Rightarrow> bool" where
  "sm_ok sm \<longleftrightarrow> change_chain StateUninitialized (sm_changes sm) (sm_cur sm)
     \<and> (sm_ready sm \<longleftrightarrow> list_ex (\<lambda>(from, to, reason). Serving to) (sm_changes sm))
     \<and> (Serving (sm_cur sm) \<longrightarrow> sm_ready sm)"

lemma sm_ok_start: "sm_ok newStateMachine"
  by (simp add: sm_ok_def newStateMachine_def)

lemma sm_ok_set: "to \<noteq> StateUninitialized \<Longrightarrow> sm_ok sm \<Longrightarrow> sm_ok (snd (sm_set to reason sm))"
  by (auto simp: sm_ok_def sm_set_def Let_def change_chain_snoc)

lemma sm_ok_step: "sm_step sm sm' \<Longrightarrow> sm_ok sm \<Longrightarrow> sm_ok sm'"
  using sm_step_cases sm_ok_set by blast

lemma reachable_sm_ok: "sm_reachable sm \<Longrightarrow> sm_ok sm"
  by (induction rule: sm_reachable.induct) (auto intro: sm_ok_start sm_ok_step)

lemma change_chain_closed: "change_chain StateClosed cs t \<longleftrightarrow> cs = [] \<and> t = StateClosed"
  by (cases cs) auto

lemma change_chain_uninit: "change_chain s cs StateUninitialized \<longleftrightarrow> cs = [] \<and> s = StateUninitialized"
proof (induction cs arbitrary: s)
  case (Cons c cs)
  then show ?case by (cases c) simp
qed auto

text \<open>The lifecycle is sound. Whatever transitions are asked for and in whatever order, the changes reported to the
  hook form one chain from \<^verbatim>\<open>UNINITIALIZED\<close> to the current state, none of them a move to the state already
  held, none out of \<^verbatim>\<open>CLOSED\<close> and none back to \<^verbatim>\<open>UNINITIALIZED\<close>; the ready channel is closed exactly when some move
  led to a serving state, so a client that once served never blocks a wait, and a serving one answers it with yes.\<close>

theorem state_machine_sound:
  assumes "sm_reachable sm"
  shows "change_chain StateUninitialized (sm_changes sm) (sm_cur sm)
    \<and> (sm_cur sm = StateUninitialized \<longleftrightarrow> sm_changes sm = [])
    \<and> (sm_ready sm \<longleftrightarrow> list_ex (\<lambda>(from, to, reason). Serving to) (sm_changes sm))
    \<and> (Serving (sm_cur sm) \<longrightarrow> sm_ready sm \<and> waitForReady sm d = [True])
    \<and> (sm_ready sm \<longrightarrow> waitForReady sm False = [True])
    \<and> (sm_cur sm = StateClosed \<longrightarrow> snd (sm_set to reason sm) = sm)"
proof -
  have ok: "sm_ok sm" by (rule reachable_sm_ok [OF assms])
  then have chain: "change_chain StateUninitialized (sm_changes sm) (sm_cur sm)" by (simp add: sm_ok_def)
  have "sm_cur sm = StateUninitialized \<longleftrightarrow> sm_changes sm = []"
  proof
    assume "sm_cur sm = StateUninitialized"
    then show "sm_changes sm = []" using chain change_chain_uninit by simp
  next
    assume "sm_changes sm = []"
    then show "sm_cur sm = StateUninitialized" using chain by simp
  qed
  moreover have "Serving (sm_cur sm) \<longrightarrow> sm_ready sm" using ok unfolding sm_ok_def by blast
  moreover have "sm_ready sm \<longleftrightarrow> list_ex (\<lambda>(from, to, reason). Serving to) (sm_changes sm)"
    using ok by (simp add: sm_ok_def)
  ultimately show ?thesis using chain by (simp add: waitForReady_def sm_set_def)
qed

theorem state_machine_sound_witness:
  "waitForReady (onStreamDead ''stream_dead'' (onLiveConfirmation 3 3 newStateMachine)) False = [True]"
proof -
  have r: "sm_reachable (onStreamDead ''stream_dead'' (onLiveConfirmation 3 3 newStateMachine))"
    by (intro sm_reachable.step [OF sm_reachable.step [OF start step_live] step_dead])
  have "sm_cur (onStreamDead ''stream_dead'' (onLiveConfirmation 3 3 newStateMachine)) = StateDegradedStale"
    by (simp add: onStreamDead_def onLiveConfirmation_def newStateMachine_def sm_set_def)
  then show ?thesis using state_machine_sound [OF r] by simp
qed

text \<open>A closed client that never served leaves a wait blocked until its context ends.\<close>

lemma closed_wait_blocks: "waitForReady (sm_close newStateMachine) False = []"
  by (simp add: waitForReady_def sm_close_def newStateMachine_def sm_set_def)

end
