(* ===== verification/Core_Value.thy ===== *)
theory Core_Value
  imports Prelude
begin

text \<open>
  The domain types of \<^verbatim>\<open>internal/core\<close>: flag values and their types (\<^verbatim>\<open>value.go\<close>), the flag
  model with its rules and rollout (\<^verbatim>\<open>model.go\<close>), the evaluation context (\<^verbatim>\<open>evalctx.go\<close>), reasons
  (\<^verbatim>\<open>reason.go\<close>) and results (\<^verbatim>\<open>result.go\<close>). A Go slice is a list; a pointer that may be nil is
  an option.
\<close>

section \<open>Values\<close>

datatype ValueType = TypeUnknown | TypeBool | TypeString | TypeInt

fun ValueType_String :: "ValueType \<Rightarrow> string" where
  "ValueType_String TypeBool = ''bool''"
| "ValueType_String TypeString = ''string''"
| "ValueType_String TypeInt = ''int''"
| "ValueType_String TypeUnknown = ''unknown''"

definition ParseValueType :: "string \<Rightarrow> ValueType \<times> bool" where
  "ParseValueType s =
     (if s = ''bool'' \<or> s = ''boolean'' then (TypeBool, True)
      else if s = ''string'' then (TypeString, True)
      else if s = ''int'' \<or> s = ''integer'' then (TypeInt, True)
      else (TypeUnknown, False))"

text \<open>
  The struct \<^verbatim>\<open>Value\<close> is a tag with three unexported payloads, built by its three constructors
  only: a tagged union, with the zero struct as its fourth case.
\<close>

datatype Value = VUnset | VBool bool | VString string | VInt int64

fun Value_Type :: "Value \<Rightarrow> ValueType" where
  "Value_Type VUnset = TypeUnknown"
| "Value_Type (VBool _) = TypeBool"
| "Value_Type (VString _) = TypeString"
| "Value_Type (VInt _) = TypeInt"

definition Value_IsUnknown :: "Value \<Rightarrow> bool" where
  "Value_IsUnknown v \<longleftrightarrow> Value_Type v = TypeUnknown"

fun AsBool :: "Value \<Rightarrow> bool \<times> bool" where
  "AsBool (VBool b) = (b, True)"
| "AsBool _ = (False, False)"

fun AsString :: "Value \<Rightarrow> string \<times> bool" where
  "AsString (VString s) = (s, True)"
| "AsString _ = ([], False)"

fun AsInt :: "Value \<Rightarrow> int64 \<times> bool" where
  "AsInt (VInt i) = (i, True)"
| "AsInt _ = (0, False)"

fun Value_Equal :: "Value \<Rightarrow> Value \<Rightarrow> bool" where
  "Value_Equal (VBool a) (VBool b) = (a = b)"
| "Value_Equal (VString a) (VString b) = (a = b)"
| "Value_Equal (VInt a) (VInt b) = (a = b)"
| "Value_Equal VUnset VUnset = True"
| "Value_Equal _ _ = False"

fun Value_String :: "Value \<Rightarrow> string" where
  "Value_String (VBool b) = (if b then ''true'' else ''false'')"
| "Value_String (VString s) = s"
| "Value_String (VInt i) = strconv_FormatInt (sint i)"
| "Value_String VUnset = ''<unset>''"

lemma Value_Equal_iff: "Value_Equal a b \<longleftrightarrow> a = b"
  by (cases a; cases b) auto

lemma Value_IsUnknown_iff [simp]: "Value_IsUnknown v \<longleftrightarrow> v = VUnset"
  by (cases v) (simp_all add: Value_IsUnknown_def)

lemma AsBool_ok: "snd (AsBool v) \<longleftrightarrow> Value_Type v = TypeBool"
  by (cases v) auto

lemma AsString_ok: "snd (AsString v) \<longleftrightarrow> Value_Type v = TypeString"
  by (cases v) auto

lemma AsInt_ok: "snd (AsInt v) \<longleftrightarrow> Value_Type v = TypeInt"
  by (cases v) auto

section \<open>JSON documents\<close>

text \<open>
  A JSON document after tokenisation. A number keeps its literal, as \<^verbatim>\<open>json.Number\<close> does, and an
  object is the list of its members.
\<close>

datatype json = JNull | JBool bool | JNum string | JStr string | JArr "json list"
  | JObj "(string \<times> json) list"

datatype json_error = NotAnInteger string | UnsupportedValueType

fun Value_MarshalJSON :: "Value \<Rightarrow> json" where
  "Value_MarshalJSON (VBool b) = JBool b"
| "Value_MarshalJSON (VString s) = JStr s"
| "Value_MarshalJSON (VInt i) = JNum (strconv_FormatInt (sint i))"
| "Value_MarshalJSON VUnset = JNull"

fun Value_UnmarshalJSON :: "json \<Rightarrow> json_error + Value" where
  "Value_UnmarshalJSON JNull = Inr VUnset"
| "Value_UnmarshalJSON (JBool b) = Inr (VBool b)"
| "Value_UnmarshalJSON (JStr s) = Inr (VString s)"
| "Value_UnmarshalJSON (JNum t) =
     (case strconv_ParseInt64 t of None \<Rightarrow> Inl (NotAnInteger t) | Some n \<Rightarrow> Inr (VInt n))"
| "Value_UnmarshalJSON (JArr _) = Inl UnsupportedValueType"
| "Value_UnmarshalJSON (JObj _) = Inl UnsupportedValueType"

lemma Value_json_roundtrip: "Value_UnmarshalJSON (Value_MarshalJSON v) = Inr v"
  by (cases v) (simp_all add: strconv_ParseInt64_FormatInt)

section \<open>Operators, conditions, rules\<close>

datatype Operator = OpUnknown | OpEquals | OpIn | OpContains | OpGreaterThan
  | OpGreaterOrEqual | OpLessThan | OpLessOrEqual | OpExists | OpSemverEqual
  | OpSemverGreaterThan | OpSemverLessThan

fun Operator_String :: "Operator \<Rightarrow> string" where
  "Operator_String OpEquals = ''eq''"
| "Operator_String OpIn = ''in''"
| "Operator_String OpContains = ''contains''"
| "Operator_String OpGreaterThan = ''gt''"
| "Operator_String OpGreaterOrEqual = ''gte''"
| "Operator_String OpLessThan = ''lt''"
| "Operator_String OpLessOrEqual = ''lte''"
| "Operator_String OpExists = ''exists''"
| "Operator_String OpSemverEqual = ''semver_eq''"
| "Operator_String OpSemverGreaterThan = ''semver_gt''"
| "Operator_String OpSemverLessThan = ''semver_lt''"
| "Operator_String OpUnknown = ''unknown''"

definition ParseOperator :: "string \<Rightarrow> Operator \<times> bool" where
  "ParseOperator s =
     (if s = ''eq'' then (OpEquals, True)
      else if s = ''in'' then (OpIn, True)
      else if s = ''contains'' then (OpContains, True)
      else if s = ''gt'' then (OpGreaterThan, True)
      else if s = ''gte'' then (OpGreaterOrEqual, True)
      else if s = ''lt'' then (OpLessThan, True)
      else if s = ''lte'' then (OpLessOrEqual, True)
      else if s = ''exists'' then (OpExists, True)
      else if s = ''semver_eq'' then (OpSemverEqual, True)
      else if s = ''semver_gt'' then (OpSemverGreaterThan, True)
      else if s = ''semver_lt'' then (OpSemverLessThan, True)
      else (OpUnknown, False))"

lemma ParseOperator_String: "op \<noteq> OpUnknown \<Longrightarrow> ParseOperator (Operator_String op) = (op, True)"
  by (cases op) (simp_all add: ParseOperator_def)

lemma ParseValueType_String:
  "t \<noteq> TypeUnknown \<Longrightarrow> ParseValueType (ValueType_String t) = (t, True)"
  by (cases t) (simp_all add: ParseValueType_def)

lemma ParseOperator_ok: "ParseOperator s = (op, ok) \<Longrightarrow> ok \<longleftrightarrow> op \<noteq> OpUnknown"
  by (auto simp: ParseOperator_def split: if_splits)

lemma ParseValueType_ok: "ParseValueType s = (t, ok) \<Longrightarrow> ok \<longleftrightarrow> t \<noteq> TypeUnknown"
  by (auto simp: ParseValueType_def split: if_splits)

datatype LogicOp = LogicAnd | LogicOr

fun LogicOp_String :: "LogicOp \<Rightarrow> string" where
  "LogicOp_String LogicOr = ''or''"
| "LogicOp_String LogicAnd = ''and''"

record Condition =
  cond_Attribute :: string
  cond_Op :: Operator
  cond_Values :: "Value list"
  cond_Negate :: bool

record Rule =
  rule_ID :: string
  rule_Conditions :: "Condition list"
  rule_Combiner :: LogicOp
  rule_Value :: Value

record Rollout =
  roll_BasisPoints :: int32
  roll_BucketNamespace :: string
  roll_BucketBy :: string
  roll_OnValue :: Value
  roll_OffValue :: Value

datatype EvaluationOrder = OrderUnspecified | OrderRulesFirst

fun EvaluationOrder_String :: "EvaluationOrder \<Rightarrow> string" where
  "EvaluationOrder_String OrderRulesFirst = ''rules_first''"
| "EvaluationOrder_String OrderUnspecified = ''unspecified''"

record Flag =
  flag_Key :: string
  flag_Type :: ValueType
  flag_Enabled :: bool
  flag_DefaultValue :: Value
  flag_OffValue :: Value
  flag_Rules :: "Rule list"
  flag_Rollout :: "Rollout option"
  flag_EvaluationOrder :: EvaluationOrder

section \<open>Evaluation contexts\<close>

record EvalContext =
  ctx_UserID :: string
  ctx_TenantID :: string
  ctx_Attributes :: "(string, Value) gomap"

text \<open>
  \<^verbatim>\<open>EvalContext.Attribute\<close>: an explicit entry wins, then the two shorthand fields. Absent is
  told apart from present-but-zero, so the result is an option.
\<close>

definition Attribute :: "EvalContext \<Rightarrow> string \<Rightarrow> Value option" where
  "Attribute c name =
     (case gm_get (ctx_Attributes c) name of
        Some v \<Rightarrow> Some v
      | None \<Rightarrow>
          if name = ''user_id'' then
            (if ctx_UserID c = [] then None else Some (VString (ctx_UserID c)))
          else if name = ''tenant_id'' then
            (if ctx_TenantID c = [] then None else Some (VString (ctx_TenantID c)))
          else None)"

lemma Attribute_explicit:
  "gm_get (ctx_Attributes c) name = Some v \<Longrightarrow> Attribute c name = Some v"
  by (simp add: Attribute_def)

section \<open>Reasons and results\<close>

datatype Reason = ReasonUnknown | ReasonRuleMatch | ReasonRolloutIn | ReasonRolloutOut
  | ReasonFallthrough | ReasonDisabled | ReasonFlagNotFound | ReasonTypeMismatch
  | ReasonMissingSubject | ReasonError

fun Reason_String :: "Reason \<Rightarrow> string" where
  "Reason_String ReasonRuleMatch = ''RULE_MATCH''"
| "Reason_String ReasonRolloutIn = ''ROLLOUT_IN''"
| "Reason_String ReasonRolloutOut = ''ROLLOUT_OUT''"
| "Reason_String ReasonFallthrough = ''FALLTHROUGH''"
| "Reason_String ReasonDisabled = ''DISABLED''"
| "Reason_String ReasonFlagNotFound = ''FLAG_NOT_FOUND''"
| "Reason_String ReasonTypeMismatch = ''TYPE_MISMATCH''"
| "Reason_String ReasonMissingSubject = ''MISSING_SUBJECT''"
| "Reason_String ReasonError = ''ERROR''"
| "Reason_String ReasonUnknown = ''UNKNOWN''"

definition Reason_IsFallback :: "Reason \<Rightarrow> bool" where
  "Reason_IsFallback r \<longleftrightarrow>
     r \<in> {ReasonFlagNotFound, ReasonTypeMismatch, ReasonMissingSubject, ReasonError}"

lemma Reason_IsFallback_simps [simp]:
  "Reason_IsFallback ReasonFlagNotFound" "Reason_IsFallback ReasonTypeMismatch"
  "Reason_IsFallback ReasonMissingSubject" "Reason_IsFallback ReasonError"
  "\<not> Reason_IsFallback ReasonRuleMatch" "\<not> Reason_IsFallback ReasonRolloutIn"
  "\<not> Reason_IsFallback ReasonRolloutOut" "\<not> Reason_IsFallback ReasonFallthrough"
  "\<not> Reason_IsFallback ReasonDisabled" "\<not> Reason_IsFallback ReasonUnknown"
  by (simp_all add: Reason_IsFallback_def)

lemma Reason_String_inj: "Reason_String r = Reason_String r' \<Longrightarrow> r = r'"
  by (cases r; cases r') simp_all

record Result =
  res_Value :: Value
  res_Reason :: Reason
  res_RuleID :: string
  res_Bucket :: int32
  res_Generation :: int64

definition Result_IsFallback :: "Result \<Rightarrow> bool" where
  "Result_IsFallback r \<longleftrightarrow> Reason_IsFallback (res_Reason r)"

definition NoBucket :: int32 where
  "NoBucket = - 1"

definition BucketSpace :: int32 where
  "BucketSpace = 10000"

text \<open>
  A Go composite literal \<^verbatim>\<open>Result{Value: .., Reason: .., Bucket: .., Generation: ..}\<close> leaves
  the rule id empty.
\<close>

definition mk_result :: "Value \<Rightarrow> Reason \<Rightarrow> int32 \<Rightarrow> int64 \<Rightarrow> Result" where
  "mk_result v r b g =
     \<lparr>res_Value = v, res_Reason = r, res_RuleID = [], res_Bucket = b, res_Generation = g\<rparr>"

lemma mk_result_sel [simp]:
  "res_Value (mk_result v r b g) = v" "res_Reason (mk_result v r b g) = r"
  "res_RuleID (mk_result v r b g) = []" "res_Bucket (mk_result v r b g) = b"
  "res_Generation (mk_result v r b g) = g"
  by (simp_all add: mk_result_def)

text \<open>A Boolean flag with the usual default and off values, for examples.\<close>

definition bool_flag :: "string \<Rightarrow> bool \<Rightarrow> Rule list \<Rightarrow> Rollout option \<Rightarrow> Flag" where
  "bool_flag key enabled rules rollout =
     \<lparr>flag_Key = key, flag_Type = TypeBool, flag_Enabled = enabled,
      flag_DefaultValue = VBool False, flag_OffValue = VBool False, flag_Rules = rules,
      flag_Rollout = rollout, flag_EvaluationOrder = OrderRulesFirst\<rparr>"

definition bool_rollout :: "int32 \<Rightarrow> Rollout" where
  "bool_rollout bp = \<lparr>roll_BasisPoints = bp, roll_BucketNamespace = [], roll_BucketBy = [],
     roll_OnValue = VBool True, roll_OffValue = VBool False\<rparr>"

definition user_ctx :: "string \<Rightarrow> EvalContext" where
  "user_ctx u = \<lparr>ctx_UserID = u, ctx_TenantID = [], ctx_Attributes = []\<rparr>"

lemmas example_defs = bool_flag_def bool_rollout_def user_ctx_def

end
