(* ===== verification/Sampling.thy ===== *)
theory Sampling
  imports Prelude
begin

text \<open>
  What both samplers of log lines owe their reader, the one of the service (\<^verbatim>\<open>internal/obs/log.go\<close>) and the one of the
  client (\<^verbatim>\<open>pkg/client/client.go\<close>): a line that is emitted says how many events it stands for, so that the
  true volume can be recovered.
\<close>

definition sample_run :: "('k \<Rightarrow> 't \<Rightarrow> 's \<Rightarrow> (int64 \<times> bool) \<times> 's) \<Rightarrow> ('k \<times> 't) list \<Rightarrow> 's \<Rightarrow> (int64 \<times> bool) list \<times> 's" where
  "sample_run f cs s =
     foldl (\<lambda>(rs, s) (k, t). let (r, s') = f k t s in (rs @ [r], s')) ([], s) cs"

text \<open>A call says how many events its line stands for, none if there is no line; what is held back is pending.\<close>

locale log_sampler =
  fixes sample :: "'k \<Rightarrow> 't \<Rightarrow> 's \<Rightarrow> (int64 \<times> bool) \<times> 's"
    and pending :: "'s \<Rightarrow> int64"
    and valid :: "'s \<Rightarrow> bool"
  assumes keeps_valid: "valid s \<Longrightarrow> valid (snd (sample k t s))"
    and accounts: "valid s \<Longrightarrow> fst (fst (sample k t s)) + pending (snd (sample k t s)) = pending s + 1"
    and silent: "valid s \<Longrightarrow> \<not> snd (fst (sample k t s)) \<Longrightarrow> fst (fst (sample k t s)) = 0"
begin

lemma run_accounts_from:
  assumes "valid s"
    and "foldl (\<lambda>(rs, s) (k, t). let (r, s') = sample k t s in (rs @ [r], s')) (rs0, s) cs = (rs, s')"
  shows "valid s' \<and> length rs = length rs0 + length cs \<and>
    sum_list (map fst rs) + pending s' = sum_list (map fst rs0) + pending s + of_nat (length cs)"
  using assms
proof (induction cs arbitrary: rs0 s)
  case (Cons c cs)
  obtain k t where c: "c = (k, t)" by (rule prod.exhaust)
  obtain r s1 where r: "sample k t s = (r, s1)" by (rule prod.exhaust)
  have "valid s1" "fst r + pending s1 = pending s + 1"
    using keeps_valid [OF Cons.prems(1), of k t] accounts [OF Cons.prems(1), of k t] by (simp_all add: r)
  then show ?case
    using Cons.IH [of s1 "rs0 @ [r]"] Cons.prems(2) by (simp add: c r)
qed simp

lemma run_accounts:
  "valid s \<Longrightarrow> sample_run sample cs s = (rs, s') \<Longrightarrow>
     valid s' \<and> length rs = length cs \<and> sum_list (map fst rs) + pending s' = pending s + of_nat (length cs)"
  using run_accounts_from [of s "[]" cs rs s'] by (simp add: sample_run_def)

end

end
