(* ===== verification/Client_Limiter.thy ===== *)
theory Client_Limiter
  imports Core_Value Sampling
begin

unbundle bit_operations_syntax

text \<open>
  The log limiter of the client (\<^verbatim>\<open>logLimiter\<close> in \<^verbatim>\<open>pkg/client/client.go\<close>): 256 cells addressed by a hash of flag and reason,
  each a token bucket of one token. \<^verbatim>\<open>allow\<close> is lock-free, so beside the sequential function the theory has the
  calls as threads that interleave at every atomic operation.
\<close>

section \<open>The limiter\<close>

record limCell =
  lc_next :: int64
  lc_suppressed :: int64

record logLimiter =
  ll_cells :: "limCell list"
  ll_interval :: int64

definition second :: int64 where "second = 1000000000"

definition newLogLimiter :: "int64 \<Rightarrow> logLimiter" where
  "newLogLimiter interval =
     \<lparr>ll_cells = replicate 256 \<lparr>lc_next = 0, lc_suppressed = 0\<rparr>,
      ll_interval = (if sle interval 0 then second else interval)\<rparr>"

text \<open>The number a reason is (the position of its constant), and FNV-1a over the flag and the reason.\<close>

fun reason_code :: "Reason \<Rightarrow> uint32" where
  "reason_code ReasonUnknown = 0"
| "reason_code ReasonRuleMatch = 1"
| "reason_code ReasonRolloutIn = 2"
| "reason_code ReasonRolloutOut = 3"
| "reason_code ReasonFallthrough = 4"
| "reason_code ReasonDisabled = 5"
| "reason_code ReasonFlagNotFound = 6"
| "reason_code ReasonTypeMismatch = 7"
| "reason_code ReasonMissingSubject = 8"
| "reason_code ReasonError = 9"

definition fnv_step :: "uint32 \<Rightarrow> uint32 \<Rightarrow> uint32" where
  "fnv_step h x = (h XOR x) * 16777619"

definition cell_index :: "string \<Rightarrow> Reason \<Rightarrow> nat" where
  "cell_index flag reason =
     unat (fnv_step (foldl (\<lambda>h c. fnv_step h (of_nat (byte c))) 2166136261 flag) (reason_code reason) AND 255)"

text \<open>One uncontended call on its cell: the sample size and whether to emit.\<close>

definition allow_cell :: "int64 \<Rightarrow> int64 \<Rightarrow> limCell \<Rightarrow> (int64 \<times> bool) \<times> limCell" where
  "allow_cell interval now cell =
     (if slt now (lc_next cell) then ((0, False), cell\<lparr>lc_suppressed := lc_suppressed cell + 1\<rparr>)
      else ((lc_suppressed cell + 1, True), \<lparr>lc_next = now + interval, lc_suppressed = 0\<rparr>))"

definition allow :: "string \<Rightarrow> Reason \<Rightarrow> int64 \<Rightarrow> logLimiter \<Rightarrow> (int64 \<times> bool) \<times> logLimiter" where
  "allow flag reason now l =
     (let i = cell_index flag reason; (r, cell) = allow_cell (ll_interval l) now (ll_cells l ! i)
      in (r, l\<lparr>ll_cells := (ll_cells l)[i := cell]\<rparr>))"

lemma cell_index_less: "cell_index flag reason < 256"
proof -
  have "unat (x AND 255) < 256" for x :: uint32
  proof -
    have "x AND 255 \<le> 255" by (rule word_and_le1)
    then show ?thesis by (simp add: word_le_nat_alt)
  qed
  then show ?thesis by (simp only: cell_index_def)
qed

text \<open>One caller at a time, the limiter is a sampler that accounts for every event.\<close>

interpretation limiter: log_sampler "\<lambda>(flag, reason) now l. allow flag reason now l"
  "\<lambda>l. sum_list (map lc_suppressed (ll_cells l))" "\<lambda>l. length (ll_cells l) = 256"
proof
  fix k :: "string \<times> Reason" and now :: int64 and l :: logLimiter
  assume l: "length (ll_cells l) = 256"
  obtain flag reason where k: "k = (flag, reason)" by (rule prod.exhaust)
  let ?i = "cell_index flag reason" and ?r = "(case k of (flag, reason) \<Rightarrow> \<lambda>now l. allow flag reason now l) now l"
  obtain r c where c: "allow_cell (ll_interval l) now (ll_cells l ! ?i) = (r, c)" by (rule prod.exhaust)
  have r: "?r = (r, l\<lparr>ll_cells := (ll_cells l)[?i := c]\<rparr>)" by (simp add: k allow_def c Let_def)
  let ?S = "sum_list (map lc_suppressed (ll_cells l))"
  have one: "fst r + lc_suppressed c = lc_suppressed (ll_cells l ! ?i) + 1"
    using c by (auto simp: allow_cell_def split: if_splits)
  have "sum_list (map lc_suppressed (ll_cells (snd ?r))) = ?S + lc_suppressed c - lc_suppressed (ll_cells l ! ?i)"
    using sum_list_replace [of ?i "map lc_suppressed (ll_cells l)" "lc_suppressed c"] cell_index_less [of flag reason]
    by (simp add: r l map_update)
  then have "fst (fst ?r) + sum_list (map lc_suppressed (ll_cells (snd ?r))) =
      (fst r + lc_suppressed c) + ?S - lc_suppressed (ll_cells l ! ?i)"
    by (simp add: r)
  then show "fst (fst ?r) + sum_list (map lc_suppressed (ll_cells (snd ?r))) = ?S + 1" by (simp add: one)
  show "length (ll_cells (snd ?r)) = 256" by (simp add: r l)
  show "\<not> snd (fst ?r) \<Longrightarrow> fst (fst ?r) = 0" using c by (auto simp: r allow_cell_def split: if_splits)
qed

section \<open>Concurrent calls\<close>

text \<open>
  Where a call of one thread stands: before the load of \<^verbatim>\<open>next\<close>, after it, or past a successful compare-and-swap and
  before the swap of \<^verbatim>\<open>suppressed\<close>. The history lists the clock readings of the successful compare-and-swaps and
  the results returned.
\<close>

datatype pc = Idle | Loop int64 | Loaded int64 int64 | Won

record limiting =
  lim_cell :: limCell
  lim_pc :: "nat \<Rightarrow> pc"
  lim_emits :: "int64 list"
  lim_returns :: "(int64 \<times> bool) list"

datatype lim_event = Call nat int64 | Step nat

definition lim_start :: limiting where
  "lim_start = \<lparr>lim_cell = \<lparr>lc_next = 0, lc_suppressed = 0\<rparr>, lim_pc = (\<lambda>_. Idle), lim_emits = [], lim_returns = []\<rparr>"

definition lim_return :: "nat \<Rightarrow> int64 \<times> bool \<Rightarrow> limCell \<Rightarrow> limiting \<Rightarrow> limiting" where
  "lim_return t r cell st =
     st\<lparr>lim_cell := cell, lim_pc := (lim_pc st)(t := Idle), lim_returns := lim_returns st @ [r]\<rparr>"

definition lim_step :: "int64 \<Rightarrow> nat \<Rightarrow> limiting \<Rightarrow> limiting" where
  "lim_step interval t st =
     (let cell = lim_cell st
      in case lim_pc st t of
           Idle \<Rightarrow> st
         | Loop now \<Rightarrow> st\<lparr>lim_pc := (lim_pc st)(t := Loaded now (lc_next cell))\<rparr>
         | Loaded now nxt \<Rightarrow>
             if slt now nxt
             then lim_return t (0, False) (cell\<lparr>lc_suppressed := lc_suppressed cell + 1\<rparr>) st
             else if lc_next cell = nxt
             then st\<lparr>lim_cell := cell\<lparr>lc_next := now + interval\<rparr>, lim_pc := (lim_pc st)(t := Won),
                    lim_emits := lim_emits st @ [now]\<rparr>
             else st\<lparr>lim_pc := (lim_pc st)(t := Loop now)\<rparr>
         | Won \<Rightarrow> lim_return t (lc_suppressed cell + 1, True) (cell\<lparr>lc_suppressed := 0\<rparr>) st)"

definition lim_event :: "int64 \<Rightarrow> lim_event \<Rightarrow> limiting \<Rightarrow> limiting" where
  "lim_event interval e st =
     (case e of
        Call t now \<Rightarrow> if lim_pc st t = Idle then st\<lparr>lim_pc := (lim_pc st)(t := Loop now)\<rparr> else st
      | Step t \<Rightarrow> lim_step interval t st)"

definition lim_run :: "int64 \<Rightarrow> lim_event list \<Rightarrow> limiting \<Rightarrow> limiting" where
  "lim_run interval es st = foldl (\<lambda>st e. lim_event interval e st) st es"

lemma lim_run_induct:
  assumes "P st" and "\<And>st e. e \<in> set es \<Longrightarrow> P st \<Longrightarrow> P (lim_event interval e st)"
  shows "P (lim_run interval es st)"
  using assms unfolding lim_run_def by (induction es arbitrary: st) simp_all

lemma lim_event_cases:
  obtains (idle) "lim_event interval e st = st"
  | (call) t now where "e = Call t now"
      "lim_event interval e st = st\<lparr>lim_pc := (lim_pc st)(t := Loop now)\<rparr>"
  | (load) t now where "lim_pc st t = Loop now"
      "lim_event interval e st = st\<lparr>lim_pc := (lim_pc st)(t := Loaded now (lc_next (lim_cell st)))\<rparr>"
  | (retry) t now nxt where "lim_pc st t = Loaded now nxt"
      "lim_event interval e st = st\<lparr>lim_pc := (lim_pc st)(t := Loop now)\<rparr>"
  | (suppress) t where "lim_event interval e st =
        lim_return t (0, False) ((lim_cell st)\<lparr>lc_suppressed := lc_suppressed (lim_cell st) + 1\<rparr>) st"
  | (win) t now where "lim_pc st t = Loaded now (lc_next (lim_cell st))" "\<not> slt now (lc_next (lim_cell st))"
      "lim_event interval e st = st\<lparr>lim_cell := (lim_cell st)\<lparr>lc_next := now + interval\<rparr>,
         lim_pc := (lim_pc st)(t := Won), lim_emits := lim_emits st @ [now]\<rparr>"
  | (swap) t where "lim_event interval e st =
        lim_return t (lc_suppressed (lim_cell st) + 1, True) ((lim_cell st)\<lparr>lc_suppressed := 0\<rparr>) st"
proof (cases e)
  case (Call t now)
  then show ?thesis using that(1,2) by (cases "lim_pc st t = Idle") (simp_all add: lim_event_def)
next
  case (Step t)
  then have e: "lim_event interval e st = lim_step interval t st" by (simp add: lim_event_def)
  show ?thesis
  proof (cases "lim_pc st t")
    case Idle
    then show ?thesis using that(1) e by (simp add: lim_step_def)
  next
    case (Loop now)
    then show ?thesis using e by (intro that(3)) (simp_all add: lim_step_def)
  next
    case (Loaded now nxt)
    consider "slt now nxt" | "\<not> slt now nxt" "lc_next (lim_cell st) = nxt"
      | "\<not> slt now nxt" "lc_next (lim_cell st) \<noteq> nxt" by blast
    then show ?thesis
    proof cases
      case 1
      then show ?thesis using e Loaded by (intro that(5)) (simp add: lim_step_def Let_def)
    next
      case 2
      then show ?thesis using e Loaded by (intro that(6)) (simp_all add: lim_step_def Let_def)
    next
      case 3
      then show ?thesis using e Loaded by (intro that(4)) (simp_all add: lim_step_def Let_def)
    qed
  next
    case Won
    then show ?thesis using e by (intro that(7) [of t]) (simp add: lim_step_def Let_def)
  qed
qed

lemma lim_return_sel [simp]:
  "lim_cell (lim_return t r cell st) = cell" "lim_pc (lim_return t r cell st) = (lim_pc st)(t := Idle)"
  "lim_emits (lim_return t r cell st) = lim_emits st"
  "lim_returns (lim_return t r cell st) = lim_returns st @ [r]"
  by (simp_all add: lim_return_def)

section \<open>Properties\<close>

definition accounted :: "limiting \<Rightarrow> bool" where
  "accounted st \<longleftrightarrow>
     sum_list (map fst (lim_returns st)) + lc_suppressed (lim_cell st) = of_nat (length (lim_returns st))"

lemma accounted_event: "accounted st \<Longrightarrow> accounted (lim_event interval e st)"
  by (rule lim_event_cases [of interval e st]) (simp_all add: accounted_def algebra_simps)

text \<open>No event is lost from the count. However the concurrent calls on a cell interleave, the sample sizes returned so
  far and the events still held back add up to the number of calls that returned (in the arithmetic of the
  64-bit counters), so the true volume can be recovered from \<^verbatim>\<open>sampled_of\<close>.\<close>

theorem limiter_accounting:
  "sum_list (map fst (lim_returns (lim_run interval es lim_start)))
     + lc_suppressed (lim_cell (lim_run interval es lim_start))
   = of_nat (length (lim_returns (lim_run interval es lim_start)))"
proof -
  have "accounted (lim_run interval es lim_start)"
    by (rule lim_run_induct) (simp_all add: accounted_event, simp add: accounted_def lim_start_def)
  then show ?thesis by (simp add: accounted_def)
qed

text \<open>A clock reading to which the interval can be added within 64 bits.\<close>

definition in_time :: "int64 \<Rightarrow> int64 \<Rightarrow> bool" where
  "in_time interval now \<longleftrightarrow> sint now + sint interval < 2 ^ 63"

definition timely :: "int64 \<Rightarrow> lim_event \<Rightarrow> bool" where
  "timely interval e \<longleftrightarrow> (case e of Call t now \<Rightarrow> in_time interval now | Step t \<Rightarrow> True)"

definition pc_timely :: "int64 \<Rightarrow> pc \<Rightarrow> bool" where
  "pc_timely interval p \<longleftrightarrow> (case p of Loop now \<Rightarrow> in_time interval now | Loaded now _ \<Rightarrow> in_time interval now | _ \<Rightarrow> True)"

definition spaced :: "int64 \<Rightarrow> limiting \<Rightarrow> bool" where
  "spaced interval st \<longleftrightarrow>
     sorted_wrt (\<lambda>a b. sint a + sint interval \<le> sint b) (lim_emits st)
     \<and> (\<forall>t. pc_timely interval (lim_pc st t))
     \<and> (lim_emits st \<noteq> [] \<longrightarrow>
          sint (lc_next (lim_cell st)) = sint (last (lim_emits st)) + sint interval)"

lemma sint_in_time:
  fixes now interval :: int64
  assumes "in_time interval now" and "0 \<le> sint interval"
  shows "sint (now + interval) = sint now + sint interval"
proof -
  have "- (2 ^ 63) \<le> sint now" using sint_greater_eq [of now] by simp
  then have "- (2 ^ 63) \<le> sint now + sint interval" using assms(2) by linarith
  moreover have "sint now + sint interval < 2 ^ 63" using assms(1) by (simp add: in_time_def)
  ultimately show ?thesis
    by (simp add: signed_take_bit_int_eq_self sint_word_ariths)
qed

lemma spaced_win:
  assumes "spaced interval st" and "0 \<le> sint interval" and "in_time interval now"
    and "\<not> slt now (lc_next (lim_cell st))"
  shows "spaced interval (st\<lparr>lim_cell := (lim_cell st)\<lparr>lc_next := now + interval\<rparr>,
         lim_pc := (lim_pc st)(t := Won), lim_emits := lim_emits st @ [now]\<rparr>)"
proof -
  have later: "sint x + sint interval \<le> sint now" if "x \<in> set (lim_emits st)" for x
  proof -
    have ne: "lim_emits st \<noteq> []" using that by auto
    then have l: "sint (last (lim_emits st)) + sint interval \<le> sint now"
      using assms(1,4) by (simp add: spaced_def slt_def)
    from ne obtain xs y where xs: "lim_emits st = xs @ [y]" by (cases "lim_emits st" rule: rev_cases) auto
    have "x = y \<or> sint x + sint interval \<le> sint y"
      using assms(1) that by (auto simp: spaced_def xs sorted_wrt_append)
    then show ?thesis using l assms(2) by (auto simp: xs)
  qed
  then show ?thesis
    using assms(1) sint_in_time [OF assms(3,2)]
    by (auto simp: spaced_def sorted_wrt_append pc_timely_def)
qed

lemma spaced_event:
  assumes "spaced interval st" and "0 \<le> sint interval" and "timely interval e"
  shows "spaced interval (lim_event interval e st)"
proof (cases rule: lim_event_cases [of interval e st])
  case (win t now)
  moreover have "pc_timely interval (lim_pc st t)" using assms(1) by (simp add: spaced_def)
  ultimately show ?thesis using spaced_win [OF assms(1,2)] by (simp add: pc_timely_def)
next
  case (load t now)
  then have "pc_timely interval (Loop now)" using assms(1) unfolding spaced_def by metis
  then show ?thesis using assms(1) load by (simp add: spaced_def pc_timely_def)
next
  case (retry t now nxt)
  then have "pc_timely interval (Loaded now nxt)" using assms(1) unfolding spaced_def by metis
  then show ?thesis using assms(1) retry by (simp add: spaced_def pc_timely_def)
qed (use assms in \<open>simp_all add: spaced_def pc_timely_def timely_def\<close>)

lemma lim_run_spaced:
  assumes "0 \<le> sint interval" and "\<forall>e \<in> set es. timely interval e"
  shows "spaced interval (lim_run interval es lim_start)"
proof (rule lim_run_induct)
  show "spaced interval lim_start" by (simp add: spaced_def lim_start_def pc_timely_def)
qed (use assms spaced_event in blast)

text \<open>C29. A cell emits at most one event per interval. Over any interleaving of calls, with clock readings in any
  order, two successive emissions carry readings at least an interval apart, as long as adding the interval
  to a reading stays within 64 bits.\<close>

theorem limiter_spacing:
  assumes "0 \<le> sint interval" and "\<forall>e \<in> set es. timely interval e"
  shows "sorted_wrt (\<lambda>a b. sint a + sint interval \<le> sint b) (lim_emits (lim_run interval es lim_start))"
  using lim_run_spaced [OF assms] by (simp add: spaced_def)

text \<open>Two threads race for a token: both load the cell, one wins, the other retries and is held back.\<close>

definition race :: "lim_event list" where
  "race = [Call 0 5, Call 1 6, Step 0, Step 1, Step 0, Step 1, Step 1, Step 1, Step 0]"

theorem limiter_spacing_witness:
  "lim_emits (lim_run 10 race lim_start) = [5]
   \<and> sorted_wrt (\<lambda>a b. sint a + sint (10 :: int64) \<le> sint b) (lim_emits (lim_run 10 race lim_start))"
proof
  show "lim_emits (lim_run 10 race lim_start) = [5]"
    by (simp add: race_def lim_run_def lim_event_def lim_step_def lim_start_def lim_return_def slt_def)
  show "sorted_wrt (\<lambda>a b. sint a + sint (10 :: int64) \<le> sint b) (lim_emits (lim_run 10 race lim_start))"
    by (rule limiter_spacing) (simp_all add: race_def timely_def in_time_def)
qed

text \<open>A call always returns. From any state of the cell and of the other threads, a thread that is given four steps
  in a row is out of \<^verbatim>\<open>allow\<close>; and a call with the cell to itself does what the sequential function does,
  result and cell.\<close>

theorem limiter_returns:
  "lim_pc ((lim_step interval t ^^ 4) st) t = Idle
   \<and> (lim_pc st t = Idle \<longrightarrow>
       (let st' = (lim_step interval t ^^ 3) (lim_event interval (Call t now) st);
            (r, cell) = allow_cell interval now (lim_cell st)
        in lim_cell st' = cell \<and> lim_returns st' = lim_returns st @ [r] \<and> lim_pc st' = lim_pc st))"
proof -
  have "lim_pc ((lim_step interval t ^^ 4) st) t = Idle"
    by (cases "lim_pc st t") (simp_all add: lim_step_def numeral_eq_Suc Let_def)
  moreover have "let st' = (lim_step interval t ^^ 3) (lim_event interval (Call t now) st);
            (r, cell) = allow_cell interval now (lim_cell st)
        in lim_cell st' = cell \<and> lim_returns st' = lim_returns st @ [r] \<and> lim_pc st' = lim_pc st"
    if "lim_pc st t = Idle"
    using that by (auto simp: lim_step_def lim_event_def numeral_eq_Suc Let_def allow_cell_def)
  ultimately show ?thesis by blast
qed

theorem limiter_returns_witness:
  "lim_returns ((lim_step 10 3 ^^ 3) (lim_event 10 (Call 3 7) lim_start)) = [(1, True)]"
  using limiter_returns [of 10 3 lim_start 7] by (simp add: lim_start_def allow_cell_def slt_def Let_def)

end
