(* ===== verification/Config_Layer.thy ===== *)
theory Config_Layer
  imports Core_Value
begin

text \<open>
  The three configuration layers of \<^verbatim>\<open>internal/config/layer.go\<close> and the tri-state carrier of
  \<^verbatim>\<open>opt.go\<close>. A wall-clock time is its number of nanoseconds, an integer. A nil and an empty slice
  are both the empty list; a pointer is an option.
\<close>

section \<open>The tri-state carrier\<close>

text \<open>
  \<^verbatim>\<open>Opt[T]\<close> has three states, which its constructors \<^verbatim>\<open>None\<close>, \<^verbatim>\<open>NullOpt\<close> and \<^verbatim>\<open>Some\<close> and its
  decoder build.
\<close>

datatype 'a Opt = OptAbsent | OptNull | OptVal 'a

fun Opt_Get :: "'a Opt \<Rightarrow> 'a option" where
  "Opt_Get (OptVal v) = Some v"
| "Opt_Get _ = None"

definition OrElse :: "'a Opt \<Rightarrow> 'a \<Rightarrow> 'a" where
  "OrElse x def = (case Opt_Get x of Some v \<Rightarrow> v | None \<Rightarrow> def)"

definition IsAbsent :: "'a Opt \<Rightarrow> bool" where "IsAbsent x \<longleftrightarrow> x = OptAbsent"
definition IsNull :: "'a Opt \<Rightarrow> bool" where "IsNull x \<longleftrightarrow> x = OptNull"

fun IsValue :: "'a Opt \<Rightarrow> bool" where
  "IsValue (OptVal _) = True"
| "IsValue _ = False"

definition Opt_IsZero :: "'a Opt \<Rightarrow> bool" where "Opt_IsZero x \<longleftrightarrow> IsAbsent x"

text \<open>The field \<^verbatim>\<open>Set\<close>.\<close>

definition IsSet :: "'a Opt \<Rightarrow> bool" where "IsSet x \<longleftrightarrow> x \<noteq> OptAbsent"

text \<open>
  The codec of one tri-state field: the decoder runs for a key that is present; the member is
  left out on marshal when \<^verbatim>\<open>IsZero\<close> holds (\<^verbatim>\<open>omitzero\<close>).
\<close>

definition Opt_UnmarshalJSON :: "(json \<Rightarrow> 'e + 'a) \<Rightarrow> json \<Rightarrow> 'e + 'a Opt" where
  "Opt_UnmarshalJSON dec j =
     (if j = JNull then Inr OptNull
      else case dec j of Inl e \<Rightarrow> Inl e | Inr v \<Rightarrow> Inr (OptVal v))"

definition Opt_MarshalJSON :: "('a \<Rightarrow> json) \<Rightarrow> 'a Opt \<Rightarrow> json" where
  "Opt_MarshalJSON enc x = (case Opt_Get x of None \<Rightarrow> JNull | Some v \<Rightarrow> enc v)"

definition opt_member :: "('a \<Rightarrow> json) \<Rightarrow> string \<Rightarrow> 'a Opt \<Rightarrow> (string \<times> json) list" where
  "opt_member enc name x = (if Opt_IsZero x then [] else [(name, Opt_MarshalJSON enc x)])"

definition opt_field :: "(json \<Rightarrow> 'e + 'a) \<Rightarrow> string \<Rightarrow> (string \<times> json) list \<Rightarrow> 'e + 'a Opt" where
  "opt_field dec name members =
     (case map_of members name of None \<Rightarrow> Inr OptAbsent | Some j \<Rightarrow> Opt_UnmarshalJSON dec j)"

lemma IsValue_iff: "IsValue x \<longleftrightarrow> (\<exists>v. x = OptVal v)"
  by (cases x) auto

lemma Opt_Get_Some [simp]: "Opt_Get x = Some v \<longleftrightarrow> x = OptVal v"
  by (cases x) auto

lemma Opt_Get_None: "Opt_Get x = None \<longleftrightarrow> \<not> IsValue x"
  by (cases x) auto

lemma OrElse_simps [simp]: "OrElse (OptVal v) d = v" "OrElse OptNull d = d" "OrElse OptAbsent d = d"
  by (simp_all add: OrElse_def)

lemma OrElse_novalue: "\<not> IsValue x \<Longrightarrow> OrElse x d = d"
  by (cases x) simp_all

text \<open>The three states survive the wire: a tri-state field that is marshalled with \<^verbatim>\<open>omitzero\<close> and read
  back is what it was (absent stays absent and null stays null), provided the payload's own codec round
  trips and never writes \<^verbatim>\<open>null\<close> for a carried value.\<close>

theorem Opt_roundtrip:
  assumes "\<And>v. x = OptVal v \<Longrightarrow> dec (enc v) = Inr v \<and> enc v \<noteq> JNull"
    and "name \<notin> fst ` set before" "name \<notin> fst ` set after"
  shows "opt_field dec name (before @ opt_member enc name x @ after) = Inr x"
proof -
  have none: "map_of ms name = None" if "name \<notin> fst ` set ms" for ms :: "(string \<times> json) list"
    using that by (simp add: map_of_eq_None_iff)
  show ?thesis
    using none [OF assms(2)] none [OF assms(3)] assms(1)
    by (cases x) (simp_all add: opt_field_def opt_member_def Opt_IsZero_def IsAbsent_def
        Opt_MarshalJSON_def Opt_UnmarshalJSON_def map_add_def)
qed

theorem Opt_roundtrip_witness:
  "opt_field Value_UnmarshalJSON ''enabled''
     ([(''key'', JStr ''f'')] @ opt_member Value_MarshalJSON ''enabled'' (OptVal (VBool False)) @ [])
   = Inr (OptVal (VBool False))"
  by (rule Opt_roundtrip) auto

section \<open>Layers\<close>

datatype LayerID = LayerNone | LayerBase | LayerOverlay | LayerOps

fun LayerID_String :: "LayerID \<Rightarrow> string" where
  "LayerID_String LayerBase = ''L1:base''"
| "LayerID_String LayerOverlay = ''L2:overlay''"
| "LayerID_String LayerOps = ''L3:ops''"
| "LayerID_String LayerNone = ''none''"

text \<open>The constants are numbered in ascending precedence.\<close>

fun layer_rank :: "LayerID \<Rightarrow> nat" where
  "layer_rank LayerNone = 0"
| "layer_rank LayerBase = 1"
| "layer_rank LayerOverlay = 2"
| "layer_rank LayerOps = 3"

instantiation LayerID :: linorder
begin

definition less_eq_LayerID :: "LayerID \<Rightarrow> LayerID \<Rightarrow> bool" where
  "less_eq_LayerID a b \<longleftrightarrow> layer_rank a \<le> layer_rank b"

definition less_LayerID :: "LayerID \<Rightarrow> LayerID \<Rightarrow> bool" where
  "less_LayerID a b \<longleftrightarrow> layer_rank a < layer_rank b"

instance
proof
  fix a b :: LayerID
  show "a \<le> b \<Longrightarrow> b \<le> a \<Longrightarrow> a = b"
    by (cases a; cases b) (simp_all add: less_eq_LayerID_def)
qed (auto simp: less_eq_LayerID_def less_LayerID_def)

end

record WireCondition =
  wc_Attribute :: string
  wc_Op :: string
  wc_Values :: "Value list"
  wc_Negate :: bool

record WireRule =
  wr_ID :: string
  wr_Conditions :: "WireCondition list"
  wr_Combiner :: string
  wr_Value :: Value

record WireRollout =
  wro_BasisPoints :: int32
  wro_BucketNamespace :: string
  wro_BucketBy :: string
  wro_OnValue :: Value
  wro_OffValue :: Value

definition toCore :: "WireRollout option \<Rightarrow> Rollout option" where
  "toCore ro =
     (case ro of
        None \<Rightarrow> None
      | Some r \<Rightarrow>
          Some \<lparr>roll_BasisPoints = wro_BasisPoints r, roll_BucketNamespace = wro_BucketNamespace r,
                roll_BucketBy = wro_BucketBy r, roll_OnValue = wro_OnValue r,
                roll_OffValue = wro_OffValue r\<rparr>)"

record OverlayRollout =
  or_BasisPoints :: "int32 Opt"
  or_BucketNamespace :: "string Opt"
  or_BucketBy :: "string Opt"
  or_OnValue :: "Value Opt"
  or_OffValue :: "Value Opt"

type_synonym RuleListMode = string

definition RuleModeReplace :: RuleListMode where "RuleModeReplace = ''replace''"
definition RuleModeAppend :: RuleListMode where "RuleModeAppend = ''append''"

record BaseFlag =
  bf_Key :: string
  bf_Type :: string
  bf_Owner :: string
  bf_Description :: string
  bf_Enabled :: bool
  bf_DefaultValue :: Value
  bf_OffValue :: Value
  bf_Rules :: "WireRule list"
  bf_Rollout :: "WireRollout option"
  bf_EvaluationOrder :: string
  bf_missing :: "string list"

record BaseLayer =
  bl_SchemaVersion :: int64
  bl_Flags :: "BaseFlag list"

definition requiredBaseFields :: "string list" where
  "requiredBaseFields = [''key'', ''type'', ''enabled'', ''default_value'']"

text \<open>
  \<^verbatim>\<open>BaseFlag.UnmarshalJSON\<close>: the alias decode, then the probe for the required keys. The probe
  sees the keys of the document's members.
\<close>

definition BaseFlag_UnmarshalJSON ::
    "((string \<times> json) list \<Rightarrow> 'e + BaseFlag) \<Rightarrow> (string \<times> json) list \<Rightarrow> 'e + BaseFlag" where
  "BaseFlag_UnmarshalJSON decode_alias members =
     (case decode_alias members of
        Inl e \<Rightarrow> Inl e
      | Inr a \<Rightarrow> Inr (a\<lparr>bf_missing := filter (\<lambda>k. k \<notin> fst ` set members) requiredBaseFields\<rparr>))"

record OverlayFlag =
  of_Key :: string
  of_Type :: "string Opt"
  of_Enabled :: "bool Opt"
  of_DefaultValue :: "Value Opt"
  of_OffValue :: "Value Opt"
  of_Rules :: "WireRule list Opt"
  of_RulesMode :: "RuleListMode Opt"
  of_Rollout :: "OverlayRollout Opt"
  of_EvaluationOrder :: "string Opt"

record OverlayLayer =
  ol_SchemaVersion :: int64
  ol_Environment :: string
  ol_Flags :: "OverlayFlag list"

type_synonym time = int

definition hour :: int where "hour = 3600 * 1000000000"
definition MaxOpsOverrideTTL :: int where "MaxOpsOverrideTTL = 30 * 24 * hour"
definition OpsOverrideTTLWarn :: int where "OpsOverrideTTLWarn = 72 * hour"

definition opsAllowedFields :: "string list" where
  "opsAllowedFields = [''key'', ''enabled'', ''basis_points'', ''expires_at'', ''reason'', ''owner'']"

record OpsOverride =
  op_Key :: string
  op_Enabled :: "bool Opt"
  op_BasisPoints :: "int32 Opt"
  op_ExpiresAt :: "time Opt"
  op_Reason :: string
  op_Owner :: string
  op_disallowed :: "string list"

record OpsLayer =
  opl_SchemaVersion :: int64
  opl_Environment :: string
  opl_Overrides :: "OpsOverride list"

text \<open>The probe is a map, so a repeated key is listed once, and the list is sorted.\<close>

definition OpsOverride_UnmarshalJSON ::
    "((string \<times> json) list \<Rightarrow> 'e + OpsOverride) \<Rightarrow> (string \<times> json) list \<Rightarrow> 'e + OpsOverride" where
  "OpsOverride_UnmarshalJSON decode_alias members =
     (case decode_alias members of
        Inl e \<Rightarrow> Inl e
      | Inr a \<Rightarrow>
          Inr (a\<lparr>op_disallowed :=
            sort (filter (\<lambda>k. k \<notin> set opsAllowedFields) (remdups (map fst members)))\<rparr>))"

text \<open>What can be handed to \<^verbatim>\<open>Store.Set\<close>. A base layer may be a nil pointer.\<close>

datatype Layer = LBase "BaseLayer option" | LOverlay OverlayLayer | LOps OpsLayer | LOther

fun layer_id :: "Layer \<Rightarrow> LayerID" where
  "layer_id (LBase _) = LayerBase"
| "layer_id (LOverlay _) = LayerOverlay"
| "layer_id (LOps _) = LayerOps"
| "layer_id LOther = LayerNone"

fun layer_env :: "Layer \<Rightarrow> string" where
  "layer_env (LOverlay l) = ol_Environment l"
| "layer_env (LOps l) = opl_Environment l"
| "layer_env _ = []"

section \<open>Parsing helpers and deep copies\<close>

definition parseLogicOp :: "string \<Rightarrow> LogicOp \<times> bool" where
  "parseLogicOp s =
     (if s = [] \<or> s = ''and'' then (LogicAnd, True)
      else if s = ''or'' then (LogicOr, True)
      else (LogicAnd, False))"

definition parseEvaluationOrder :: "string \<Rightarrow> EvaluationOrder \<times> bool" where
  "parseEvaluationOrder s =
     (if s = [] then (OrderUnspecified, True)
      else if s = ''rules_first'' \<or> s = ''rules_then_rollout'' then (OrderRulesFirst, True)
      else (OrderUnspecified, False))"

definition cloneWireRules :: "WireRule list \<Rightarrow> WireRule list" where
  "cloneWireRules rs =
     map (\<lambda>r. r\<lparr>wr_Conditions := map (\<lambda>c. c\<lparr>wc_Values := [] @ wc_Values c\<rparr>) (wr_Conditions r)\<rparr>) rs"

definition WireRollout_clone :: "WireRollout option \<Rightarrow> WireRollout option" where
  "WireRollout_clone r = (case r of None \<Rightarrow> None | Some r \<Rightarrow> Some r)"

definition BaseFlag_clone :: "BaseFlag \<Rightarrow> BaseFlag" where
  "BaseFlag_clone f =
     f\<lparr>bf_Rules := cloneWireRules (bf_Rules f), bf_Rollout := WireRollout_clone (bf_Rollout f),
       bf_missing := [] @ bf_missing f\<rparr>"

definition OverlayFlag_clone :: "OverlayFlag \<Rightarrow> OverlayFlag" where
  "OverlayFlag_clone f =
     (case of_Rules f of OptVal rs \<Rightarrow> f\<lparr>of_Rules := OptVal (cloneWireRules rs)\<rparr> | _ \<Rightarrow> f)"

definition OpsOverride_clone :: "OpsOverride \<Rightarrow> OpsOverride" where
  "OpsOverride_clone x = x\<lparr>op_disallowed := [] @ op_disallowed x\<rparr>"

definition BaseLayer_Clone :: "BaseLayer option \<Rightarrow> BaseLayer option" where
  "BaseLayer_Clone l =
     (case l of
        None \<Rightarrow> None
      | Some l \<Rightarrow> Some \<lparr>bl_SchemaVersion = bl_SchemaVersion l, bl_Flags = map BaseFlag_clone (bl_Flags l)\<rparr>)"

definition OverlayLayer_Clone :: "OverlayLayer \<Rightarrow> OverlayLayer" where
  "OverlayLayer_Clone l =
     \<lparr>ol_SchemaVersion = ol_SchemaVersion l, ol_Environment = ol_Environment l,
      ol_Flags = map OverlayFlag_clone (ol_Flags l)\<rparr>"

definition OpsLayer_Clone :: "OpsLayer \<Rightarrow> OpsLayer" where
  "OpsLayer_Clone l =
     \<lparr>opl_SchemaVersion = opl_SchemaVersion l, opl_Environment = opl_Environment l,
      opl_Overrides = map OpsOverride_clone (opl_Overrides l)\<rparr>"

fun CloneLayer :: "Layer \<Rightarrow> Layer" where
  "CloneLayer (LBase l) = LBase (BaseLayer_Clone l)"
| "CloneLayer (LOverlay l) = LOverlay (OverlayLayer_Clone l)"
| "CloneLayer (LOps l) = LOps (OpsLayer_Clone l)"
| "CloneLayer LOther = LOther"

text \<open>A deep copy loses nothing.\<close>

lemma cloneWireRules_id [simp]: "cloneWireRules rs = rs"
  by (simp add: cloneWireRules_def)

lemma BaseFlag_clone_id [simp]: "BaseFlag_clone f = f"
  by (cases "bf_Rollout f") (simp_all add: BaseFlag_clone_def WireRollout_clone_def)

lemma OverlayFlag_clone_id [simp]: "OverlayFlag_clone f = f"
  by (cases "of_Rules f") (simp_all add: OverlayFlag_clone_def)

lemma OpsOverride_clone_id [simp]: "OpsOverride_clone x = x"
  by (simp add: OpsOverride_clone_def)

lemma BaseLayer_Clone_id [simp]: "BaseLayer_Clone l = l"
  by (cases l) (simp_all add: BaseLayer_Clone_def map_idI)

lemma OverlayLayer_Clone_id [simp]: "OverlayLayer_Clone l = l"
  by (simp add: OverlayLayer_Clone_def map_idI)

lemma OpsLayer_Clone_id [simp]: "OpsLayer_Clone l = l"
  by (simp add: OpsLayer_Clone_def map_idI)

lemma CloneLayer_id [simp]: "CloneLayer l = l"
  by (cases l) simp_all

lemma parseEvaluationOrder_ok:
  "parseEvaluationOrder s = (e, ok) \<Longrightarrow> \<not> ok \<Longrightarrow> e = OrderUnspecified"
  by (auto simp: parseEvaluationOrder_def split: if_splits)

end
