(* ===== verification/Core_Semver.thy ===== *)
theory Core_Semver
  imports Prelude
begin

text \<open>
  The semantic versions of \<^verbatim>\<open>internal/core/semver.go\<close>: the strict parser and the precedence
  comparison that the three semver operators use. The comparison is shown to be a total order
  on parsed versions, and the parser to accept exactly what a version renders to.
\<close>

section \<open>Three-way comparisons\<close>

text \<open>
  The contract of a Go comparison function: -1, 0 or 1, antisymmetric, transitive, and 0 only
  on equal arguments (within \<open>dom\<close>, where a comparison is meant for some arguments only).
\<close>

locale three_way =
  fixes cmp :: "'a \<Rightarrow> 'a \<Rightarrow> int"
    and ok :: "'a \<Rightarrow> bool"
  assumes cmp_range: "cmp a b = -1 \<or> cmp a b = 0 \<or> cmp a b = 1"
    and cmp_swap: "cmp b a = - cmp a b"
    and cmp_refl: "cmp a a = 0"
    and cmp_zero: "ok a \<Longrightarrow> ok b \<Longrightarrow> cmp a b = 0 \<Longrightarrow> a = b"
    and cmp_less_trans: "ok a \<Longrightarrow> ok b \<Longrightarrow> ok c \<Longrightarrow> cmp a b < 0 \<Longrightarrow> cmp b c < 0 \<Longrightarrow> cmp a c < 0"
begin

lemma cmp_zero_iff: "ok a \<Longrightarrow> ok b \<Longrightarrow> cmp a b = 0 \<longleftrightarrow> a = b"
  using cmp_zero cmp_refl by blast

lemma cmp_neg_iff: "cmp a b < 0 \<longleftrightarrow> cmp a b = -1"
  using cmp_range [of a b] by auto

lemma cmp_pos_iff: "cmp a b > 0 \<longleftrightarrow> cmp b a < 0"
  using cmp_swap [of a b] by auto

lemma cmp_total: "ok a \<Longrightarrow> ok b \<Longrightarrow> a \<noteq> b \<Longrightarrow> cmp a b < 0 \<or> cmp b a < 0"
  using cmp_zero_iff [of a b] cmp_range [of a b] cmp_swap [of a b] by auto

lemma cmp_le_trans:
  assumes "ok a" and "ok b" and "ok c" and "cmp a b \<le> 0" and "cmp b c \<le> 0"
  shows "cmp a c \<le> 0"
proof (cases "a = b \<or> b = c")
  case True
  then show ?thesis using assms by auto
next
  case False
  then have "cmp a b < 0" "cmp b c < 0"
    using assms cmp_zero by fastforce+
  then have "cmp a c < 0" using assms(1-3) cmp_less_trans by blast
  then show ?thesis by simp
qed

end

text \<open>Lexicographic comparison of lists; a proper prefix sorts lower.\<close>

fun lex3 :: "('a \<Rightarrow> 'a \<Rightarrow> int) \<Rightarrow> 'a list \<Rightarrow> 'a list \<Rightarrow> int" where
  "lex3 cmp [] [] = 0"
| "lex3 cmp [] (_ # _) = -1"
| "lex3 cmp (_ # _) [] = 1"
| "lex3 cmp (x # xs) (y # ys) = (if cmp x y \<noteq> 0 then cmp x y else lex3 cmp xs ys)"

context three_way
begin

lemma lex3_range: "lex3 cmp xs ys = -1 \<or> lex3 cmp xs ys = 0 \<or> lex3 cmp xs ys = 1"
  using cmp_range by (induction cmp xs ys rule: lex3.induct) auto

lemma lex3_swap: "lex3 cmp ys xs = - lex3 cmp xs ys"
proof (induction xs arbitrary: ys)
  case Nil
  then show ?case by (cases ys) auto
next
  case (Cons x xs)
  show ?case
  proof (cases ys)
    case Nil
    then show ?thesis by simp
  next
    case (Cons y ys')
    then show ?thesis using Cons.IH [of ys'] cmp_swap [of x y] by simp
  qed
qed

lemma lex3_refl: "lex3 cmp xs xs = 0"
  using cmp_refl by (induction xs) auto

lemma lex3_zero:
  "list_all ok xs \<Longrightarrow> list_all ok ys \<Longrightarrow> lex3 cmp xs ys = 0 \<Longrightarrow> xs = ys"
proof (induction xs arbitrary: ys)
  case Nil
  then show ?case by (cases ys) auto
next
  case (Cons x xs)
  then obtain y ys' where ys: "ys = y # ys'" by (cases ys) auto
  with Cons.prems have "cmp x y = 0" "lex3 cmp xs ys' = 0"
    by (auto split: if_splits)
  with Cons ys show ?case using cmp_zero by auto
qed

lemma lex3_less_trans:
  "list_all ok xs \<Longrightarrow> list_all ok ys \<Longrightarrow> list_all ok zs \<Longrightarrow>
     lex3 cmp xs ys < 0 \<Longrightarrow> lex3 cmp ys zs < 0 \<Longrightarrow> lex3 cmp xs zs < 0"
proof (induction xs arbitrary: ys zs)
  case Nil
  then show ?case by (cases ys; cases zs) auto
next
  case (Cons x xs)
  then obtain y ys' where ys: "ys = y # ys'" by (cases ys) auto
  with Cons.prems obtain z zs' where zs: "zs = z # zs'" by (cases zs) auto
  have okx: "ok x" "ok y" "ok z" using Cons.prems ys zs by auto
  show ?case
  proof (cases "x = y \<or> y = z")
    case True
    then show ?thesis
    proof
      assume "x = y"
      moreover have "lex3 cmp xs zs' < 0" if "cmp y z = 0"
        using that Cons.IH [of ys' zs'] Cons.prems ys zs \<open>x = y\<close> by (simp add: cmp_refl)
      ultimately show ?thesis using Cons.prems(5) ys zs by (simp split: if_splits)
    next
      assume "y = z"
      moreover have "lex3 cmp xs zs' < 0" if "cmp x y = 0"
        using that Cons.IH [of ys' zs'] Cons.prems ys zs \<open>y = z\<close> by (simp add: cmp_refl)
      ultimately show ?thesis using Cons.prems(4) ys zs by (simp split: if_splits)
    qed
  next
    case False
    then have "cmp x y \<noteq> 0" "cmp y z \<noteq> 0" using okx cmp_zero by blast+
    then have "cmp x y < 0" "cmp y z < 0" using Cons.prems(4,5) ys zs by simp_all
    then have "cmp x z < 0" using okx cmp_less_trans by blast
    then show ?thesis using ys zs by simp
  qed
qed

lemma three_way_lex3: "three_way (lex3 cmp) (list_all ok)"
proof
  show "lex3 cmp a b = -1 \<or> lex3 cmp a b = 0 \<or> lex3 cmp a b = 1" for a b
    by (rule lex3_range)
  show "lex3 cmp b a = - lex3 cmp a b" for a b
    by (rule lex3_swap)
  show "lex3 cmp a a = 0" for a
    by (rule lex3_refl)
qed (fact lex3_zero lex3_less_trans)+

end

section \<open>The comparisons of the code\<close>

definition cmpUint64 :: "uint64 \<Rightarrow> uint64 \<Rightarrow> int" where
  "cmpUint64 a b = (if a < b then -1 else if b < a then 1 else 0)"

definition cmpInt :: "int \<Rightarrow> int \<Rightarrow> int" where
  "cmpInt a b = (if a < b then -1 else if b < a then 1 else 0)"

definition isNumericIdentifier :: "string \<Rightarrow> bool" where
  "isNumericIdentifier s \<longleftrightarrow>
     s \<noteq> [] \<and> list_all is_digit s \<and> (length s = 1 \<or> hd s \<noteq> CHR ''0'')"

definition compareIdentifier :: "string \<Rightarrow> string \<Rightarrow> int" where
  "compareIdentifier a b =
     (let an = isNumericIdentifier a; bn = isNumericIdentifier b
      in if an \<and> bn then
           (if length a \<noteq> length b then cmpInt (int (length a)) (int (length b))
            else strings_Compare a b)
         else if an then -1
         else if bn then 1
         else strings_Compare a b)"

interpretation cmp_uint64: three_way cmpUint64 "\<lambda>_. True"
  by unfold_locales (auto simp: cmpUint64_def split: if_splits)

interpretation cmp_string: three_way strings_Compare "\<lambda>_. True"
  by unfold_locales (auto simp: strings_Compare_def split: if_splits)

lemma compareIdentifier_cases:
  "compareIdentifier a b = -1 \<longleftrightarrow>
     (if isNumericIdentifier a \<and> isNumericIdentifier b
      then length a < length b \<or> length a = length b \<and> a < b
      else isNumericIdentifier a \<or> \<not> isNumericIdentifier b \<and> a < b)"
  by (auto simp: compareIdentifier_def cmpInt_def strings_Compare_def Let_def)

interpretation cmp_ident: three_way compareIdentifier "\<lambda>_. True"
proof
  fix a b c :: string
  show "compareIdentifier a b = -1 \<or> compareIdentifier a b = 0 \<or> compareIdentifier a b = 1"
    by (auto simp: compareIdentifier_def cmpInt_def strings_Compare_def Let_def)
  show "compareIdentifier b a = - compareIdentifier a b"
    by (auto simp: compareIdentifier_def cmpInt_def strings_Compare_def Let_def)
  show "compareIdentifier a a = 0"
    by (simp add: compareIdentifier_def strings_Compare_def Let_def)
  show "compareIdentifier a b = 0 \<Longrightarrow> a = b"
    by (auto simp: compareIdentifier_def cmpInt_def strings_Compare_def Let_def split: if_splits)
  assume "compareIdentifier a b < 0" "compareIdentifier b c < 0"
  moreover have neg: "compareIdentifier x y < 0 \<longleftrightarrow> compareIdentifier x y = -1" for x y
    by (auto simp: compareIdentifier_def cmpInt_def strings_Compare_def Let_def)
  ultimately show "compareIdentifier a c < 0"
    unfolding neg compareIdentifier_cases by (auto split: if_splits)
qed

section \<open>Parsing\<close>

record semver =
  sv_major :: uint64
  sv_minor :: uint64
  sv_patch :: uint64
  sv_pre :: string
  sv_hasPre :: bool

definition nextIdentifier :: "string \<Rightarrow> string \<times> string" where
  "nextIdentifier s =
     (case strings_IndexByte s (CHR ''.'') of
        Some i \<Rightarrow> (take i s, drop (Suc i) s)
      | None \<Rightarrow> (s, []))"

lemma nextIdentifier_shorter: "s \<noteq> [] \<Longrightarrow> length (snd (nextIdentifier s)) < length s"
  by (auto simp: nextIdentifier_def split: option.splits dest: strings_IndexByte_Some)

definition ident_char :: "char \<Rightarrow> bool" where
  "ident_char c \<longleftrightarrow> is_digit c \<or> is_upper c \<or> is_lower c \<or> c = CHR ''-''"

text \<open>The loop of \<^verbatim>\<open>validDotIdentifiers\<close>, after its test for the empty string.\<close>

function dot_identifiers :: "string \<Rightarrow> bool \<Rightarrow> bool" where
  "dot_identifiers s numericStrict =
     (let id = fst (nextIdentifier s); rest = snd (nextIdentifier s)
      in if id = [] then False
         else if \<not> list_all ident_char id then False
         else if numericStrict \<and> list_all is_digit id \<and> \<not> isNumericIdentifier id then False
         else if strings_IndexByte s (CHR ''.'') = None then True
         else dot_identifiers rest numericStrict)"
  by pat_completeness auto
termination
  by (relation "measure (\<lambda>(s, _). length s)")
    (auto simp: nextIdentifier_def dest: strings_IndexByte_Some split: option.splits)

declare dot_identifiers.simps [simp del]

definition validDotIdentifiers :: "string \<Rightarrow> bool \<Rightarrow> bool" where
  "validDotIdentifiers s numericStrict = (s \<noteq> [] \<and> dot_identifiers s numericStrict)"

text \<open>
  \<^verbatim>\<open>takeNumericField\<close>: \<^const>\<open>None\<close> as the separator is the source's 0, the field is then the
  whole remainder. \<^const>\<open>None\<close> as the result is \<^verbatim>\<open>ok=false\<close>.
\<close>

definition takeNumericField :: "string \<Rightarrow> char option \<Rightarrow> (uint64 \<times> string) option" where
  "takeNumericField s sep =
     (case (case sep of
              None \<Rightarrow> Some (s, [])
            | Some c \<Rightarrow>
                (case strings_IndexByte s c of
                   None \<Rightarrow> None
                 | Some i \<Rightarrow> Some (take i s, drop (Suc i) s))) of
        None \<Rightarrow> None
      | Some (field, rest) \<Rightarrow>
          if \<not> isNumericIdentifier field then None
          else case strconv_ParseUint64 field of
                 None \<Rightarrow> None
               | Some n \<Rightarrow> Some (n, rest))"

text \<open>The core triple, after the build metadata and the prerelease have been cut off.\<close>

definition parse_triple :: "string \<Rightarrow> string \<Rightarrow> bool \<Rightarrow> semver option" where
  "parse_triple s pre hasPre =
     (case takeNumericField s (Some (CHR ''.'')) of
        None \<Rightarrow> None
      | Some (major, s) \<Rightarrow>
          (case takeNumericField s (Some (CHR ''.'')) of
             None \<Rightarrow> None
           | Some (minor, s) \<Rightarrow>
               (case takeNumericField s None of
                  None \<Rightarrow> None
                | Some (patch, _) \<Rightarrow>
                    Some \<lparr>sv_major = major, sv_minor = minor, sv_patch = patch,
                          sv_pre = pre, sv_hasPre = hasPre\<rparr>)))"

definition parse_prerelease :: "string \<Rightarrow> semver option" where
  "parse_prerelease s =
     (case strings_IndexByte s (CHR ''-'') of
        None \<Rightarrow> parse_triple s [] False
      | Some i \<Rightarrow>
          (let pre = drop (Suc i) s
           in if \<not> validDotIdentifiers pre True then None
              else parse_triple (take i s) pre True))"

definition parseSemver :: "string \<Rightarrow> semver option" where
  "parseSemver s =
     (if s = [] then None
      else case strings_IndexByte s (CHR ''+'') of
             None \<Rightarrow> parse_prerelease s
           | Some i \<Rightarrow>
               if \<not> validDotIdentifiers (drop (Suc i) s) False then None
               else parse_prerelease (take i s))"

section \<open>Precedence\<close>

function comparePrerelease :: "string \<Rightarrow> string \<Rightarrow> int" where
  "comparePrerelease x y =
     (if x = [] \<and> y = [] then 0
      else if x = [] then -1
      else if y = [] then 1
      else (let c = compareIdentifier (fst (nextIdentifier x)) (fst (nextIdentifier y))
            in if c \<noteq> 0 then c
               else comparePrerelease (snd (nextIdentifier x)) (snd (nextIdentifier y))))"
  by pat_completeness auto
termination
  by (relation "measure (\<lambda>(x, _). length x)") (auto simp: nextIdentifier_shorter)

declare comparePrerelease.simps [simp del]

definition semver_compare :: "semver \<Rightarrow> semver \<Rightarrow> int" where
  "semver_compare a b =
     (if cmpUint64 (sv_major a) (sv_major b) \<noteq> 0 then cmpUint64 (sv_major a) (sv_major b)
      else if cmpUint64 (sv_minor a) (sv_minor b) \<noteq> 0 then cmpUint64 (sv_minor a) (sv_minor b)
      else if cmpUint64 (sv_patch a) (sv_patch b) \<noteq> 0 then cmpUint64 (sv_patch a) (sv_patch b)
      else if \<not> sv_hasPre a \<and> \<not> sv_hasPre b then 0
      else if \<not> sv_hasPre a then 1
      else if \<not> sv_hasPre b then -1
      else comparePrerelease (sv_pre a) (sv_pre b))"


section \<open>The prerelease comparison is lexicographic on identifiers\<close>

function idents :: "string \<Rightarrow> string list" where
  "idents s = (if s = [] then [] else fst (nextIdentifier s) # idents (snd (nextIdentifier s)))"
  by pat_completeness auto
termination
  by (relation "measure length") (auto simp: nextIdentifier_shorter)

declare idents.simps [simp del]

lemma idents_Nil [simp]: "idents [] = []"
  by (simp add: idents.simps)

lemma idents_Cons:
  "s \<noteq> [] \<Longrightarrow> idents s = fst (nextIdentifier s) # idents (snd (nextIdentifier s))"
  by (simp add: idents.simps [of s])

lemma comparePrerelease_lex3:
  "comparePrerelease x y = lex3 compareIdentifier (idents x) (idents y)"
proof (induction x y rule: comparePrerelease.induct)
  case (1 x y)
  show ?case
  proof (cases "x = [] \<or> y = []")
    case True
    then show ?thesis
      by (auto simp: comparePrerelease.simps [of x y] idents_Cons)
  next
    case False
    then show ?thesis
      using 1 by (simp add: comparePrerelease.simps [of x y] idents.simps [of x]
          idents.simps [of y] Let_def)
  qed
qed

fun dot_join :: "string list \<Rightarrow> string" where
  "dot_join [] = []"
| "dot_join [i] = i"
| "dot_join (i # is) = i @ CHR ''.'' # dot_join is"

lemma dot_join_Cons: "is \<noteq> [] \<Longrightarrow> dot_join (i # is) = i @ CHR ''.'' # dot_join is"
  by (cases "is") auto

lemma dot_identifiers_step:
  assumes "dot_identifiers s b"
  obtains (last) "CHR ''.'' \<notin> set s" "s \<noteq> []" "list_all ident_char s"
      "fst (nextIdentifier s) = s" "snd (nextIdentifier s) = []"
  | (more) i r where "s = i @ CHR ''.'' # r" "nextIdentifier s = (i, r)" "list_all ident_char i"
      "dot_identifiers r b"
proof (cases "strings_IndexByte s (CHR ''.'')")
  case None
  have next_s: "nextIdentifier s = (s, [])"
    using None by (simp add: nextIdentifier_def)
  moreover have "CHR ''.'' \<notin> set s"
    using None by (simp add: strings_IndexByte_None)
  moreover have "s \<noteq> []" "list_all ident_char s"
    using assms by (simp_all add: dot_identifiers.simps [of s] next_s Let_def split: if_splits)
  ultimately show ?thesis by (intro last) simp_all
next
  case (Some k)
  then have next_s: "nextIdentifier s = (take k s, drop (Suc k) s)"
    by (simp add: nextIdentifier_def)
  have "s = take k s @ CHR ''.'' # drop (Suc k) s"
    using strings_IndexByte_Some [OF Some] by blast
  moreover have "list_all ident_char (take k s)" "dot_identifiers (drop (Suc k) s) b"
    using assms
    by (simp_all add: dot_identifiers.simps [of s] next_s Some Let_def split: if_splits)
  ultimately show ?thesis using next_s by (intro more)
qed

lemma dot_identifiers_nonempty: "dot_identifiers s b \<Longrightarrow> s \<noteq> []"
  by (erule dot_identifiers_step) auto

lemma dot_identifiers_chars:
  "dot_identifiers s b \<Longrightarrow> c \<in> set s \<Longrightarrow> ident_char c \<or> c = CHR ''.''"
proof (induction s arbitrary: c rule: measure_induct_rule [where f = length])
  case (less s)
  from less.prems(1) show ?case
  proof (cases rule: dot_identifiers_step)
    case last
    then show ?thesis using less.prems(2) by (auto simp: list_all_iff)
  next
    case (more i r)
    moreover have "c \<in> set r \<Longrightarrow> ident_char c \<or> c = CHR ''.''"
      using less.IH [of r c] more(1,4) by simp
    ultimately show ?thesis using less.prems(2) by (auto simp: list_all_iff)
  qed
qed

lemma dot_join_idents: "dot_identifiers s b \<Longrightarrow> dot_join (idents s) = s"
proof (induction s rule: measure_induct_rule [where f = length])
  case (less s)
  from less.prems show ?case
  proof (cases rule: dot_identifiers_step)
    case last
    then show ?thesis by (simp add: idents_Cons)
  next
    case (more i r)
    then have "dot_join (idents r) = r"
      using less.IH [of r] by simp
    moreover have "idents r \<noteq> []"
      using more(4) dot_identifiers_nonempty [of r b] by (simp add: idents_Cons)
    moreover have "idents s = i # idents r"
      using idents_Cons [of s] more(1) unfolding more(2) by simp
    ultimately show ?thesis using more(1) by (simp add: dot_join_Cons)
  qed
qed

lemma idents_inj:
  "dot_identifiers x b \<Longrightarrow> dot_identifiers y b \<Longrightarrow> idents x = idents y \<Longrightarrow> x = y"
  by (metis dot_join_idents)

section \<open>Versions are totally ordered\<close>

text \<open>What the parser guarantees of a version: the prerelease is a valid identifier list.\<close>

definition semver_ok :: "semver \<Rightarrow> bool" where
  "semver_ok v \<longleftrightarrow>
     (if sv_hasPre v then validDotIdentifiers (sv_pre v) True else sv_pre v = [])"

lemma parse_triple_ok:
  "parse_triple s pre hasPre = Some v \<Longrightarrow> sv_pre v = pre \<and> sv_hasPre v = hasPre"
  by (auto simp: parse_triple_def split: option.splits)

lemma parse_prerelease_ok: "parse_prerelease s = Some v \<Longrightarrow> semver_ok v"
  by (auto simp: parse_prerelease_def semver_ok_def Let_def
      dest!: parse_triple_ok split: option.splits if_splits)

lemma parseSemver_semver_ok: "parseSemver s = Some v \<Longrightarrow> semver_ok v"
  by (auto simp: parseSemver_def intro: parse_prerelease_ok split: option.splits if_splits)

interpretation cmp_idents: three_way "lex3 compareIdentifier" "list_all (\<lambda>_. True)"
  by (rule cmp_ident.three_way_lex3)

lemma list_all_True [simp]: "list_all (\<lambda>_. True) xs"
  by (simp add: list_all_iff)

lemma cmpUint64_simps [simp]:
  "cmpUint64 a b = 0 \<longleftrightarrow> a = b" "cmpUint64 a b < 0 \<longleftrightarrow> a < b" "cmpUint64 a a = 0"
  by (auto simp: cmpUint64_def)

lemma semver_compare_neg:
  "semver_compare a b < 0 \<longleftrightarrow>
     sv_major a < sv_major b \<or> sv_major a = sv_major b \<and>
     (sv_minor a < sv_minor b \<or> sv_minor a = sv_minor b \<and>
      (sv_patch a < sv_patch b \<or> sv_patch a = sv_patch b \<and> sv_hasPre a \<and>
       (sv_hasPre b \<longrightarrow> comparePrerelease (sv_pre a) (sv_pre b) < 0)))"
  by (auto simp: semver_compare_def)

interpretation cmp_semver: three_way semver_compare semver_ok
proof
  fix a b c :: semver
  show "semver_compare a b = -1 \<or> semver_compare a b = 0 \<or> semver_compare a b = 1"
    using cmp_uint64.cmp_range [of "sv_major a" "sv_major b"]
      cmp_uint64.cmp_range [of "sv_minor a" "sv_minor b"]
      cmp_uint64.cmp_range [of "sv_patch a" "sv_patch b"]
      cmp_idents.cmp_range [of "idents (sv_pre a)" "idents (sv_pre b)"]
    unfolding semver_compare_def comparePrerelease_lex3 by presburger
  have sw: "cmpUint64 y x = - cmpUint64 x y" for x y by (rule cmp_uint64.cmp_swap)
  show "semver_compare b a = - semver_compare a b"
    using cmp_idents.cmp_swap [of "idents (sv_pre b)" "idents (sv_pre a)"]
    unfolding semver_compare_def comparePrerelease_lex3
      sw [of "sv_major a"] sw [of "sv_minor a"] sw [of "sv_patch a"]
    by auto
  show "semver_compare a a = 0"
    by (simp add: semver_compare_def comparePrerelease_lex3 cmp_idents.cmp_refl)
  show "semver_compare a b = 0 \<Longrightarrow> semver_ok a \<Longrightarrow> semver_ok b \<Longrightarrow> a = b"
  proof -
    assume z: "semver_compare a b = 0" and ok: "semver_ok a" "semver_ok b"
    have "sv_major a = sv_major b" "sv_minor a = sv_minor b" "sv_patch a = sv_patch b"
      "sv_hasPre a = sv_hasPre b"
      using z by (auto simp: semver_compare_def split: if_splits)
    moreover have "sv_pre a = sv_pre b"
    proof (cases "sv_hasPre a")
      case True
      with z have "lex3 compareIdentifier (idents (sv_pre a)) (idents (sv_pre b)) = 0"
        by (auto simp: semver_compare_def comparePrerelease_lex3 split: if_splits)
      then have "idents (sv_pre a) = idents (sv_pre b)"
        using cmp_idents.cmp_zero by simp
      then show ?thesis
        using ok True \<open>sv_hasPre a = sv_hasPre b\<close> idents_inj
        by (auto simp: semver_ok_def validDotIdentifiers_def)
    next
      case False
      then show ?thesis using ok \<open>sv_hasPre a = sv_hasPre b\<close> by (simp add: semver_ok_def)
    qed
    ultimately show "a = b" by simp
  qed
  show "semver_compare a b < 0 \<Longrightarrow> semver_compare b c < 0 \<Longrightarrow> semver_compare a c < 0"
    using cmp_idents.cmp_less_trans
      [of "idents (sv_pre a)" "idents (sv_pre b)" "idents (sv_pre c)"]
    unfolding semver_compare_neg comparePrerelease_lex3 by auto
qed

section \<open>Rendering and parsing\<close>

text \<open>The text of a version: what \<^verbatim>\<open>parseSemver\<close> accepts, less the build metadata.\<close>

definition semver_render :: "semver \<Rightarrow> string" where
  "semver_render v =
     format_nat (unat (sv_major v)) @ CHR ''.'' #
     format_nat (unat (sv_minor v)) @ CHR ''.'' #
     format_nat (unat (sv_patch v)) @
     (if sv_hasPre v then CHR ''-'' # sv_pre v else [])"

lemma format_nat_lead: "0 < n \<Longrightarrow> hd (format_nat n) \<noteq> CHR ''0''"
proof (induction n rule: format_nat.induct)
  case (1 n)
  show ?case
  proof (cases "n < 10")
    case True
    then show ?thesis using "1.prems" digit_char_neq_0 [of n] by (simp add: format_nat_small)
  next
    case False
    then show ?thesis using 1 by (simp add: format_nat_big)
  qed
qed

lemma isNumericIdentifier_format_nat [simp]: "isNumericIdentifier (format_nat n)"
proof (cases "n = 0")
  case True
  then show ?thesis
    by (simp add: isNumericIdentifier_def format_nat_small is_digit_def)
next
  case False
  then show ?thesis
    by (auto simp: isNumericIdentifier_def list_all_iff format_nat_lead intro: format_nat_digits)
qed

text \<open>A numeric identifier is the decimal rendering of its value.\<close>

lemma digit_char: "is_digit c \<Longrightarrow> ''0123456789'' ! (byte c - 48) = c"
proof -
  assume "is_digit c"
  then have "byte c - 48 < 10" "48 \<le> byte c" by (auto simp: is_digit_def)
  then have "byte (''0123456789'' ! (byte c - 48)) = byte c" by (simp add: nth_digits)
  then show ?thesis by simp
qed

lemma digits_val_pos:
  "s \<noteq> [] \<Longrightarrow> list_all is_digit s \<Longrightarrow> hd s \<noteq> CHR ''0'' \<Longrightarrow> 0 < digits_val s"
proof (induction s rule: rev_induct)
  case Nil
  then show ?case by simp
next
  case (snoc c s)
  show ?case
  proof (cases "s = []")
    case True
    have c: "is_digit c" "c \<noteq> CHR ''0''" using snoc.prems True by auto
    have "byte c \<noteq> 48"
    proof
      assume "byte c = 48"
      then have "c = CHR ''0''" using digit_char [OF c(1)] by simp
      then show False using c(2) by simp
    qed
    then show ?thesis using c(1) True by (simp add: digits_val_def is_digit_def)
  next
    case False
    then show ?thesis using snoc by (simp add: digits_val_snoc)
  qed
qed

lemma format_nat_digits_val:
  "isNumericIdentifier s \<Longrightarrow> format_nat (digits_val s) = s"
proof (induction s rule: rev_induct)
  case Nil
  then show ?case by (simp add: isNumericIdentifier_def)
next
  case (snoc c s)
  then have c: "is_digit c" and lt: "byte c - 48 < 10"
    by (auto simp: isNumericIdentifier_def is_digit_def)
  show ?case
  proof (cases "s = []")
    case True
    then show ?thesis
      using lt by (simp add: digits_val_def digit_char c format_nat_small)
  next
    case False
    with snoc.prems have num: "list_all is_digit s" "hd s \<noteq> CHR ''0''"
      by (auto simp: isNumericIdentifier_def)
    with False have pos: "0 < digits_val s" using digits_val_pos by blast
    have "isNumericIdentifier s" using False num by (simp add: isNumericIdentifier_def)
    then have "format_nat (digits_val s) = s" by (rule snoc.IH)
    moreover have "(10 * digits_val s + (byte c - 48)) div 10 = digits_val s"
      "(10 * digits_val s + (byte c - 48)) mod 10 = byte c - 48"
      using lt by simp_all
    ultimately show ?thesis
      using pos by (simp add: digits_val_snoc digit_char c format_nat_big)
  qed
qed

lemma format_nat_no_sep:
  "c \<in> {CHR ''.'', CHR ''-'', CHR ''+'', CHR '':''} \<Longrightarrow> c \<notin> set (format_nat n)"
  using format_nat_digits [of c n] by auto

lemma ParseUint64_format_nat [simp]:
  "strconv_ParseUint64 (format_nat (unat (n :: uint64))) = Some n"
  using unsigned_less [of n] by (simp add: strconv_ParseUint64_def)

lemma takeNumericField_format:
  "takeNumericField (format_nat (unat n) @ CHR ''.'' # r) (Some (CHR ''.'')) = Some (n, r)"
  by (simp add: takeNumericField_def strings_IndexByte_append format_nat_no_sep)

lemma takeNumericField_format_last: "takeNumericField (format_nat (unat n)) None = Some (n, [])"
  by (simp add: takeNumericField_def)

lemma ParseUint64_SomeD:
  assumes "strconv_ParseUint64 f = Some n" and "isNumericIdentifier f"
  shows "f = format_nat (unat n)"
proof -
  have "parse_digits f = Some (digits_val f)"
    using assms(2) by (simp add: parse_digits_def isNumericIdentifier_def)
  with assms(1) have "digits_val f < 2 ^ 64" "n = of_nat (digits_val f)"
    by (auto simp: strconv_ParseUint64_def split: if_splits)
  then have "unat n = digits_val f" by (simp add: unat_of_nat)
  then show ?thesis using format_nat_digits_val [OF assms(2)] by simp
qed

lemma takeNumericField_SomeD:
  "takeNumericField s (Some c) = Some (n, r) \<Longrightarrow> s = format_nat (unat n) @ c # r"
  by (auto simp: takeNumericField_def dest!: ParseUint64_SomeD strings_IndexByte_Some
      split: option.splits if_splits)

lemma takeNumericField_last_SomeD:
  "takeNumericField s None = Some (n, r) \<Longrightarrow> s = format_nat (unat n)"
  by (auto simp: takeNumericField_def dest!: ParseUint64_SomeD split: option.splits if_splits)

text \<open>The three fields together are exactly the rendering of the triple.\<close>

definition render_triple :: "semver \<Rightarrow> string" where
  "render_triple v =
     format_nat (unat (sv_major v)) @ CHR ''.'' #
     format_nat (unat (sv_minor v)) @ CHR ''.'' # format_nat (unat (sv_patch v))"

lemma parse_triple_render:
  "parse_triple (render_triple v) (sv_pre v) (sv_hasPre v) = Some v"
  by (simp add: parse_triple_def render_triple_def takeNumericField_format
      takeNumericField_format_last)

lemma parse_triple_SomeD:
  "parse_triple s pre hasPre = Some v \<Longrightarrow>
     s = render_triple v \<and> sv_pre v = pre \<and> sv_hasPre v = hasPre"
  by (auto simp: parse_triple_def render_triple_def dest!: takeNumericField_SomeD
      takeNumericField_last_SomeD split: option.splits)

lemma render_triple_no_sep:
  "c \<in> {CHR ''-'', CHR ''+''} \<Longrightarrow> c \<notin> set (render_triple v)"
  using format_nat_no_sep [of c] by (auto simp: render_triple_def)

lemma semver_render_split:
  "semver_render v = render_triple v @ (if sv_hasPre v then CHR ''-'' # sv_pre v else [])"
  by (simp add: semver_render_def render_triple_def)

lemma valid_no_plus:
  assumes "validDotIdentifiers s b"
  shows "CHR ''+'' \<notin> set s"
proof
  assume "CHR ''+'' \<in> set s"
  then have "ident_char (CHR ''+'')"
    using assms dot_identifiers_chars [of s b "CHR ''+''"] by (simp add: validDotIdentifiers_def)
  then show False by (simp add: ident_char_def is_digit_def is_upper_def is_lower_def)
qed

lemma semver_render_no_plus: "semver_ok v \<Longrightarrow> CHR ''+'' \<notin> set (semver_render v)"
  using render_triple_no_sep [of "CHR ''+''" v] valid_no_plus [of "sv_pre v" True]
  by (auto simp: semver_render_split semver_ok_def split: if_splits)

lemma parse_prerelease_render: "semver_ok v \<Longrightarrow> parse_prerelease (semver_render v) = Some v"
proof (cases "sv_hasPre v")
  case True
  assume "semver_ok v"
  with True show ?thesis
    using parse_triple_render [of v] render_triple_no_sep [of "CHR ''-''" v]
    by (simp add: parse_prerelease_def semver_render_split strings_IndexByte_append semver_ok_def
        Let_def)
next
  case False
  assume "semver_ok v"
  moreover have "strings_IndexByte (render_triple v) (CHR ''-'') = None"
    using render_triple_no_sep [of "CHR ''-''" v] by (simp add: strings_IndexByte_None)
  ultimately show ?thesis
    using False parse_triple_render [of v]
    by (simp add: parse_prerelease_def semver_render_split semver_ok_def)
qed

lemma parse_prerelease_SomeD: "parse_prerelease s = Some v \<Longrightarrow> s = semver_render v"
  by (auto simp: parse_prerelease_def semver_render_split Let_def
      dest!: parse_triple_SomeD strings_IndexByte_Some split: option.splits if_splits)

lemma semver_render_nonempty [simp]: "semver_render v \<noteq> []"
  by (simp add: semver_render_def)

section \<open>Properties\<close>

text \<open>C6. The comparison behind the semver operators is a total order on parsed versions:
  swapping the arguments negates it, it is 0 exactly on equal versions (build metadata is not
  part of a parsed version), and it is transitive.\<close>

theorem semver_compare_total_order:
  assumes "parseSemver s = Some a" and "parseSemver t = Some b" and "parseSemver u = Some c"
  shows "semver_compare b a = - semver_compare a b \<and>
    (semver_compare a b = 0 \<longleftrightarrow> a = b) \<and>
    (semver_compare a b \<le> 0 \<and> semver_compare b c \<le> 0 \<longrightarrow> semver_compare a c \<le> 0)"
proof -
  have ok: "semver_ok a" "semver_ok b" "semver_ok c"
    using assms by (auto intro: parseSemver_semver_ok)
  then show ?thesis
    using cmp_semver.cmp_swap [of b a] cmp_semver.cmp_zero_iff [OF ok(1,2)]
      cmp_semver.cmp_le_trans [OF ok] by simp
qed

text \<open>C7. The parser accepts exactly the renderings of well-formed versions, alone or followed
  by \<^verbatim>\<open>+\<close> and valid build metadata, and returns the version rendered: it is strict (no \<^verbatim>\<open>v\<close>
  prefix, no missing component, no leading zero, no overflow) and drops the build metadata.\<close>

theorem parseSemver_exact:
  "parseSemver s = Some v \<longleftrightarrow>
     semver_ok v \<and>
     (s = semver_render v \<or>
      (\<exists>build. validDotIdentifiers build False \<and> s = semver_render v @ CHR ''+'' # build))"
  (is "?lhs \<longleftrightarrow> ?rhs")
proof
  assume ?lhs
  then have "semver_ok v" by (rule parseSemver_semver_ok)
  moreover from \<open>?lhs\<close>
  have "s = semver_render v \<or>
      (\<exists>build. validDotIdentifiers build False \<and> s = semver_render v @ CHR ''+'' # build)"
    by (auto simp: parseSemver_def dest!: parse_prerelease_SomeD strings_IndexByte_Some
        split: option.splits if_splits)
  ultimately show ?rhs by blast
next
  assume ?rhs
  then consider "semver_ok v" "s = semver_render v"
    | build where "semver_ok v" "validDotIdentifiers build False"
        "s = semver_render v @ CHR ''+'' # build" by blast
  then show ?lhs
  proof cases
    case 1
    then have "strings_IndexByte s (CHR ''+'') = None"
      using semver_render_no_plus [of v] by (simp add: strings_IndexByte_None)
    then show ?thesis using 1 by (simp add: parseSemver_def parse_prerelease_render)
  next
    case 2
    then show ?thesis
      using semver_render_no_plus [of v]
      by (simp add: parseSemver_def strings_IndexByte_append parse_prerelease_render)
  qed
qed

text \<open>What a concrete version is parsed with.\<close>

lemmas semver_eval = parseSemver_def parse_prerelease_def parse_triple_def takeNumericField_def
  isNumericIdentifier_def strconv_ParseUint64_def parse_digits_def digits_val_def is_digit_def
  is_upper_def is_lower_def ident_char_def validDotIdentifiers_def dot_identifiers.simps
  nextIdentifier_def

theorem semver_compare_total_order_witness:
  "\<exists>a b c. parseSemver ''1.0.0-alpha.9'' = Some a \<and> parseSemver ''1.0.0-alpha.10'' = Some b \<and>
     parseSemver ''1.0.0+build'' = Some c \<and> semver_compare a b \<le> 0 \<and> semver_compare b c \<le> 0 \<and>
     semver_compare a c \<le> 0 \<and> semver_compare b a = - semver_compare a b"
proof -
  let ?a = "\<lparr>sv_major = 1, sv_minor = 0, sv_patch = 0, sv_pre = ''alpha.9'', sv_hasPre = True\<rparr>"
  let ?b = "\<lparr>sv_major = 1, sv_minor = 0, sv_patch = 0, sv_pre = ''alpha.10'', sv_hasPre = True\<rparr>"
  let ?c = "\<lparr>sv_major = 1, sv_minor = 0, sv_patch = 0, sv_pre = [], sv_hasPre = False\<rparr>"
  have p: "parseSemver ''1.0.0-alpha.9'' = Some ?a" "parseSemver ''1.0.0-alpha.10'' = Some ?b"
    "parseSemver ''1.0.0+build'' = Some ?c"
    by (simp_all add: semver_eval)
  have le: "semver_compare ?a ?b \<le> 0" "semver_compare ?b ?c \<le> 0" by code_simp+
  note total = semver_compare_total_order [OF p]
  have "semver_compare ?a ?c \<le> 0" using total le by (elim conjE) (erule mp, intro conjI)
  moreover have "semver_compare ?b ?a = - semver_compare ?a ?b" using total by (rule conjunct1)
  ultimately show ?thesis
    using p le by - (intro exI [of _ ?a] exI [of _ ?b] exI [of _ ?c] conjI)
qed

end
