(* ===== verification/Core_Matcher.thy ===== *)
theory Core_Matcher
  imports Core_Value Core_Semver
begin

text \<open>
  The condition and rule matcher of \<^verbatim>\<open>internal/core/matcher.go\<close>: one raw comparison with its
  three-valued outcome, negation applied to decided outcomes only, and the two combiners with
  their short circuits. The observer hook is a parameter: a call that panics is its result
  \<^const>\<open>False\<close>, and the calls made are returned in order next to the result.
\<close>

section \<open>Outcomes\<close>

datatype Tri = TriFalse | TriTrue | TriAbsent | TriBadType | TriBadValue | TriBadOp

fun Tri_String :: "Tri \<Rightarrow> string" where
  "Tri_String TriFalse = ''false''"
| "Tri_String TriTrue = ''true''"
| "Tri_String TriAbsent = ''absent''"
| "Tri_String TriBadType = ''bad_type''"
| "Tri_String TriBadValue = ''bad_value''"
| "Tri_String TriBadOp = ''bad_op''"

definition Decided :: "Tri \<Rightarrow> bool" where
  "Decided t \<longleftrightarrow> t = TriTrue \<or> t = TriFalse"

definition Countable :: "Tri \<Rightarrow> bool" where
  "Countable t \<longleftrightarrow> t = TriBadType \<or> t = TriBadValue \<or> t = TriBadOp"

definition triOf :: "bool \<Rightarrow> Tri" where
  "triOf b = (if b then TriTrue else TriFalse)"

lemma triOf_simps [simp]:
  "triOf b = TriTrue \<longleftrightarrow> b" "triOf b = TriFalse \<longleftrightarrow> \<not> b" "Decided (triOf b)"
  "\<not> Countable (triOf b)" "triOf b \<noteq> TriBadType" "triOf b \<noteq> TriBadValue" "triOf b \<noteq> TriBadOp"
  "triOf b \<noteq> TriAbsent"
  by (simp_all add: triOf_def Decided_def Countable_def)

lemma Decided_simps [simp]:
  "Decided TriTrue" "Decided TriFalse" "\<not> Decided TriAbsent" "\<not> Decided TriBadType"
  "\<not> Decided TriBadValue" "\<not> Decided TriBadOp"
  by (simp_all add: Decided_def)

lemma Countable_simps [simp]:
  "Countable TriBadType" "Countable TriBadValue" "Countable TriBadOp"
  "\<not> Countable TriTrue" "\<not> Countable TriFalse" "\<not> Countable TriAbsent"
  by (simp_all add: Countable_def)

section \<open>Comparisons\<close>

definition operand :: "Value list \<Rightarrow> Value \<times> bool" where
  "operand vals = (case vals of [] \<Rightarrow> (VUnset, False) | v # _ \<Rightarrow> (v, True))"

definition matchEquals :: "Value \<Rightarrow> Value list \<Rightarrow> Tri" where
  "matchEquals v vals =
     (let (want, ok) = operand vals
      in if \<not> ok then TriBadOp
         else if Value_Type v \<noteq> Value_Type want then TriBadType
         else triOf (Value_Equal v want))"

text \<open>The loop of \<^verbatim>\<open>matchIn\<close>, with its flag \<^verbatim>\<open>sawComparable\<close>.\<close>

fun matchIn_loop :: "Value \<Rightarrow> Value list \<Rightarrow> bool \<Rightarrow> Tri" where
  "matchIn_loop v [] sawComparable = (if \<not> sawComparable then TriBadType else TriFalse)"
| "matchIn_loop v (w # ws) sawComparable =
     (if Value_Type w \<noteq> Value_Type v then matchIn_loop v ws sawComparable
      else if Value_Equal v w then TriTrue
      else matchIn_loop v ws True)"

definition matchIn :: "Value \<Rightarrow> Value list \<Rightarrow> Tri" where
  "matchIn v vals = (if vals = [] then TriFalse else matchIn_loop v vals False)"

definition matchContains :: "Value \<Rightarrow> Value list \<Rightarrow> Tri" where
  "matchContains v vals =
     (let (want, ok) = operand vals
      in if \<not> ok then TriBadOp
         else (let (s, sok) = AsString v; (sub, subok) = AsString want
               in if \<not> sok \<or> \<not> subok then TriBadType
                  else triOf (strings_Contains s sub)))"

definition matchOrdered :: "Operator \<Rightarrow> Value \<Rightarrow> Value list \<Rightarrow> Tri" where
  "matchOrdered op v vals =
     (let (want, ok) = operand vals
      in if \<not> ok then TriBadOp
         else (let (a, aok) = AsInt v; (b, bok) = AsInt want
               in if \<not> aok \<or> \<not> bok then TriBadType
                  else (case op of
                          OpGreaterThan \<Rightarrow> triOf (slt b a)
                        | OpGreaterOrEqual \<Rightarrow> triOf (sle b a)
                        | OpLessThan \<Rightarrow> triOf (slt a b)
                        | OpLessOrEqual \<Rightarrow> triOf (sle a b)
                        | _ \<Rightarrow> TriBadOp)))"

definition matchSemver :: "Operator \<Rightarrow> Value \<Rightarrow> Value list \<Rightarrow> Tri" where
  "matchSemver op v vals =
     (let (want, ok) = operand vals
      in if \<not> ok then TriBadOp
         else (let (as, aok) = AsString v; (bs, bok) = AsString want
               in if \<not> aok \<or> \<not> bok then TriBadType
                  else (case (parseSemver as, parseSemver bs) of
                          (Some av, Some bv) \<Rightarrow>
                            (let c = semver_compare av bv
                             in case op of
                                  OpSemverEqual \<Rightarrow> triOf (c = 0)
                                | OpSemverGreaterThan \<Rightarrow> triOf (c > 0)
                                | OpSemverLessThan \<Rightarrow> triOf (c < 0)
                                | _ \<Rightarrow> TriBadOp)
                        | _ \<Rightarrow> TriBadValue)))"

definition decideCondition :: "Condition \<Rightarrow> EvalContext \<Rightarrow> Tri" where
  "decideCondition c ctx =
     (let present = (Attribute ctx (cond_Attribute c) \<noteq> None)
      in if cond_Op c = OpExists then (if present then TriTrue else TriFalse)
         else (case Attribute ctx (cond_Attribute c) of
                 None \<Rightarrow> TriAbsent
               | Some v \<Rightarrow>
                   (case cond_Op c of
                      OpEquals \<Rightarrow> matchEquals v (cond_Values c)
                    | OpIn \<Rightarrow> matchIn v (cond_Values c)
                    | OpContains \<Rightarrow> matchContains v (cond_Values c)
                    | OpGreaterThan \<Rightarrow> matchOrdered OpGreaterThan v (cond_Values c)
                    | OpGreaterOrEqual \<Rightarrow> matchOrdered OpGreaterOrEqual v (cond_Values c)
                    | OpLessThan \<Rightarrow> matchOrdered OpLessThan v (cond_Values c)
                    | OpLessOrEqual \<Rightarrow> matchOrdered OpLessOrEqual v (cond_Values c)
                    | OpSemverEqual \<Rightarrow> matchSemver OpSemverEqual v (cond_Values c)
                    | OpSemverGreaterThan \<Rightarrow> matchSemver OpSemverGreaterThan v (cond_Values c)
                    | OpSemverLessThan \<Rightarrow> matchSemver OpSemverLessThan v (cond_Values c)
                    | _ \<Rightarrow> TriBadOp)))"

text \<open>A nil condition pointer is \<^const>\<open>None\<close>.\<close>

definition MatchCondition :: "Condition option \<Rightarrow> EvalContext \<Rightarrow> bool \<times> Tri" where
  "MatchCondition c ctx =
     (case c of
        None \<Rightarrow> (False, TriBadOp)
      | Some c \<Rightarrow>
          (let outcome = decideCondition c ctx
           in case outcome of
                TriTrue \<Rightarrow> (\<not> cond_Negate c, outcome)
              | TriFalse \<Rightarrow> (cond_Negate c, outcome)
              | _ \<Rightarrow> (False, outcome)))"

section \<open>Rules\<close>

type_synonym observation = "string \<times> string \<times> string \<times> Tri"
type_synonym observer = "(string \<Rightarrow> string \<Rightarrow> string \<Rightarrow> Tri \<Rightarrow> bool) option"

definition observe :: "observer \<Rightarrow> string \<Rightarrow> string \<Rightarrow> string \<Rightarrow> Tri \<Rightarrow> bool \<times> observation list" where
  "observe obs flagKey ruleID attribute outcome =
     (case obs of
        None \<Rightarrow> (True, [])
      | Some f \<Rightarrow>
          if \<not> Countable outcome then (True, [])
          else (f flagKey ruleID attribute outcome, [(flagKey, ruleID, attribute, outcome)]))"

fun match_any :: "observer \<Rightarrow> string \<Rightarrow> string \<Rightarrow> EvalContext \<Rightarrow> Condition list \<Rightarrow>
    bool option \<times> observation list" where
  "match_any obs flagKey ruleID ctx [] = (Some False, [])"
| "match_any obs flagKey ruleID ctx (c # cs) =
     (let (matched, outcome) = MatchCondition (Some c) ctx;
          (returned, os) = observe obs flagKey ruleID (cond_Attribute c) outcome
      in if \<not> returned then (None, os)
         else if matched then (Some True, os)
         else (let (r, os') = match_any obs flagKey ruleID ctx cs in (r, os @ os')))"

fun match_all :: "observer \<Rightarrow> string \<Rightarrow> string \<Rightarrow> EvalContext \<Rightarrow> Condition list \<Rightarrow>
    bool option \<times> observation list" where
  "match_all obs flagKey ruleID ctx [] = (Some True, [])"
| "match_all obs flagKey ruleID ctx (c # cs) =
     (let (matched, outcome) = MatchCondition (Some c) ctx;
          (returned, os) = observe obs flagKey ruleID (cond_Attribute c) outcome
      in if \<not> returned then (None, os)
         else if \<not> matched then (Some False, os)
         else (let (r, os') = match_all obs flagKey ruleID ctx cs in (r, os @ os')))"

text \<open>The first component is \<^const>\<open>None\<close> when the observer panicked inside the rule.\<close>

definition MatchRule :: "string \<Rightarrow> Rule option \<Rightarrow> EvalContext \<Rightarrow> observer \<Rightarrow>
    bool option \<times> observation list" where
  "MatchRule flagKey r ctx obs =
     (case r of
        None \<Rightarrow> (Some False, [])
      | Some r \<Rightarrow>
          if rule_Combiner r = LogicOr
          then match_any obs flagKey (rule_ID r) ctx (rule_Conditions r)
          else match_all obs flagKey (rule_ID r) ctx (rule_Conditions r))"

section \<open>Facts about one condition\<close>

text \<open>The two halves of \<^const>\<open>MatchCondition\<close> on a condition that is there.\<close>

definition cond_matches :: "Condition \<Rightarrow> EvalContext \<Rightarrow> bool" where
  "cond_matches c ctx \<longleftrightarrow> fst (MatchCondition (Some c) ctx)"

lemma MatchCondition_eq:
  "MatchCondition (Some c) ctx =
     (Decided (decideCondition c ctx) \<and> (decideCondition c ctx = TriTrue) \<noteq> cond_Negate c,
      decideCondition c ctx)"
  by (auto simp: MatchCondition_def Let_def Decided_def split: Tri.splits)

lemma cond_matches_iff:
  "cond_matches c ctx \<longleftrightarrow>
     Decided (decideCondition c ctx) \<and> (decideCondition c ctx = TriTrue) \<noteq> cond_Negate c"
  by (simp add: cond_matches_def MatchCondition_eq)

lemma decideCondition_negate [simp]:
  "decideCondition (c\<lparr>cond_Negate := n\<rparr>) ctx = decideCondition c ctx"
  by (cases "Attribute ctx (cond_Attribute c)"; cases "cond_Op c")
    (simp_all add: decideCondition_def)

lemma decideCondition_absent:
  "Attribute ctx (cond_Attribute c) = None \<Longrightarrow> cond_Op c \<noteq> OpExists \<Longrightarrow>
     decideCondition c ctx = TriAbsent"
  by (simp add: decideCondition_def)

lemma matchIn_loop_eq:
  "matchIn_loop v ws saw =
     (if v \<in> set ws then TriTrue
      else if saw \<or> (\<exists>w \<in> set ws. Value_Type w = Value_Type v) then TriFalse
      else TriBadType)"
  by (induction v ws saw rule: matchIn_loop.induct) (auto simp: Value_Equal_iff)

lemma matchIn_eq:
  "matchIn v vals =
     (if v \<in> set vals then TriTrue
      else if vals = [] \<or> (\<exists>w \<in> set vals. Value_Type w = Value_Type v) then TriFalse
      else TriBadType)"
  by (simp add: matchIn_def matchIn_loop_eq)

lemma matchEquals_eq:
  "matchEquals v vals =
     (case vals of
        [] \<Rightarrow> TriBadOp
      | w # _ \<Rightarrow> if Value_Type v \<noteq> Value_Type w then TriBadType else triOf (v = w))"
  by (simp add: matchEquals_def operand_def Value_Equal_iff split: list.splits)

text \<open>
  No coercion: a comparison that is decided compared two values of one type, a boolean never
  orders, and a semver comparison is between strings.
\<close>

lemma matchOrdered_decided:
  "Decided (matchOrdered op v (w # ws)) \<Longrightarrow> Value_Type v = TypeInt \<and> Value_Type w = TypeInt"
  by (cases v; cases w) (auto simp: matchOrdered_def operand_def)

lemma matchContains_decided:
  "Decided (matchContains v (w # ws)) \<Longrightarrow> Value_Type v = TypeString \<and> Value_Type w = TypeString"
  by (cases v; cases w) (auto simp: matchContains_def operand_def)

lemma matchSemver_decided:
  "Decided (matchSemver op v (w # ws)) \<Longrightarrow> Value_Type v = TypeString \<and> Value_Type w = TypeString"
  by (cases v; cases w) (auto simp: matchSemver_def operand_def)

lemma matchEquals_decided: "Decided (matchEquals v (w # ws)) \<Longrightarrow> Value_Type v = Value_Type w"
  by (auto simp: matchEquals_eq split: if_splits)

section \<open>Facts about rules\<close>

definition well_behaved :: "observer \<Rightarrow> bool" where
  "well_behaved obs \<longleftrightarrow> (case obs of None \<Rightarrow> True | Some f \<Rightarrow> \<forall>k r a t. f k r a t)"

lemma observe_returns: "well_behaved obs \<Longrightarrow> fst (observe obs k r a t)"
  by (auto simp: well_behaved_def observe_def split: option.splits)

lemma observe_Countable: "\<not> Countable t \<Longrightarrow> observe obs k r a t = (True, [])"
  by (auto simp: observe_def split: option.splits)

lemma match_any_result:
  "well_behaved obs \<Longrightarrow>
     fst (match_any obs k r ctx cs) = Some (\<exists>c \<in> set cs. cond_matches c ctx)"
proof (induction cs)
  case (Cons c cs)
  then show ?case
    using observe_returns [OF Cons.prems, of k r "cond_Attribute c" "snd (MatchCondition (Some c) ctx)"]
    by (auto simp: cond_matches_def split: prod.splits)
qed simp

lemma match_all_result:
  "well_behaved obs \<Longrightarrow>
     fst (match_all obs k r ctx cs) = Some (\<forall>c \<in> set cs. cond_matches c ctx)"
proof (induction cs)
  case (Cons c cs)
  then show ?case
    using observe_returns [OF Cons.prems, of k r "cond_Attribute c" "snd (MatchCondition (Some c) ctx)"]
    by (auto simp: cond_matches_def split: prod.splits)
qed simp

text \<open>What a rule means: all, or any, of its conditions match.\<close>

definition rule_matches :: "Rule \<Rightarrow> EvalContext \<Rightarrow> bool" where
  "rule_matches r ctx \<longleftrightarrow>
     (if rule_Combiner r = LogicOr then \<exists>c \<in> set (rule_Conditions r). cond_matches c ctx
      else \<forall>c \<in> set (rule_Conditions r). cond_matches c ctx)"

lemma MatchRule_result:
  "well_behaved obs \<Longrightarrow> fst (MatchRule k (Some r) ctx obs) = Some (rule_matches r ctx)"
  by (simp add: MatchRule_def rule_matches_def match_any_result match_all_result)

text \<open>The observations of a rule are of its own conditions, and countable.\<close>

lemma observe_sound:
  "x \<in> set (snd (observe obs k r a t)) \<Longrightarrow> x = (k, r, a, t) \<and> Countable t"
  by (auto simp: observe_def split: option.splits if_splits)

definition reports :: "string \<Rightarrow> string \<Rightarrow> EvalContext \<Rightarrow> Condition list \<Rightarrow> observation \<Rightarrow> bool" where
  "reports k r ctx cs x \<longleftrightarrow>
     (\<exists>c \<in> set cs. x = (k, r, cond_Attribute c, decideCondition c ctx) \<and>
        Countable (decideCondition c ctx))"

lemma observe_reports:
  "x \<in> set (snd (observe obs k r (cond_Attribute c) (decideCondition c ctx))) \<Longrightarrow>
     reports k r ctx (c # cs) x"
  using observe_sound by (fastforce simp: reports_def)

lemma reports_Cons: "reports k r ctx cs x \<Longrightarrow> reports k r ctx (c # cs) x"
  by (auto simp: reports_def)

lemma match_any_reports:
  "x \<in> set (snd (match_any obs k r ctx cs)) \<Longrightarrow> reports k r ctx cs x"
proof (induction cs)
  case (Cons c cs)
  have "x \<in> set (snd (observe obs k r (cond_Attribute c) (decideCondition c ctx))) \<or>
      x \<in> set (snd (match_any obs k r ctx cs))"
    using Cons.prems by (auto simp: MatchCondition_eq split: prod.splits if_splits)
  then show ?case using Cons.IH observe_reports reports_Cons by blast
qed simp

lemma match_all_reports:
  "x \<in> set (snd (match_all obs k r ctx cs)) \<Longrightarrow> reports k r ctx cs x"
proof (induction cs)
  case (Cons c cs)
  have "x \<in> set (snd (observe obs k r (cond_Attribute c) (decideCondition c ctx))) \<or>
      x \<in> set (snd (match_all obs k r ctx cs))"
    using Cons.prems by (auto simp: MatchCondition_eq split: prod.splits if_splits)
  then show ?case using Cons.IH observe_reports reports_Cons by blast
qed simp

lemma MatchRule_reports:
  "x \<in> set (snd (MatchRule k (Some r) ctx obs)) \<Longrightarrow>
     reports k (rule_ID r) ctx (rule_Conditions r) x"
  by (auto simp: MatchRule_def intro: match_any_reports match_all_reports split: if_splits)

section \<open>Properties\<close>

text \<open>Negation is applied to the match and never to the undecidable: a condition and its
  negated twin have the same raw outcome, exactly one of them matches when that outcome is
  decided, and neither matches when it is not.\<close>

theorem negation_only_on_decided:
  "snd (MatchCondition (Some (c\<lparr>cond_Negate := True\<rparr>)) ctx) =
     snd (MatchCondition (Some (c\<lparr>cond_Negate := False\<rparr>)) ctx) \<and>
   fst (MatchCondition (Some (c\<lparr>cond_Negate := True\<rparr>)) ctx) =
     (Decided (decideCondition c ctx) \<and>
      \<not> fst (MatchCondition (Some (c\<lparr>cond_Negate := False\<rparr>)) ctx)) \<and>
   (fst (MatchCondition (Some (c\<lparr>cond_Negate := False\<rparr>)) ctx) \<longleftrightarrow>
      decideCondition c ctx = TriTrue)"
  by (auto simp: MatchCondition_eq)

text \<open>C4. An attribute that is absent from the context matches no condition, negated or not,
  whatever the operator and operands, but for \<^verbatim>\<open>exists\<close>, which is decided on absence; and an
  absent attribute is never reported to the observer.\<close>

theorem absent_attribute_never_matches:
  assumes "Attribute ctx (cond_Attribute c) = None"
  shows "MatchCondition (Some c) ctx =
      (if cond_Op c = OpExists then (cond_Negate c, TriFalse) else (False, TriAbsent))
    \<and> observe obs k r (cond_Attribute c) (snd (MatchCondition (Some c) ctx)) = (True, [])"
proof (cases "cond_Op c = OpExists")
  case True
  then have "decideCondition c ctx = TriFalse" using assms by (simp add: decideCondition_def)
  then show ?thesis using True by (simp add: MatchCondition_eq observe_Countable)
next
  case False
  with assms have "decideCondition c ctx = TriAbsent" by (rule decideCondition_absent)
  then show ?thesis using False by (simp add: MatchCondition_eq observe_Countable)
qed

theorem absent_attribute_never_matches_witness:
  "MatchCondition
      (Some \<lparr>cond_Attribute = ''country'', cond_Op = OpEquals,
             cond_Values = [VString ''IN''], cond_Negate = True\<rparr>)
      \<lparr>ctx_UserID = ''u-1'', ctx_TenantID = [], ctx_Attributes = []\<rparr> = (False, TriAbsent)"
  using absent_attribute_never_matches
    [of "\<lparr>ctx_UserID = ''u-1'', ctx_TenantID = [], ctx_Attributes = []\<rparr>"
        "\<lparr>cond_Attribute = ''country'', cond_Op = OpEquals,
          cond_Values = [VString ''IN''], cond_Negate = True\<rparr>" None "[]" "[]"]
  by (simp add: Attribute_def)

text \<open>No comparison coerces: whenever the raw comparison of a present attribute is decided
  (by any operator but \<^verbatim>\<open>exists\<close> and the empty \<^verbatim>\<open>in\<close>), some operand of the condition has the
  attribute's type, and the ordered comparisons were between two integers, the substring and
  version comparisons between two strings.\<close>

theorem decided_without_coercion:
  assumes "Attribute ctx (cond_Attribute c) = Some v"
    and "Decided (decideCondition c ctx)"
    and "cond_Op c \<noteq> OpExists" and "cond_Values c \<noteq> []"
  shows "(\<exists>w \<in> set (cond_Values c). Value_Type w = Value_Type v) \<and>
    (cond_Op c \<in> {OpGreaterThan, OpGreaterOrEqual, OpLessThan, OpLessOrEqual}
       \<longrightarrow> Value_Type v = TypeInt) \<and>
    (cond_Op c \<in> {OpContains, OpSemverEqual, OpSemverGreaterThan, OpSemverLessThan}
       \<longrightarrow> Value_Type v = TypeString)"
proof -
  obtain w ws where vals: "cond_Values c = w # ws" using assms(4) by (cases "cond_Values c") auto
  have dec: "Decided (decideCondition c ctx)" by fact
  show ?thesis
  proof (cases "cond_Op c")
    case OpIn
    then have "Decided (matchIn v (w # ws))" using dec vals assms(1) by (simp add: decideCondition_def)
    then show ?thesis using OpIn vals
      unfolding matchIn_eq by (auto split: if_splits)
  qed (use dec vals assms(1,3) matchOrdered_decided matchContains_decided matchSemver_decided
      matchEquals_decided in \<open>auto simp: decideCondition_def\<close>)
qed

theorem decided_without_coercion_witness:
  "\<exists>w \<in> set [VInt 5]. Value_Type w = Value_Type (VInt 7)"
proof -
  let ?c = "\<lparr>cond_Attribute = ''age'', cond_Op = OpGreaterThan, cond_Values = [VInt 5],
             cond_Negate = False\<rparr>"
  let ?x = "\<lparr>ctx_UserID = [], ctx_TenantID = [], ctx_Attributes = [(''age'', VInt 7)]\<rparr>"
  have a: "Attribute ?x (cond_Attribute ?c) = Some (VInt 7)"
    by (simp add: Attribute_def gm_get_def)
  moreover have "Decided (decideCondition ?c ?x)"
    using a by (simp add: decideCondition_def matchOrdered_def operand_def)
  ultimately show ?thesis
    using decided_without_coercion [of ?x ?c "VInt 7"] by simp
qed

text \<open>On a present string attribute that parses as a version, with an operand that parses,
  the three semver operators are decided and exactly one of them holds.\<close>

theorem semver_trichotomy:
  assumes "parseSemver s = Some a" and "parseSemver t = Some b"
  shows "(matchSemver OpSemverEqual (VString s) [VString t] = triOf (a = b)) \<and>
    (matchSemver OpSemverLessThan (VString s) [VString t] = TriTrue) =
      (a \<noteq> b \<and> matchSemver OpSemverGreaterThan (VString s) [VString t] = TriFalse) \<and>
    matchSemver OpSemverLessThan (VString s) [VString t] =
      matchSemver OpSemverGreaterThan (VString t) [VString s]"
proof -
  have ok: "semver_ok a" "semver_ok b" using assms by (auto intro: parseSemver_semver_ok)
  have "semver_compare a b = 0 \<longleftrightarrow> a = b" by (rule cmp_semver.cmp_zero_iff [OF ok])
  moreover have "semver_compare b a = - semver_compare a b" by (rule cmp_semver.cmp_swap)
  moreover have "semver_compare a b = -1 \<or> semver_compare a b = 0 \<or> semver_compare a b = 1"
    by (rule cmp_semver.cmp_range)
  ultimately show ?thesis
    using assms by (auto simp: matchSemver_def operand_def Let_def)
qed

theorem semver_trichotomy_witness:
  "matchSemver OpSemverEqual (VString ''2.14.0'') [VString ''2.14.0+ci''] = TriTrue"
proof -
  let ?v = "\<lparr>sv_major = 2, sv_minor = 14, sv_patch = 0, sv_pre = [], sv_hasPre = False\<rparr>"
  have "parseSemver ''2.14.0'' = Some ?v" "parseSemver ''2.14.0+ci'' = Some ?v"
    by (simp_all add: semver_eval)
  from semver_trichotomy [OF this] show ?thesis by simp
qed

text \<open>C5. A rule under a returning observer is decided by its conditions alone: with \<^verbatim>\<open>or\<close> it
  matches iff some condition does (never, when it has none), otherwise iff all do (always, when
  it has none); and every call the observer gets is for a countable outcome of one of the rule's own
  conditions.\<close>

theorem MatchRule_meaning:
  assumes "well_behaved obs"
  shows "fst (MatchRule k (Some r) ctx obs) =
     Some (if rule_Combiner r = LogicOr
           then \<exists>c \<in> set (rule_Conditions r). fst (MatchCondition (Some c) ctx)
           else \<forall>c \<in> set (rule_Conditions r). fst (MatchCondition (Some c) ctx)) \<and>
   list_all (\<lambda>(key, rule, attribute, outcome). Countable outcome \<and>
       (\<exists>c \<in> set (rule_Conditions r). attribute = cond_Attribute c \<and> outcome = decideCondition c ctx))
     (snd (MatchRule k (Some r) ctx obs))"
  using MatchRule_result [OF assms] MatchRule_reports [of _ k r ctx obs]
  by (fastforce simp: rule_matches_def cond_matches_def list_all_iff reports_def)

theorem MatchRule_meaning_witness:
  "fst (MatchRule ''f''
     (Some \<lparr>rule_ID = ''r'', rule_Conditions = [], rule_Combiner = LogicAnd, rule_Value = VBool True\<rparr>)
     \<lparr>ctx_UserID = [], ctx_TenantID = [], ctx_Attributes = []\<rparr> None) = Some True"
  using MatchRule_meaning [of None "''f''"
     "\<lparr>rule_ID = ''r'', rule_Conditions = [], rule_Combiner = LogicAnd, rule_Value = VBool True\<rparr>"
     "\<lparr>ctx_UserID = [], ctx_TenantID = [], ctx_Attributes = []\<rparr>"]
  by (simp add: well_behaved_def)

end
