(* ===== verification/Core_Bucket.thy ===== *)
theory Core_Bucket
  imports Core_Value
begin

text \<open>
  Bucketing, \<^verbatim>\<open>internal/core/bucket.go\<close>: the multiply-shift reduction of \<^verbatim>\<open>XXHasher\<close> and the
  length-prefixed key of \<^verbatim>\<open>NamespaceStrategy\<close>. The 64-bit hash is \<^verbatim>\<open>xxhash.Sum64String\<close> of a
  third-party package: it is the parameter \<open>sum64\<close>, of which nothing is assumed.
\<close>

section \<open>The reduction of a hash to a bucket\<close>

definition reduce_hash :: "uint64 \<Rightarrow> int32" where
  "reduce_hash h = ucast (drop_bit 32 (drop_bit 32 h * ucast BucketSpace))"

definition XXHasher_Bucket :: "(string \<Rightarrow> uint64) \<Rightarrow> string \<Rightarrow> int32" where
  "XXHasher_Bucket sum64 key = (let h = sum64 key in reduce_hash h)"

lemma unat_drop_bit_div: "unat (drop_bit n (w :: 'a::len word)) = unat w div 2 ^ n"
  unfolding unat_drop_bit_eq by (simp only: drop_bit_eq_div)

lemma uint64_high: "unat (h :: uint64) div 2 ^ 32 < 2 ^ 32"
proof -
  have "unat h < 2 ^ LENGTH(64)" by (rule unsigned_less)
  then have "unat h < 2 ^ 64" by simp
  then show ?thesis by (simp add: less_mult_imp_div_less)
qed

text \<open>The product does not overflow: the high half is below \<open>2 ^ 32\<close>.\<close>

lemma reduce_hash_mult:
  "unat (drop_bit 32 (h :: uint64) * ucast BucketSpace) = (unat h div 2 ^ 32) * 10000"
proof -
  have "(unat h div 2 ^ 32) * 10000 < 2 ^ 64" using uint64_high [of h] by simp
  moreover have "unat (drop_bit 32 h) = unat h div 2 ^ 32"
    by (rule unat_drop_bit_div)
  moreover have "unat (ucast BucketSpace :: uint64) = 10000" by (simp add: BucketSpace_def)
  ultimately show ?thesis by (simp only: unat_word_ariths) simp
qed

lemma unat_reduce_hash: "unat (reduce_hash h) = (unat h div 2 ^ 32) * 10000 div 2 ^ 32"
proof -
  have small: "(unat h div 2 ^ 32) * 10000 div 2 ^ 32 < 2 ^ 32"
    using uint64_high [of h] by (simp add: less_mult_imp_div_less)
  have "unat (reduce_hash h)
      = take_bit 32 (unat (drop_bit 32 (drop_bit 32 h * (ucast BucketSpace :: uint64))))"
    by (simp only: reduce_hash_def unsigned_ucast_eq len_of_numeral_defs) simp
  also have "\<dots> = take_bit 32 ((unat h div 2 ^ 32) * 10000 div 2 ^ 32)"
    by (simp only: unat_drop_bit_div reduce_hash_mult)
  also have "\<dots> = (unat h div 2 ^ 32) * 10000 div 2 ^ 32"
    using small by (simp only: take_bit_nat_eq_self_iff)
  finally show ?thesis .
qed

lemma unat_reduce_hash_less: "unat (reduce_hash h) < 10000"
  unfolding unat_reduce_hash using uint64_high [of h] by (simp add: less_mult_imp_div_less)

lemma sint_small: 
  assumes "unat (b :: int32) < 2 ^ 31"
  shows "sint b = int (unat b)"
proof -
  have "uint b < 2 ^ 31" using assms by (metis of_nat_less_iff uint_nat of_nat_numeral of_nat_power)
  then have "signed_take_bit 31 (uint b) = uint b"
    by (intro signed_take_bit_int_eq_self) (simp_all add: order_trans [OF _ uint_ge_0])
  then show ?thesis by (simp add: sint_uint)
qed

lemma sint_reduce_hash: "sint (reduce_hash h) = int (unat (reduce_hash h))"
  using unat_reduce_hash_less [of h] by (intro sint_small) simp

lemma sint_reduce_hash_bounds: "0 \<le> sint (reduce_hash h)" "sint (reduce_hash h) < 10000"
proof -
  have "int (unat (reduce_hash h)) < int 10000"
    by (simp only: of_nat_less_iff unat_reduce_hash_less)
  then show "0 \<le> sint (reduce_hash h)" "sint (reduce_hash h) < 10000"
    unfolding sint_reduce_hash by simp_all
qed

text \<open>
  The hashes of one bucket are an interval of the high half, of \<open>429496\<close> or \<open>429497\<close> values.
\<close>

definition bucket_start :: "nat \<Rightarrow> nat" where
  "bucket_start b = (b * 4294967296 + 9999) div 10000"

lemma bucket_start_le: "bucket_start b \<le> hi \<longleftrightarrow> b * 4294967296 \<le> hi * 10000"
  unfolding bucket_start_def by linarith

lemma mult_div_bucket:
  "(hi :: nat) * 10000 div 4294967296 = b \<longleftrightarrow> bucket_start b \<le> hi \<and> hi < bucket_start (Suc b)"
proof -
  have "hi * 10000 div 4294967296 = b
      \<longleftrightarrow> b * 4294967296 \<le> hi * 10000 \<and> hi * 10000 < Suc b * 4294967296"
    using less_eq_div_iff_mult_less_eq [of "4294967296 :: nat" b "hi * 10000"]
      div_less_iff_less_mult [of "4294967296 :: nat" "hi * 10000" "Suc b"] by auto
  then show ?thesis using bucket_start_le [of b hi] bucket_start_le [of "Suc b" hi] by auto
qed

lemma bucket_width:
  "bucket_start (Suc b) - bucket_start b \<in> {429496, 429497}" "bucket_start b \<le> bucket_start (Suc b)"
  unfolding bucket_start_def by (simp_all) linarith+

lemma bucket_start_bound:
  assumes "b < 10000"
  shows "bucket_start (Suc b) \<le> 4294967296"
proof -
  have "Suc b * 4294967296 \<le> 10000 * 4294967296" using assms by (intro mult_le_mono1) simp
  then have "bucket_start (Suc b) \<le> (10000 * 4294967296 + 9999) div 10000"
    unfolding bucket_start_def by (intro div_le_mono add_le_mono1)
  then show ?thesis by simp
qed

lemma card_unat_interval:
  assumes "b \<le> 2 ^ 64"
  shows "card {h :: uint64. a \<le> unat h \<and> unat h < b} = b - a"
proof -
  have "unat ` {h :: uint64. a \<le> unat h \<and> unat h < b} = {a ..< b}"
  proof (intro equalityI subsetI)
    fix n assume n: "n \<in> {a ..< b}"
    then have "unat (of_nat n :: uint64) = n"
      using assms by (simp add: unat_of_nat take_bit_eq_mod)
    then show "n \<in> unat ` {h :: uint64. a \<le> unat h \<and> unat h < b}"
      using n by (intro image_eqI [of _ _ "of_nat n"]) simp_all
  qed auto
  moreover have "inj_on unat {h :: uint64. a \<le> unat h \<and> unat h < b}"
    by (rule inj_onI) (simp add: word_unat_eq_iff)
  ultimately show ?thesis using card_image by fastforce
qed

lemma reduce_hash_preimage:
  "unat (reduce_hash h) = b
     \<longleftrightarrow> bucket_start b * 2 ^ 32 \<le> unat h \<and> unat h < bucket_start (Suc b) * 2 ^ 32"
proof -
  have "unat (reduce_hash h) = b
      \<longleftrightarrow> bucket_start b \<le> unat h div 2 ^ 32 \<and> unat h div 2 ^ 32 < bucket_start (Suc b)"
    using mult_div_bucket [of "unat h div 2 ^ 32" b] by (simp add: unat_reduce_hash)
  then show ?thesis
    using less_eq_div_iff_mult_less_eq [of "2 ^ 32 :: nat" "bucket_start b" "unat h"]
      div_less_iff_less_mult [of "2 ^ 32 :: nat" "unat h" "bucket_start (Suc b)"] by simp
qed

lemma bucket_card:
  assumes "b < 10000"
  shows "card {h. sint (reduce_hash h) = int b} = (bucket_start (Suc b) - bucket_start b) * 2 ^ 32"
proof -
  have "bucket_start (Suc b) * 2 ^ 32 \<le> 2 ^ 64" using bucket_start_bound [OF assms] by simp
  then have "card {h :: uint64. unat (reduce_hash h) = b}
      = bucket_start (Suc b) * 2 ^ 32 - bucket_start b * 2 ^ 32"
    unfolding reduce_hash_preimage by (rule card_unat_interval)
  also have "\<dots> = (bucket_start (Suc b) - bucket_start b) * 2 ^ 32" by (rule diff_mult_distrib [symmetric])
  finally show ?thesis unfolding sint_reduce_hash of_nat_eq_iff .
qed

text \<open>C9. Of the \<open>2 ^ 64\<close> hash values every one lands in one of the ten thousand buckets, a larger hash
  never lands in a smaller bucket, and the buckets are equally likely up to rounding: each is hit by
  \<open>429496 * 2 ^ 32\<close> or \<open>429497 * 2 ^ 32\<close> hash values. Both widths occur, at the buckets 3 and 0, so the relative
  bias is one part in 429496, about \<open>2.3e-6\<close>, and not below \<open>2.4e-9\<close> as the comment of \<^verbatim>\<open>XXHasher.Bucket\<close> has it.\<close>

theorem reduce_hash_fair:
  "sint (reduce_hash h) \<in> {0 .. 9999}
   \<and> (h \<le> h' \<longrightarrow> sint (reduce_hash h) \<le> sint (reduce_hash h'))
   \<and> (b < 10000 \<longrightarrow>
        card {h. sint (reduce_hash h) = int b} \<in> {429496 * 2 ^ 32, 429497 * 2 ^ 32})
   \<and> card {h. sint (reduce_hash h) = 3} = 429496 * 2 ^ 32
   \<and> card {h. sint (reduce_hash h) = 0} = 429497 * 2 ^ 32"
proof (intro conjI impI)
  show "sint (reduce_hash h) \<in> {0 .. 9999}"
    using sint_reduce_hash_bounds [of h] by simp
next
  assume "h \<le> h'"
  then have "unat h \<le> unat h'" by (simp add: word_le_nat_alt)
  then have "unat (reduce_hash h) \<le> unat (reduce_hash h')"
    unfolding unat_reduce_hash by (intro div_le_mono mult_le_mono1)
  then show "sint (reduce_hash h) \<le> sint (reduce_hash h')"
    unfolding sint_reduce_hash by (simp only: of_nat_le_iff)
next
  assume "b < 10000"
  then show "card {h. sint (reduce_hash h) = int b} \<in> {429496 * 2 ^ 32, 429497 * 2 ^ 32}"
    using bucket_width [of b] unfolding bucket_card [OF \<open>b < 10000\<close>] by auto
next
  show "card {h. sint (reduce_hash h) = 3} = 429496 * 2 ^ 32"
    using bucket_card [of 3] by (simp add: bucket_start_def)
next
  show "card {h. sint (reduce_hash h) = 0} = 429497 * 2 ^ 32"
    using bucket_card [of 0] by (simp add: bucket_start_def)
qed

theorem reduce_hash_fair_witness:
  "sint (reduce_hash 0) \<le> sint (reduce_hash 5)
   \<and> card {h. sint (reduce_hash h) = int 42} \<in> {429496 * 2 ^ 32, 429497 * 2 ^ 32}"
  using reduce_hash_fair [of 0 5 42] by simp

section \<open>Hashers as a contract\<close>

text \<open>
  What the evaluator wants of a \<^verbatim>\<open>Hasher\<close>: buckets in \<open>0 .. 9999\<close>. A subject is in the rollout when
  its bucket is strictly below the percentage, so the membership grows with the percentage.
\<close>

locale bucket_hasher =
  fixes bucket :: "string \<Rightarrow> int32"
  assumes in_space: "0 \<le> sint (bucket k)" "sint (bucket k) < 10000"
begin

lemma ramp_grows: "slt (bucket k) p \<Longrightarrow> sle p q \<Longrightarrow> slt (bucket k) q"
  by (rule slt_sle_trans)

lemma zero_admits_nobody: "sle p 0 \<Longrightarrow> \<not> slt (bucket k) p"
  using in_space (1) [of k] by (simp add: slt_def sle_def)

lemma full_admits_everybody: "sle BucketSpace p \<Longrightarrow> slt (bucket k) p"
  using in_space (2) [of k] by (simp add: slt_def sle_def BucketSpace_def)

lemma range_guard: "\<not> (slt (bucket k) 0 \<or> sle BucketSpace (bucket k))"
  using in_space [of k] by (simp add: slt_def sle_def BucketSpace_def)

end

interpretation xxhasher: bucket_hasher "XXHasher_Bucket sum64" for sum64
  by unfold_locales (simp_all add: XXHasher_Bucket_def Let_def sint_reduce_hash_bounds)

section \<open>The bucketing key\<close>

definition defaultBucketSubject :: string where
  "defaultBucketSubject = ''user_id''"

definition key_namespace :: "Flag \<Rightarrow> string" where
  "key_namespace f =
     (case flag_Rollout f of
        None \<Rightarrow> flag_Key f
      | Some r \<Rightarrow> if roll_BucketNamespace r \<noteq> [] then roll_BucketNamespace r else flag_Key f)"

definition key_subject_attr :: "Flag \<Rightarrow> string" where
  "key_subject_attr f =
     (case flag_Rollout f of
        None \<Rightarrow> defaultBucketSubject
      | Some r \<Rightarrow> if roll_BucketBy r \<noteq> [] then roll_BucketBy r else defaultBucketSubject)"

definition compose_key :: "string \<Rightarrow> string \<Rightarrow> string" where
  "compose_key namespace subject =
     strconv_FormatInt (int (length namespace)) @ CHR '':'' # namespace @ CHR '':'' # subject"

definition NamespaceStrategy_Key :: "Flag option \<Rightarrow> EvalContext \<Rightarrow> string option" where
  "NamespaceStrategy_Key flag c =
     (case flag of
        None \<Rightarrow> None
      | Some f \<Rightarrow>
          (case Attribute c (key_subject_attr f) of
             None \<Rightarrow> None
           | Some v \<Rightarrow>
               if Value_IsUnknown v then None
               else if Value_String v = [] then None
               else Some (compose_key (key_namespace f) (Value_String v))))"

text \<open>The decimal length ends at the first colon, so the key can be taken apart again.\<close>

lemma compose_key_length: "strings_IndexByte (compose_key ns s) CHR '':'' = Some (length (format_nat (length ns)))"
proof -
  have "CHR '':'' \<notin> set (format_nat (length ns))"
    using format_nat_digits [of "CHR '':''"] by (auto simp: is_digit_def)
  then show ?thesis
    by (simp add: compose_key_def strconv_FormatInt_def strings_IndexByte_append)
qed

lemma compose_key_inj: "compose_key ns s = compose_key ns' s' \<longleftrightarrow> ns = ns' \<and> s = s'"
proof
  assume eq: "compose_key ns s = compose_key ns' s'"
  then have "length (format_nat (length ns)) = length (format_nat (length ns'))"
    using compose_key_length [of ns s] compose_key_length [of ns' s'] by simp
  with eq have 1: "format_nat (length ns) = format_nat (length ns')"
    and 2: "ns @ CHR '':'' # s = ns' @ CHR '':'' # s'"
    by (simp_all add: compose_key_def strconv_FormatInt_def)
  from 1 have "length ns = length ns'" by (rule format_nat_inj)
  with 2 show "ns = ns' \<and> s = s'" by simp
qed simp

lemma NamespaceStrategy_Key_Some:
  "NamespaceStrategy_Key (Some f) c = Some k \<longleftrightarrow>
     (\<exists>v. Attribute c (key_subject_attr f) = Some v \<and> v \<noteq> VUnset \<and> Value_String v \<noteq> []
        \<and> k = compose_key (key_namespace f) (Value_String v))"
  by (auto simp: NamespaceStrategy_Key_def split: option.splits)

text \<open>C8. The bucketing key is injective for all byte strings, colons included: two subjects share a
  bucketing key exactly when their flags share the namespace and the subjects read the same.
  A subject has no key exactly when its attribute is absent, unset or the empty string.\<close>

theorem bucket_key_injective:
  "(NamespaceStrategy_Key (Some f) c = None \<longleftrightarrow>
      Attribute c (key_subject_attr f) \<in> {None, Some VUnset, Some (VString [])})
   \<and> (Attribute c (key_subject_attr f) = Some v \<longrightarrow> NamespaceStrategy_Key (Some f) c = Some k \<longrightarrow>
      Attribute c' (key_subject_attr f') = Some v' \<longrightarrow> NamespaceStrategy_Key (Some f') c' = Some k' \<longrightarrow>
      (k = k' \<longleftrightarrow> key_namespace f = key_namespace f' \<and> Value_String v = Value_String v'))"
proof (intro conjI impI)
  have "Value_String v \<noteq> [] \<longleftrightarrow> v \<noteq> VString []" for v
    by (cases v) (auto simp: strconv_FormatInt_def)
  then show "NamespaceStrategy_Key (Some f) c = None \<longleftrightarrow>
      Attribute c (key_subject_attr f) \<in> {None, Some VUnset, Some (VString [])}"
    by (auto simp: NamespaceStrategy_Key_def split: option.splits)
qed (auto simp: NamespaceStrategy_Key_Some compose_key_inj)

text \<open>The pair that a plain colon-separated key would confuse.\<close>

theorem bucket_key_injective_witness:
  "\<exists>k k'. NamespaceStrategy_Key (Some (bool_flag ''a:b'' True [] None)) (user_ctx ''c'') = Some k
     \<and> NamespaceStrategy_Key (Some (bool_flag ''a'' True [] None)) (user_ctx ''b:c'') = Some k' \<and> k \<noteq> k'"
proof -
  let ?f = "bool_flag ''a:b'' True [] None" and ?g = "bool_flag ''a'' True [] None"
  have attr: "Attribute (user_ctx u) (key_subject_attr (bool_flag k True [] None)) = Some (VString u)"
    if "u \<noteq> []" for u k
    using that by (simp add: example_defs key_subject_attr_def defaultBucketSubject_def Attribute_def)
  have key: "NamespaceStrategy_Key (Some (bool_flag k True [] None)) (user_ctx u) = Some (compose_key k u)"
    if "u \<noteq> []" for u k
    using that attr [of u k]
    by (simp add: NamespaceStrategy_Key_Some) (simp add: bool_flag_def key_namespace_def)
  have "compose_key ''a:b'' ''c'' \<noteq> compose_key ''a'' ''b:c''"
    using bucket_key_injective [of ?f "user_ctx ''c''" "VString ''c''" "compose_key ''a:b'' ''c''"
        "user_ctx ''b:c''" ?g "VString ''b:c''" "compose_key ''a'' ''b:c''"]
    by (simp add: attr key)
  then show ?thesis using key by blast
qed

end
