(* ===== verification/Core_Evaluator.thy ===== *)
theory Core_Evaluator
  imports Core_Matcher Core_Bucket
begin

text \<open>
  The evaluation engine of \<^verbatim>\<open>internal/core/evaluator.go\<close> with the interfaces of \<^verbatim>\<open>contract.go\<close>. The
  snapshot, the key strategy, the hasher and the observer are interfaces a caller may implement:
  each call to one returns an option, \<^const>\<open>None\<close> being a panic, which the deferred function of
  \<^verbatim>\<open>Evaluate\<close> recovers. Next to the result \<^verbatim>\<open>Evaluate\<close> returns the observer calls it made.
\<close>

section \<open>The interfaces\<close>

record snapshot_view =
  snap_Generation :: "int64 option"
  snap_Env :: string
  snap_Flag :: "string \<Rightarrow> (Flag option \<times> bool) option"
  snap_Len :: nat

type_synonym key_strategy = "Flag option \<Rightarrow> EvalContext \<Rightarrow> string option option"
type_synonym hasher = "string \<Rightarrow> int32 option"

record evaluator =
  ev_strategy :: key_strategy
  ev_hasher :: hasher
  ev_observer :: observer

type_synonym ev_option = "evaluator \<Rightarrow> evaluator"

definition WithBucketKeyStrategy :: "key_strategy option \<Rightarrow> ev_option" where
  "WithBucketKeyStrategy s e = (case s of None \<Rightarrow> e | Some s \<Rightarrow> e\<lparr>ev_strategy := s\<rparr>)"

definition WithHasher :: "hasher option \<Rightarrow> ev_option" where
  "WithHasher h e = (case h of None \<Rightarrow> e | Some h \<Rightarrow> e\<lparr>ev_hasher := h\<rparr>)"

definition WithConditionObserver :: "observer \<Rightarrow> ev_option" where
  "WithConditionObserver ob e = e\<lparr>ev_observer := ob\<rparr>"

definition core_New :: "(string \<Rightarrow> uint64) \<Rightarrow> ev_option option list \<Rightarrow> evaluator" where
  "core_New sum64 opts =
     foldl (\<lambda>e opt. case opt of None \<Rightarrow> e | Some f \<Rightarrow> f e)
       \<lparr>ev_strategy = (\<lambda>f c. Some (NamespaceStrategy_Key f c)),
        ev_hasher = (\<lambda>k. Some (XXHasher_Bucket sum64 k)), ev_observer = None\<rparr> opts"

section \<open>Evaluation\<close>

definition finish :: "Flag \<Rightarrow> Result \<Rightarrow> Value \<Rightarrow> Result" where
  "finish flag res callerDefault =
     (if Value_Type (res_Value res) \<noteq> flag_Type flag
      then mk_result callerDefault ReasonTypeMismatch (res_Bucket res) (res_Generation res)
      else res)"

text \<open>S6a, the rules in slice order: \<open>None\<close> for a panic, otherwise the first rule that matched.\<close>

fun eval_rules :: "evaluator \<Rightarrow> string \<Rightarrow> EvalContext \<Rightarrow> Rule list \<Rightarrow>
    Rule option option \<times> observation list" where
  "eval_rules e key c [] = (Some None, [])"
| "eval_rules e key c (r # rs) =
     (case MatchRule key (Some r) c (ev_observer e) of
        (None, os) \<Rightarrow> (None, os)
      | (Some matched, os) \<Rightarrow>
          if matched then (Some (Some r), os)
          else (let (res, os') = eval_rules e key c rs in (res, os @ os')))"

text \<open>S6b, the rollout.\<close>

definition eval_rollout ::
    "evaluator \<Rightarrow> Flag \<Rightarrow> Rollout \<Rightarrow> EvalContext \<Rightarrow> int64 \<Rightarrow> Value \<Rightarrow> Result option" where
  "eval_rollout e flag ro c gen callerDefault =
     (case ev_strategy e (Some flag) c of
        None \<Rightarrow> None
      | Some None \<Rightarrow> Some (mk_result callerDefault ReasonMissingSubject NoBucket gen)
      | Some (Some bkey) \<Rightarrow>
          (case ev_hasher e bkey of
             None \<Rightarrow> None
           | Some bucket \<Rightarrow>
               if slt bucket 0 \<or> sle BucketSpace bucket
               then Some (mk_result callerDefault ReasonError NoBucket gen)
               else if slt bucket (roll_BasisPoints ro)
               then Some (finish flag (mk_result (roll_OnValue ro) ReasonRolloutIn bucket gen) callerDefault)
               else Some (finish flag (mk_result (roll_OffValue ro) ReasonRolloutOut bucket gen)
                 callerDefault)))"

text \<open>S6, on an enabled flag.\<close>

definition eval_enabled :: "evaluator \<Rightarrow> Flag \<Rightarrow> EvalContext \<Rightarrow> int64 \<Rightarrow> Value \<Rightarrow>
    Result option \<times> observation list" where
  "eval_enabled e flag c gen callerDefault =
     (case eval_rules e (flag_Key flag) c (flag_Rules flag) of
        (None, os) \<Rightarrow> (None, os)
      | (Some (Some r), os) \<Rightarrow>
          (Some (finish flag
             \<lparr>res_Value = rule_Value r, res_Reason = ReasonRuleMatch, res_RuleID = rule_ID r,
              res_Bucket = NoBucket, res_Generation = gen\<rparr> callerDefault), os)
      | (Some None, os) \<Rightarrow>
          (case flag_Rollout flag of
             Some ro \<Rightarrow> (eval_rollout e flag ro c gen callerDefault, os)
           | None \<Rightarrow>
               (Some (finish flag (mk_result (flag_DefaultValue flag) ReasonFallthrough NoBucket gen)
                  callerDefault), os)))"

text \<open>S3 to S6, with the generation known.\<close>

definition eval_at :: "evaluator \<Rightarrow> snapshot_view \<Rightarrow> int64 \<Rightarrow> string \<Rightarrow> EvalContext \<Rightarrow> ValueType \<Rightarrow>
    Value \<Rightarrow> Result option \<times> observation list" where
  "eval_at e snap gen key c want callerDefault =
     (case snap_Flag snap key of
        None \<Rightarrow> (None, [])
      | Some (_, False) \<Rightarrow> (Some (mk_result callerDefault ReasonFlagNotFound NoBucket gen), [])
      | Some (None, True) \<Rightarrow> (Some (mk_result callerDefault ReasonError NoBucket gen), [])
      | Some (Some flag, True) \<Rightarrow>
          if want \<noteq> TypeUnknown \<and> want \<noteq> flag_Type flag
          then (Some (mk_result callerDefault ReasonTypeMismatch NoBucket gen), [])
          else if \<not> flag_Enabled flag
          then (Some (finish flag (mk_result (flag_OffValue flag) ReasonDisabled NoBucket gen)
                  callerDefault), [])
          else eval_enabled e flag c gen callerDefault)"

text \<open>The deferred function: what a panic, or a result with no reason, becomes.\<close>

definition recovered :: "Value \<Rightarrow> int64 \<Rightarrow> Result option \<Rightarrow> Result" where
  "recovered callerDefault gen out =
     (case out of
        None \<Rightarrow> mk_result callerDefault ReasonError NoBucket gen
      | Some res \<Rightarrow>
          if res_Reason res = ReasonUnknown
          then mk_result callerDefault ReasonError NoBucket gen else res)"

definition Evaluate :: "evaluator \<Rightarrow> snapshot_view option \<Rightarrow> string \<Rightarrow> EvalContext \<Rightarrow> ValueType \<Rightarrow>
    Value \<Rightarrow> Result \<times> observation list" where
  "Evaluate e snap key c want callerDefault =
     (case snap of
        None \<Rightarrow> (recovered callerDefault 0 (Some (mk_result callerDefault ReasonError NoBucket 0)), [])
      | Some s \<Rightarrow>
          (case snap_Generation s of
             None \<Rightarrow> (recovered callerDefault 0 None, [])
           | Some gen \<Rightarrow>
               (let (out, os) = eval_at e s gen key c want callerDefault
                in (recovered callerDefault gen out, os))))"

section \<open>Facts about the stages\<close>

text \<open>What may leave a stage: a fallback carries the caller's default, and any other result a value of
  the flag's type.\<close>

definition sound_for :: "Flag \<Rightarrow> Value \<Rightarrow> int64 \<Rightarrow> Result \<Rightarrow> bool" where
  "sound_for flag cd gen r \<longleftrightarrow>
     res_Generation r = gen \<and> res_Reason r \<noteq> ReasonUnknown
     \<and> (if Result_IsFallback r then res_Value r = cd else Value_Type (res_Value r) = flag_Type flag)
     \<and> (res_Reason r \<noteq> ReasonRuleMatch \<longrightarrow> res_RuleID r = [])
     \<and> (res_Bucket r = NoBucket \<or> 0 \<le> sint (res_Bucket r) \<and> sint (res_Bucket r) < 10000)
     \<and> (res_Reason r \<in> {ReasonRolloutIn, ReasonRolloutOut} \<longrightarrow> res_Bucket r \<noteq> NoBucket)
     \<and> (res_Bucket r \<noteq> NoBucket \<longrightarrow>
          res_Reason r \<in> {ReasonRolloutIn, ReasonRolloutOut, ReasonTypeMismatch})"

lemmas result_defs = Result_IsFallback_def finish_def sound_for_def

lemma bucket_guard:
  "\<not> (slt b 0 \<or> sle BucketSpace b) \<Longrightarrow> 0 \<le> sint b \<and> sint b < 10000 \<and> b \<noteq> NoBucket"
  by (auto simp: slt_def sle_def BucketSpace_def NoBucket_def)

lemma eval_rollout_sound:
  "eval_rollout e flag ro c gen cd = Some r \<Longrightarrow> sound_for flag cd gen r"
  using bucket_guard
  by (auto simp: eval_rollout_def result_defs split: option.splits if_splits)

lemma eval_enabled_sound:
  "fst (eval_enabled e flag c gen cd) = Some r \<Longrightarrow> sound_for flag cd gen r"
  by (auto simp: eval_enabled_def result_defs eval_rollout_sound [unfolded result_defs]
      split: option.splits prod.splits if_splits dest!: eval_rollout_sound [unfolded result_defs])

text \<open>A fallback result of \<^verbatim>\<open>Evaluate\<close>, for any generation.\<close>

lemma eval_at_sound:
  assumes "fst (eval_at e s gen key c want cd) = Some r"
  shows "(Result_IsFallback r \<and> res_Value r = cd \<and> res_Generation r = gen \<and> res_RuleID r = []
            \<and> res_Bucket r = NoBucket)
    \<or> (\<exists>flag. snap_Flag s key = Some (Some flag, True) \<and> (want = TypeUnknown \<or> want = flag_Type flag)
            \<and> sound_for flag cd gen r)"
proof (cases "\<exists>flag. snap_Flag s key = Some (Some flag, True) \<and> (want = TypeUnknown \<or> want = flag_Type flag)")
  case True
  then obtain flag where fl: "snap_Flag s key = Some (Some flag, True)"
    and want: "want = TypeUnknown \<or> want = flag_Type flag" by blast
  have "sound_for flag cd gen r"
  proof (cases "flag_Enabled flag")
    case True
    then have "fst (eval_enabled e flag c gen cd) = Some r"
      using assms fl want by (auto simp: eval_at_def)
    then show ?thesis by (rule eval_enabled_sound)
  next
    case False
    then have "r = finish flag (mk_result (flag_OffValue flag) ReasonDisabled NoBucket gen) cd"
      using assms fl want by (auto simp: eval_at_def)
    then show ?thesis
      by (cases "Value_Type (flag_OffValue flag) = flag_Type flag") (simp_all add: result_defs)
  qed
  then show ?thesis using fl want by blast
next
  case False
  then show ?thesis using assms
    by (auto simp: eval_at_def Result_IsFallback_def split: option.splits bool.splits if_splits)
qed

section \<open>The decision a flag makes\<close>

text \<open>
  The abstract evaluator: which of its configured answers an enabled or disabled flag gives a
  context, for a key strategy and a hasher that return. The concrete code must agree with it.
\<close>

datatype decision = DecideOff | DecideRule Rule | DecideNoSubject | DecideRollout bool int32
  | DecideBadBucket | DecideDefault

definition decide :: "(Flag \<Rightarrow> EvalContext \<Rightarrow> string option) \<Rightarrow> (string \<Rightarrow> int32) \<Rightarrow> Flag \<Rightarrow>
    EvalContext \<Rightarrow> decision" where
  "decide strat bucket f c =
     (if \<not> flag_Enabled f then DecideOff
      else case find (\<lambda>r. rule_matches r c) (flag_Rules f) of
        Some r \<Rightarrow> DecideRule r
      | None \<Rightarrow>
          (case flag_Rollout f of
             None \<Rightarrow> DecideDefault
           | Some ro \<Rightarrow>
               (case strat f c of
                  None \<Rightarrow> DecideNoSubject
                | Some k \<Rightarrow>
                    if sint (bucket k) \<in> {0 .. 9999}
                    then DecideRollout (sint (bucket k) < sint (roll_BasisPoints ro)) (bucket k)
                    else DecideBadBucket)))"

text \<open>What a decision answers: the configured value, its reason, rule and bucket.\<close>

fun decision_result :: "Flag \<Rightarrow> decision \<Rightarrow> Value \<Rightarrow> int64 \<Rightarrow> Result" where
  "decision_result f DecideOff cd gen = mk_result (flag_OffValue f) ReasonDisabled NoBucket gen"
| "decision_result f (DecideRule r) cd gen =
     (mk_result (rule_Value r) ReasonRuleMatch NoBucket gen)\<lparr>res_RuleID := rule_ID r\<rparr>"
| "decision_result f DecideNoSubject cd gen = mk_result cd ReasonMissingSubject NoBucket gen"
| "decision_result f (DecideRollout on b) cd gen =
     (case flag_Rollout f of
        Some ro \<Rightarrow>
          (if on then mk_result (roll_OnValue ro) ReasonRolloutIn b gen
           else mk_result (roll_OffValue ro) ReasonRolloutOut b gen)
      | None \<Rightarrow> mk_result cd ReasonError NoBucket gen)"
| "decision_result f DecideBadBucket cd gen = mk_result cd ReasonError NoBucket gen"
| "decision_result f DecideDefault cd gen = mk_result (flag_DefaultValue f) ReasonFallthrough NoBucket gen"

text \<open>A result of the wrong type is replaced by the caller's default.\<close>

definition typed_result :: "Flag \<Rightarrow> Value \<Rightarrow> Result \<Rightarrow> Result" where
  "typed_result f cd r =
     (if Result_IsFallback r \<or> Value_Type (res_Value r) = flag_Type f then r
      else r\<lparr>res_Value := cd, res_Reason := ReasonTypeMismatch, res_RuleID := []\<rparr>)"

definition returning :: "evaluator \<Rightarrow> (Flag \<Rightarrow> EvalContext \<Rightarrow> string option) \<Rightarrow> (string \<Rightarrow> int32) \<Rightarrow> bool" where
  "returning e strat bucket \<longleftrightarrow>
     well_behaved (ev_observer e) \<and> (\<forall>f c. ev_strategy e (Some f) c = Some (strat f c))
     \<and> (\<forall>k. ev_hasher e k = Some (bucket k))"

definition serves :: "snapshot_view \<Rightarrow> int64 \<Rightarrow> string \<Rightarrow> Flag \<Rightarrow> bool" where
  "serves s gen key f \<longleftrightarrow>
     snap_Generation s = Some gen \<and> snap_Flag s key = Some (Some f, True)"

lemma eval_rules_result:
  "well_behaved (ev_observer e) \<Longrightarrow>
     fst (eval_rules e key c rs) = Some (find (\<lambda>r. rule_matches r c) rs)"
proof (induction rs)
  case (Cons r rs)
  show ?case
    using Cons.IH [OF Cons.prems] MatchRule_result [OF Cons.prems, of key r c]
    by (cases "MatchRule key (Some r) c (ev_observer e)") (auto split: prod.splits)
qed simp

lemma bucket_guard_iff: "(slt b 0 \<or> sle BucketSpace b) = (sint b \<notin> {0 .. 9999})"
  by (auto simp: slt_def sle_def BucketSpace_def)

lemma finish_typed_result:
  "\<not> Result_IsFallback r \<Longrightarrow> res_RuleID r = [] \<Longrightarrow> finish f r cd = typed_result f cd r"
  by (cases r) (auto simp: finish_def typed_result_def mk_result_def)

lemma typed_result_fallback: "Result_IsFallback r \<Longrightarrow> typed_result f cd r = r"
  by (simp add: typed_result_def)

lemma finish_rule:
  "finish f \<lparr>res_Value = v, res_Reason = ReasonRuleMatch, res_RuleID = i, res_Bucket = b,
             res_Generation = g\<rparr> cd
   = typed_result f cd ((mk_result v ReasonRuleMatch b g)\<lparr>res_RuleID := i\<rparr>)"
  by (auto simp: finish_def typed_result_def mk_result_def Result_IsFallback_def)

lemma eval_enabled_result:
  assumes "returning e strat bucket" and "flag_Enabled f"
  shows "fst (eval_enabled e f c gen cd) =
     Some (typed_result f cd (decision_result f (decide strat bucket f c) cd gen))"
proof -
  have wb: "well_behaved (ev_observer e)" and st: "ev_strategy e (Some f) c = Some (strat f c)"
    and ha: "\<And>k. ev_hasher e k = Some (bucket k)" using assms(1) by (auto simp: returning_def)
  note rules = eval_rules_result [OF wb, of "flag_Key f" c "flag_Rules f"]
  show ?thesis
  proof (cases "find (\<lambda>r. rule_matches r c) (flag_Rules f)")
    case (Some r)
    then show ?thesis using rules assms(2)
      by (auto simp: eval_enabled_def decide_def finish_rule split: prod.splits)
  next
    case None
    show ?thesis
    proof (cases "flag_Rollout f")
      case (Some ro)
      have "fst (eval_enabled e f c gen cd) = eval_rollout e f ro c gen cd"
        using None rules Some by (auto simp: eval_enabled_def split: prod.splits)
      moreover have "decide strat bucket f c =
          (case strat f c of
             None \<Rightarrow> DecideNoSubject
           | Some k \<Rightarrow>
               if sint (bucket k) \<in> {0 .. 9999}
               then DecideRollout (sint (bucket k) < sint (roll_BasisPoints ro)) (bucket k)
               else DecideBadBucket)"
        using None assms(2) Some by (simp add: decide_def)
      ultimately show ?thesis
        by (cases "strat f c")
          (simp_all add: eval_rollout_def st ha Some slt_def sle_def BucketSpace_def finish_typed_result
            Result_IsFallback_def typed_result_fallback)
    qed (use None rules assms(2) in
        \<open>auto simp: eval_enabled_def decide_def finish_typed_result Result_IsFallback_def split: prod.splits\<close>)
  qed
qed

lemma recovered_known: "res_Reason r \<noteq> ReasonUnknown \<Longrightarrow> recovered cd gen (Some r) = r"
  by (simp add: recovered_def)

lemma fst_Evaluate:
  "snap_Generation s = Some gen \<Longrightarrow>
     fst (Evaluate e (Some s) key c want cd) = recovered cd gen (fst (eval_at e s gen key c want cd))"
  by (simp add: Evaluate_def split: prod.splits)

lemma decision_result_reason: "res_Reason (typed_result f cd (decision_result f d cd gen)) \<noteq> ReasonUnknown"
  by (cases d) (auto simp: typed_result_def split: option.splits)

lemma Evaluate_enabled:
  assumes "serves s gen key f" "want = TypeUnknown \<or> want = flag_Type f" "flag_Enabled f"
  shows "fst (Evaluate e (Some s) key c want cd) = recovered cd gen (fst (eval_enabled e f c gen cd))"
  using assms by (auto simp: fst_Evaluate serves_def eval_at_def)

lemma core_New_ev [simp]:
  "ev_observer (core_New sum64 [Some (WithConditionObserver ob)]) = ob"
  "ev_strategy (core_New sum64 [Some (WithConditionObserver ob)]) = (\<lambda>f c. Some (NamespaceStrategy_Key f c))"
  "ev_hasher (core_New sum64 [Some (WithConditionObserver ob)]) = (\<lambda>k. Some (XXHasher_Bucket sum64 k))"
  by (simp_all add: core_New_def WithConditionObserver_def)

lemma returning_New:
  "well_behaved ob \<Longrightarrow> returning (core_New sum64 [Some (WithConditionObserver ob)])
     (\<lambda>f. NamespaceStrategy_Key (Some f)) (XXHasher_Bucket sum64)"
  by (simp add: returning_def)

section \<open>Properties\<close>

lemma evaluate_contract_lemma:
  fixes e s key c want cd
  defines "r \<equiv> fst (Evaluate e s key c want cd)"
  shows "res_Reason r \<noteq> ReasonUnknown
    \<and> (Result_IsFallback r \<longrightarrow> res_Value r = cd)
    \<and> (\<not> Result_IsFallback r \<longrightarrow>
         (\<exists>v f. s = Some v \<and> serves v (res_Generation r) key f
            \<and> (want = TypeUnknown \<or> want = flag_Type f) \<and> Value_Type (res_Value r) = flag_Type f))
    \<and> -1 \<le> sint (res_Bucket r) \<and> sint (res_Bucket r) < 10000"
proof (cases "\<exists>v gen out. s = Some v \<and> snap_Generation v = Some gen
                 \<and> fst (eval_at e v gen key c want cd) = Some out \<and> res_Reason out \<noteq> ReasonUnknown")
  case True
  then obtain v gen out where s: "s = Some v" "snap_Generation v = Some gen"
    and out: "fst (eval_at e v gen key c want cd) = Some out" "res_Reason out \<noteq> ReasonUnknown" by blast
  then have r: "r = out" by (simp add: r_def fst_Evaluate recovered_known)
  from eval_at_sound [OF out(1)] show ?thesis
  proof (rule disjE)
    assume "Result_IsFallback out \<and> res_Value out = cd \<and> res_Generation out = gen
      \<and> res_RuleID out = [] \<and> res_Bucket out = NoBucket"
    then show ?thesis using out(2) by (simp add: r NoBucket_def)
  next
    assume "\<exists>f. snap_Flag v key = Some (Some f, True) \<and> (want = TypeUnknown \<or> want = flag_Type f)
      \<and> sound_for f cd gen out"
    then obtain f where f: "snap_Flag v key = Some (Some f, True)" "want = TypeUnknown \<or> want = flag_Type f"
      and ok: "sound_for f cd gen out" by blast
    then have "serves v (res_Generation out) key f" using s by (simp add: serves_def sound_for_def)
    moreover have "-1 \<le> sint (res_Bucket out)" "sint (res_Bucket out) < 10000"
      using ok by (auto simp: sound_for_def NoBucket_def)
    moreover have "if Result_IsFallback out then res_Value out = cd
        else Value_Type (res_Value out) = flag_Type f"
      using ok by (simp add: sound_for_def)
    ultimately show ?thesis using f(2) s(1) out(2) unfolding r
      by (cases "Result_IsFallback out") auto
  qed
next
  case False
  then have "r = mk_result cd ReasonError NoBucket (res_Generation r)"
    by (cases s) (auto simp: r_def Evaluate_def recovered_def split: option.splits prod.splits)
  then have "res_Reason r = ReasonError" "res_Value r = cd" "res_Bucket r = NoBucket"
    by (metis mk_result_sel)+
  then show ?thesis by (simp add: Result_IsFallback_def NoBucket_def)
qed

lemmas evaluate_known = evaluate_contract_lemma [THEN conjunct1]
lemmas evaluate_typed = evaluate_contract_lemma [THEN conjunct2]

text \<open>C1. The contract of \<^verbatim>\<open>Evaluate\<close> under any snapshot, strategy, hasher and observer, panicking
  ones included: the reason is never \<^verbatim>\<open>UNKNOWN\<close>; a fallback reason carries the caller's default
  and any other reason a value of the type the flag declares, on a flag the snapshot served and the caller
  asked for with a fitting type; the bucket is \<open>-1\<close> or within \<open>0 .. 9999\<close>.\<close>

theorem Evaluate_contract:
  fixes e s key c want cd
  defines "r \<equiv> fst (Evaluate e s key c want cd)"
  shows "res_Reason r \<noteq> ReasonUnknown
    \<and> (Result_IsFallback r \<longrightarrow> res_Value r = cd)
    \<and> (\<not> Result_IsFallback r \<longrightarrow>
         (\<exists>v f. s = Some v \<and> serves v (res_Generation r) key f
            \<and> (want = TypeUnknown \<or> want = flag_Type f) \<and> Value_Type (res_Value r) = flag_Type f))
    \<and> -1 \<le> sint (res_Bucket r) \<and> sint (res_Bucket r) < 10000"
  unfolding r_def by (rule evaluate_contract_lemma)

theorem Evaluate_contract_witness:
  "let e = core_New (\<lambda>_. 0) [Some (WithBucketKeyStrategy (Some (\<lambda>_ _. None)))];
       s = \<lparr>snap_Generation = Some 7, snap_Env = ''prod'', snap_Flag = (\<lambda>_. None), snap_Len = 0\<rparr>;
       r = fst (Evaluate e (Some s) ''f'' (user_ctx ''u'') TypeBool (VBool True))
   in Result_IsFallback r \<and> res_Value r = VBool True"
proof -
  let ?e = "core_New (\<lambda>_. 0) [Some (WithBucketKeyStrategy (Some (\<lambda>_ _. None)))]"
  let ?s = "\<lparr>snap_Generation = Some 7, snap_Env = ''prod'', snap_Flag = (\<lambda>_. None), snap_Len = 0\<rparr>"
  have "Result_IsFallback (fst (Evaluate ?e (Some ?s) ''f'' (user_ctx ''u'') TypeBool (VBool True)))"
    by (simp add: Evaluate_def eval_at_def recovered_def Result_IsFallback_def)
  then show ?thesis
    using Evaluate_contract [of ?e "Some ?s" "''f''" "user_ctx ''u''" TypeBool "VBool True"]
    by (simp add: Let_def)
qed

lemma Evaluate_decides:
  assumes "returning e strat bucket" and "serves s gen key f"
    and "want = TypeUnknown \<or> want = flag_Type f"
  shows "fst (Evaluate e (Some s) key c want cd) =
     typed_result f cd (decision_result f (decide strat bucket f c) cd gen)"
proof (cases "flag_Enabled f")
  case True
  then show ?thesis
    using eval_enabled_result [OF assms(1) True, of c gen cd] decision_result_reason
    by (simp add: Evaluate_enabled [OF assms(2,3) True] recovered_known)
next
  case False
  then show ?thesis
    using assms decision_result_reason [of f cd DecideOff gen]
    by (auto simp: serves_def fst_Evaluate eval_at_def decide_def finish_typed_result
        Result_IsFallback_def recovered_known)
qed

text \<open>C2. The code refines its decision table: on a served flag of a fitting type, with a
  returning strategy, hasher and observer, \<^verbatim>\<open>Evaluate\<close> answers exactly what the flag decides for
  the context (off, the first matching rule, the rollout by its bucket, the missing subject, the
  default), and a configured value of the wrong type becomes \<^verbatim>\<open>TYPE_MISMATCH\<close>.\<close>

theorem Evaluate_refines_decide:
  assumes "returning e strat bucket" and "serves s gen key f"
    and "want = TypeUnknown \<or> want = flag_Type f"
  shows "fst (Evaluate e (Some s) key c want cd) =
     typed_result f cd (decision_result f (decide strat bucket f c) cd gen)"
  using assms by (rule Evaluate_decides)

text \<open>A snapshot of one flag, for the examples.\<close>

definition one_flag :: "int64 \<Rightarrow> Flag \<Rightarrow> snapshot_view" where
  "one_flag gen f = \<lparr>snap_Generation = Some gen, snap_Env = ''prod'',
     snap_Flag = (\<lambda>k. Some (if k = flag_Key f then (Some f, True) else (None, False))), snap_Len = 1\<rparr>"

lemma serves_one_flag [simp]: "serves (one_flag gen f) gen (flag_Key f) f"
  by (simp add: serves_def one_flag_def)

theorem Evaluate_refines_decide_witness:
  "res_Reason (fst (Evaluate (core_New (\<lambda>_. 0) [Some (WithConditionObserver None)])
      (Some (one_flag 3 (bool_flag ''f'' True [] (Some (bool_rollout 1))))) ''f'' (user_ctx ''u-1'')
      TypeBool (VBool False))) = ReasonRolloutIn"
proof -
  let ?f = "bool_flag ''f'' True [] (Some (bool_rollout 1))"
  have key: "flag_Key ?f = ''f''" "TypeBool = TypeUnknown \<or> TypeBool = flag_Type ?f" by (simp_all add: bool_flag_def)
  have "returning (core_New (\<lambda>_. 0) [Some (WithConditionObserver None)])
      (\<lambda>f. NamespaceStrategy_Key (Some f)) (XXHasher_Bucket (\<lambda>_. 0))"
    by (intro returning_New) (simp add: well_behaved_def)
  note ev = Evaluate_refines_decide [OF this serves_one_flag [of 3 ?f] key(2), of "user_ctx ''u-1''" "VBool False"]
  have "Attribute (user_ctx ''u-1'') (key_subject_attr ?f) = Some (VString ''u-1'')"
    by (simp add: example_defs key_subject_attr_def defaultBucketSubject_def Attribute_def)
  then have "\<exists>k. NamespaceStrategy_Key (Some ?f) (user_ctx ''u-1'') = Some k"
    by (simp add: NamespaceStrategy_Key_Some)
  moreover have "XXHasher_Bucket (\<lambda>_. 0) k = 0" for k by (simp add: XXHasher_Bucket_def reduce_hash_def)
  ultimately have "decide (\<lambda>f. NamespaceStrategy_Key (Some f)) (XXHasher_Bucket (\<lambda>_. 0)) ?f (user_ctx ''u-1'')
      = DecideRollout True 0"
    by (auto simp: decide_def) (simp_all add: bool_flag_def bool_rollout_def)
  then show ?thesis using ev
    by (simp add: key(1)) (simp add: example_defs typed_result_def Result_IsFallback_def)
qed

text \<open>The stages before the rules, in their order: no snapshot, a generation that panics, a lookup
  that panics, a flag that is missing or nil, then the requested type, and only then the kill switch,
  which answers the off value. None of them consults the strategy, the hasher, the rules or the
  observer, so a caller asking for the wrong type is told so whether the flag is on or off.\<close>

theorem Evaluate_early_stages:
  "Evaluate e None key c want cd = (mk_result cd ReasonError NoBucket 0, [])
   \<and> (snap_Generation s = None \<longrightarrow>
        Evaluate e (Some s) key c want cd = (mk_result cd ReasonError NoBucket 0, []))
   \<and> (snap_Generation s = Some gen \<longrightarrow>
        (snap_Flag s key = None \<longrightarrow>
           Evaluate e (Some s) key c want cd = (mk_result cd ReasonError NoBucket gen, []))
      \<and> (snap_Flag s key = Some (fo, False) \<longrightarrow>
           Evaluate e (Some s) key c want cd = (mk_result cd ReasonFlagNotFound NoBucket gen, []))
      \<and> (snap_Flag s key = Some (None, True) \<longrightarrow>
           Evaluate e (Some s) key c want cd = (mk_result cd ReasonError NoBucket gen, []))
      \<and> (snap_Flag s key = Some (Some f, True) \<longrightarrow> want \<noteq> TypeUnknown \<longrightarrow> want \<noteq> flag_Type f \<longrightarrow>
           Evaluate e (Some s) key c want cd = (mk_result cd ReasonTypeMismatch NoBucket gen, []))
      \<and> (snap_Flag s key = Some (Some f, True) \<longrightarrow> want = TypeUnknown \<or> want = flag_Type f \<longrightarrow>
         \<not> flag_Enabled f \<longrightarrow>
           Evaluate e (Some s) key c want cd =
             (if Value_Type (flag_OffValue f) = flag_Type f
              then mk_result (flag_OffValue f) ReasonDisabled NoBucket gen
              else mk_result cd ReasonTypeMismatch NoBucket gen, [])))"
  by (cases fo) (auto simp: Evaluate_def eval_at_def recovered_def finish_def)

theorem Evaluate_early_stages_witness:
  "Evaluate (core_New (\<lambda>_. 0) []) (Some (one_flag 4 (bool_flag ''f'' False [] None))) ''f'' (user_ctx ''u'')
     TypeInt (VInt 5) = (mk_result (VInt 5) ReasonTypeMismatch NoBucket 4, [])"
  using Evaluate_early_stages [of "core_New (\<lambda>_. 0) []" "''f''" "user_ctx ''u''" TypeInt "VInt 5"
      "one_flag 4 (bool_flag ''f'' False [] None)" 4 None "bool_flag ''f'' False [] None"]
  by (simp add: one_flag_def bool_flag_def)

text \<open>Rules come first and the first match wins: when a rule matches and none before it does,
  the answer is that rule's value, id and reason with no bucket, whatever rollout is
  configured, whatever the later rules are, and even with a strategy or hasher that panics,
  for neither is called.\<close>

theorem first_matching_rule_wins:
  assumes "well_behaved (ev_observer e)" and "serves s gen key f" and "flag_Enabled f"
    and "want = TypeUnknown \<or> want = flag_Type f"
    and "flag_Rules f = before @ r # after" and "\<forall>r' \<in> set before. \<not> rule_matches r' c"
    and "rule_matches r c"
  shows "fst (Evaluate e (Some s) key c want cd) =
     (if Value_Type (rule_Value r) = flag_Type f
      then (mk_result (rule_Value r) ReasonRuleMatch NoBucket gen)\<lparr>res_RuleID := rule_ID r\<rparr>
      else mk_result cd ReasonTypeMismatch NoBucket gen)"
proof -
  have "find (\<lambda>r. rule_matches r c) before = None" using assms(6) by (simp add: find_None_iff)
  then have "find (\<lambda>r. rule_matches r c) (flag_Rules f) = Some r"
    unfolding assms(5) using assms(7) by (induction before) (auto split: if_splits)
  then have "fst (eval_rules e (flag_Key f) c (flag_Rules f)) = Some (Some r)"
    by (simp add: eval_rules_result [OF assms(1)])
  then have "fst (eval_enabled e f c gen cd) = Some (finish f
      \<lparr>res_Value = rule_Value r, res_Reason = ReasonRuleMatch, res_RuleID = rule_ID r,
       res_Bucket = NoBucket, res_Generation = gen\<rparr> cd)"
    by (auto simp: eval_enabled_def split: prod.splits)
  then show ?thesis
    by (simp add: Evaluate_enabled [OF assms(2,4,3)] finish_def recovered_known mk_result_def)
qed

text \<open>A rule that matches everybody.\<close>

definition everyone_rule :: "string \<Rightarrow> bool \<Rightarrow> Rule" where
  "everyone_rule i v =
     \<lparr>rule_ID = i, rule_Conditions = [], rule_Combiner = LogicAnd, rule_Value = VBool v\<rparr>"

lemma everyone_rule_matches [simp]: "rule_matches (everyone_rule i v) c"
  by (simp add: everyone_rule_def rule_matches_def)

theorem first_matching_rule_wins_witness:
  "res_RuleID (fst (Evaluate \<lparr>ev_strategy = (\<lambda>_ _. None), ev_hasher = (\<lambda>_. None), ev_observer = None\<rparr>
      (Some (one_flag 1 (bool_flag ''f'' True [everyone_rule ''r1'' True, everyone_rule ''r2'' False]
         (Some (bool_rollout 0))))) ''f'' (user_ctx ''u'') TypeUnknown (VBool False))) = ''r1''"
  using first_matching_rule_wins
    [of "\<lparr>ev_strategy = (\<lambda>_ _. None), ev_hasher = (\<lambda>_. None), ev_observer = None\<rparr>"
        "one_flag 1 (bool_flag ''f'' True [everyone_rule ''r1'' True, everyone_rule ''r2'' False]
          (Some (bool_rollout 0)))" 1 "''f''"
        "bool_flag ''f'' True [everyone_rule ''r1'' True, everyone_rule ''r2'' False] (Some (bool_rollout 0))"
        TypeUnknown "[]" "everyone_rule ''r1'' True" "[everyone_rule ''r2'' False]" "user_ctx ''u''" "VBool False"]
  by (simp add: well_behaved_def serves_def one_flag_def bool_flag_def) (simp add: everyone_rule_def)

text \<open>A panic in the rollout is contained: when no rule matches and the key strategy, or the hasher on
  the key it gave, panics, the answer is the caller's default with \<^verbatim>\<open>ERROR\<close> at the
  generation consulted; so is it when the hasher's bucket is out of range.\<close>

theorem rollout_failures_contained:
  assumes "well_behaved (ev_observer e)" and "serves s gen key f" and "flag_Enabled f"
    and "want = TypeUnknown \<or> want = flag_Type f"
    and "\<forall>r \<in> set (flag_Rules f). \<not> rule_matches r c" and "flag_Rollout f \<noteq> None"
    and "case ev_strategy e (Some f) c of
           None \<Rightarrow> True
         | Some None \<Rightarrow> False
         | Some (Some k) \<Rightarrow>
             (case ev_hasher e k of None \<Rightarrow> True | Some b \<Rightarrow> sint b < 0 \<or> 10000 \<le> sint b)"
  shows "fst (Evaluate e (Some s) key c want cd) = mk_result cd ReasonError NoBucket gen"
proof -
  have "find (\<lambda>r. rule_matches r c) (flag_Rules f) = None" using assms(5) by (simp add: find_None_iff)
  then have "fst (eval_rules e (flag_Key f) c (flag_Rules f)) = Some None"
    by (simp add: eval_rules_result [OF assms(1)])
  moreover obtain ro where "flag_Rollout f = Some ro" using assms(6) by blast
  ultimately have "fst (eval_enabled e f c gen cd) = eval_rollout e f ro c gen cd"
    by (auto simp: eval_enabled_def split: prod.splits)
  moreover have "eval_rollout e f ro c gen cd \<in> {None, Some (mk_result cd ReasonError NoBucket gen)}"
    using assms(7) by (auto simp: eval_rollout_def slt_def sle_def BucketSpace_def split: option.splits)
  ultimately show ?thesis
    by (auto simp: Evaluate_enabled [OF assms(2,4,3)] recovered_def)
qed

theorem rollout_failures_contained_witness:
  "fst (Evaluate \<lparr>ev_strategy = (\<lambda>_ _. None), ev_hasher = (\<lambda>_. None), ev_observer = None\<rparr>
      (Some (one_flag 9 (bool_flag ''f'' True [] (Some (bool_rollout 5000))))) ''f'' (user_ctx ''u'') TypeBool (VBool True))
   = mk_result (VBool True) ReasonError NoBucket 9"
  by (rule rollout_failures_contained [of _ _ _ _ "bool_flag ''f'' True [] (Some (bool_rollout 5000))"])
    (simp_all add: well_behaved_def serves_def one_flag_def bool_flag_def)

section \<open>Ramps and the context an evaluation reads\<close>

text \<open>The flag with its rollout set to a percentage, in basis points.\<close>

definition set_ramp :: "Rollout \<Rightarrow> int32 \<Rightarrow> Flag \<Rightarrow> Flag" where
  "set_ramp ro p f = f\<lparr>flag_Rollout := Some (ro\<lparr>roll_BasisPoints := p\<rparr>)\<rparr>"

lemma set_ramp_sel [simp]:
  "flag_Key (set_ramp ro p f) = flag_Key f" "flag_Type (set_ramp ro p f) = flag_Type f"
  "flag_Enabled (set_ramp ro p f) = flag_Enabled f" "flag_Rules (set_ramp ro p f) = flag_Rules f"
  "flag_OffValue (set_ramp ro p f) = flag_OffValue f"
  "flag_Rollout (set_ramp ro p f) = Some (ro\<lparr>roll_BasisPoints := p\<rparr>)"
  by (simp_all add: set_ramp_def)

lemma NamespaceStrategy_Key_ramp:
  "NamespaceStrategy_Key (Some (set_ramp ro p f)) c = NamespaceStrategy_Key (Some (set_ramp ro q f)) c"
proof -
  have "key_namespace (set_ramp ro p f) = key_namespace (set_ramp ro q f)"
    "key_subject_attr (set_ramp ro p f) = key_subject_attr (set_ramp ro q f)"
    by (simp_all add: key_subject_attr_def key_namespace_def)
  then show ?thesis unfolding NamespaceStrategy_Key_def by (simp only: option.case)
qed

text \<open>With the shipped strategy and hasher, only the comparison with the percentage depends on it.\<close>

lemma decide_ramp:
  "decide (\<lambda>f. NamespaceStrategy_Key (Some f)) (XXHasher_Bucket sum64) (set_ramp ro p f) c =
     (if \<not> flag_Enabled f then DecideOff
      else case find (\<lambda>r. rule_matches r c) (flag_Rules f) of
        Some r \<Rightarrow> DecideRule r
      | None \<Rightarrow>
          (case NamespaceStrategy_Key (Some (set_ramp ro 0 f)) c of
             None \<Rightarrow> DecideNoSubject
           | Some k \<Rightarrow> DecideRollout (slt (XXHasher_Bucket sum64 k) p) (XXHasher_Bucket sum64 k)))"
proof (cases "find (\<lambda>r. rule_matches r c) (flag_Rules f)")
  case None
  have "sint (XXHasher_Bucket sum64 k) \<in> {0 .. 9999}" for k
    using xxhasher.in_space [of sum64 k] by simp
  then show ?thesis using None
    by (cases "NamespaceStrategy_Key (Some (set_ramp ro 0 f)) c")
      (simp_all add: decide_def NamespaceStrategy_Key_ramp [of ro p f c 0] slt_def del: atLeastAtMost_iff)
qed (simp add: decide_def)

text \<open>C3. A ramp only adds subjects. On a flag whose rollout values have the flag's type, the shipped
  evaluator that puts a subject in the rollout at one percentage puts it in at every higher one,
  with the same value and bucket; at 0 basis points or less nobody is in, and the answer is then
  the rollout's off value, never the flag's default; at 10000 or more nobody is out; and when the rollout is
  not what decides, the percentage changes nothing.\<close>

theorem ramp_monotone:
  fixes sum64 ob s key c want cd ro f gen
  defines "ev \<equiv> \<lambda>p. fst (Evaluate (core_New sum64 [Some (WithConditionObserver ob)]) (Some (s p)) key c want cd)"
  assumes "well_behaved ob" and "\<And>p. serves (s p) gen key (set_ramp ro p f)"
    and "want = TypeUnknown \<or> want = flag_Type f"
    and "Value_Type (roll_OnValue ro) = flag_Type f" "Value_Type (roll_OffValue ro) = flag_Type f"
    and "sle p q"
  shows "(res_Reason (ev p) = ReasonRolloutIn \<longrightarrow> ev q = ev p)
    \<and> (res_Reason (ev p) = ReasonRolloutOut \<longrightarrow> res_Value (ev p) = roll_OffValue ro)
    \<and> (sle p 0 \<longrightarrow> res_Reason (ev p) \<noteq> ReasonRolloutIn)
    \<and> (sle BucketSpace p \<longrightarrow> res_Reason (ev p) \<noteq> ReasonRolloutOut)
    \<and> (res_Reason (ev p) \<notin> {ReasonRolloutIn, ReasonRolloutOut} \<longrightarrow> ev q = ev p)"
proof -
  let ?d = "\<lambda>p. decide (\<lambda>f. NamespaceStrategy_Key (Some f)) (XXHasher_Bucket sum64) (set_ramp ro p f) c"
  have ev: "ev p = typed_result (set_ramp ro p f) cd (decision_result (set_ramp ro p f) (?d p) cd gen)" for p
    unfolding ev_def using assms(3) [of p] assms(4)
    by (intro Evaluate_decides [OF returning_New [OF assms(2)]]) simp_all
  consider (off) "\<not> flag_Enabled f"
    | (rule) r where "flag_Enabled f" "find (\<lambda>r. rule_matches r c) (flag_Rules f) = Some r"
    | (nosubject) "flag_Enabled f" "find (\<lambda>r. rule_matches r c) (flag_Rules f) = None"
        "NamespaceStrategy_Key (Some (set_ramp ro 0 f)) c = None"
    | (rollout) k where "flag_Enabled f" "find (\<lambda>r. rule_matches r c) (flag_Rules f) = None"
        "NamespaceStrategy_Key (Some (set_ramp ro 0 f)) c = Some k"
    by (meson option.exhaust)
  then show ?thesis
  proof cases
    case rollout
    have "ev p = mk_result (if slt (XXHasher_Bucket sum64 k) p then roll_OnValue ro else roll_OffValue ro)
        (if slt (XXHasher_Bucket sum64 k) p then ReasonRolloutIn else ReasonRolloutOut)
        (XXHasher_Bucket sum64 k) gen" for p
      using rollout assms(5,6) by (simp add: ev decide_ramp typed_result_def)
    then show ?thesis
      using xxhasher.ramp_grows [of sum64 k p q] xxhasher.zero_admits_nobody [of p sum64 k]
        xxhasher.full_admits_everybody [of p sum64 k] assms(7) by simp
  qed (auto simp: ev decide_ramp typed_result_def Result_IsFallback_def)
qed

theorem ramp_monotone_witness:
  "res_Reason (fst (Evaluate (core_New (\<lambda>_. 0) [Some (WithConditionObserver None)])
     (Some (one_flag 3 (set_ramp (bool_rollout 0) 0 (bool_flag ''f'' True [] None))))
     ''f'' (user_ctx ''u'') TypeBool (VBool False))) \<noteq> ReasonRolloutIn"
  using ramp_monotone [of None "\<lambda>p. one_flag 3 (set_ramp (bool_rollout 0) p (bool_flag ''f'' True [] None))"
      3 "''f''" "bool_rollout 0" "bool_flag ''f'' True [] None" TypeBool 0 10000
      "\<lambda>_. 0" "user_ctx ''u''" "VBool False"]
  by (simp add: well_behaved_def serves_def one_flag_def example_defs slt_def sle_def)

text \<open>The attributes an evaluation reads: those of the conditions, and the bucketing subject.\<close>

definition reads :: "Flag \<Rightarrow> string set" where
  "reads f = (\<Union>r \<in> set (flag_Rules f). cond_Attribute ` set (rule_Conditions r)) \<union> {key_subject_attr f}"

lemma decideCondition_reads:
  "Attribute c (cond_Attribute cd) = Attribute c' (cond_Attribute cd) \<Longrightarrow>
     decideCondition cd c = decideCondition cd c'"
  by (simp add: decideCondition_def)

lemma MatchRule_reads:
  assumes "\<And>cd. cd \<in> set (rule_Conditions r) \<Longrightarrow>
      Attribute c (cond_Attribute cd) = Attribute c' (cond_Attribute cd)"
  shows "MatchRule k (Some r) c ob = MatchRule k (Some r) c' ob"
proof -
  have same: "MatchCondition (Some cd) c = MatchCondition (Some cd) c'" if "cd \<in> set (rule_Conditions r)" for cd
    using decideCondition_reads [OF assms [OF that]] by (simp add: MatchCondition_eq)
  have "match_any ob k i c cs = match_any ob k i c' cs" "match_all ob k i c cs = match_all ob k i c' cs"
    if "set cs \<subseteq> set (rule_Conditions r)" for i cs
    using that by (induction cs) (simp_all add: same split: prod.splits)
  then show ?thesis by (simp add: MatchRule_def)
qed

lemma eval_rules_reads:
  assumes "\<And>r cd. r \<in> set rs \<Longrightarrow> cd \<in> set (rule_Conditions r) \<Longrightarrow>
      Attribute c (cond_Attribute cd) = Attribute c' (cond_Attribute cd)"
  shows "eval_rules e k c rs = eval_rules e k c' rs"
  using assms
proof (induction rs)
  case (Cons r rs)
  have "MatchRule k (Some r) c (ev_observer e) = MatchRule k (Some r) c' (ev_observer e)"
    by (rule MatchRule_reads) (use Cons.prems in auto)
  moreover have "eval_rules e k c rs = eval_rules e k c' rs"
    by (rule Cons.IH) (use Cons.prems in auto)
  ultimately show ?case by (simp split: prod.splits option.splits)
qed simp

text \<open>An evaluation reads nothing of the context but the attributes its flag names: two contexts that
  agree on the attributes of the flag's conditions and on its bucketing subject get the same
  result and the same observer calls, under any hasher and observer.\<close>

theorem Evaluate_reads_only:
  assumes "ev_strategy e = (\<lambda>f c. Some (NamespaceStrategy_Key f c))"
    and "snap_Flag s key = Some (Some f, True)"
    and "\<forall>a \<in> reads f. Attribute c a = Attribute c' a"
  shows "Evaluate e (Some s) key c want cd = Evaluate e (Some s) key c' want cd"
proof -
  have "eval_rules e (flag_Key f) c (flag_Rules f) = eval_rules e (flag_Key f) c' (flag_Rules f)"
    by (rule eval_rules_reads) (use assms(3) in \<open>auto simp: reads_def\<close>)
  moreover have "NamespaceStrategy_Key (Some f) c = NamespaceStrategy_Key (Some f) c'"
    using assms(3) by (simp add: NamespaceStrategy_Key_def reads_def)
  moreover from this have "eval_rollout e f ro c gen cd = eval_rollout e f ro c' gen cd" for ro gen
    by (simp add: eval_rollout_def assms(1))
  ultimately have "eval_enabled e f c gen cd = eval_enabled e f c' gen cd" for gen
    by (simp add: eval_enabled_def split: prod.splits option.splits)
  then have "eval_at e s gen key c want cd = eval_at e s gen key c' want cd" for gen
    using assms(2) by (simp add: eval_at_def)
  then show ?thesis by (simp add: Evaluate_def split: option.splits)
qed

theorem Evaluate_reads_only_witness:
  "Evaluate (core_New (\<lambda>_. 0) []) (Some (one_flag 3 (bool_flag ''f'' True [] (Some (bool_rollout 10))))) ''f''
     (user_ctx ''u'') TypeBool (VBool True)
   = Evaluate (core_New (\<lambda>_. 0) []) (Some (one_flag 3 (bool_flag ''f'' True [] (Some (bool_rollout 10))))) ''f''
     ((user_ctx ''u'')\<lparr>ctx_Attributes := [(''plan'', VString ''pro'')]\<rparr>) TypeBool (VBool True)"
  by (rule Evaluate_reads_only [of _ _ _ "bool_flag ''f'' True [] (Some (bool_rollout 10))"])
    (simp_all add: core_New_def one_flag_def example_defs reads_def key_subject_attr_def
      defaultBucketSubject_def Attribute_def gm_get_def)

end
