(* ===== verification/Config_Merge.thy ===== *)
theory Config_Merge
  imports Config_Layer Core_Evaluator
begin

text \<open>
  The deep merge of \<^verbatim>\<open>internal/config/merge.go\<close>: base, then the environment's overlay, then the
  ops override, with the layer that supplied each field recorded as it goes. The function is
  written as the steps of the source, each a change of the flag and its provenance.
\<close>

section \<open>Provenance\<close>

abbreviation FieldKey :: string where "FieldKey \<equiv> ''key''"
abbreviation FieldType :: string where "FieldType \<equiv> ''type''"
abbreviation FieldEnabled :: string where "FieldEnabled \<equiv> ''enabled''"
abbreviation FieldDefaultValue :: string where "FieldDefaultValue \<equiv> ''default_value''"
abbreviation FieldOffValue :: string where "FieldOffValue \<equiv> ''off_value''"
abbreviation FieldRules :: string where "FieldRules \<equiv> ''rules''"
abbreviation FieldRulesMode :: string where "FieldRulesMode \<equiv> ''rules_mode''"
abbreviation FieldEvaluationOrder :: string where "FieldEvaluationOrder \<equiv> ''evaluation_order''"
abbreviation FieldRollout :: string where "FieldRollout \<equiv> ''rollout''"
abbreviation FieldRolloutBasisPoints :: string where "FieldRolloutBasisPoints \<equiv> ''rollout.basis_points''"
abbreviation FieldRolloutBucketNamespace :: string where
  "FieldRolloutBucketNamespace \<equiv> ''rollout.bucket_namespace''"
abbreviation FieldRolloutBucketBy :: string where "FieldRolloutBucketBy \<equiv> ''rollout.bucket_by''"
abbreviation FieldRolloutOnValue :: string where "FieldRolloutOnValue \<equiv> ''rollout.on_value''"
abbreviation FieldRolloutOffValue :: string where "FieldRolloutOffValue \<equiv> ''rollout.off_value''"
abbreviation FieldExpiresAt :: string where "FieldExpiresAt \<equiv> ''expires_at''"
abbreviation FieldReason :: string where "FieldReason \<equiv> ''reason''"
abbreviation FieldOwner :: string where "FieldOwner \<equiv> ''owner''"

record FlagProvenance =
  fp_Key :: string
  fp_Fields :: "(string, LayerID) gomap"

definition fp_Layer :: "FlagProvenance \<Rightarrow> string \<Rightarrow> LayerID" where
  "fp_Layer p field = (case gm_get (fp_Fields p) field of None \<Rightarrow> LayerNone | Some l \<Rightarrow> l)"

definition fp_Clone :: "FlagProvenance \<Rightarrow> FlagProvenance" where
  "fp_Clone p = \<lparr>fp_Key = fp_Key p, fp_Fields = foldl (\<lambda>m (k, v). gm_set k v m) [] (fp_Fields p)\<rparr>"

definition fp_set :: "string \<Rightarrow> LayerID \<Rightarrow> FlagProvenance \<Rightarrow> FlagProvenance" where
  "fp_set field l p = p\<lparr>fp_Fields := gm_set field l (fp_Fields p)\<rparr>"

definition fp_delete :: "string \<Rightarrow> FlagProvenance \<Rightarrow> FlagProvenance" where
  "fp_delete field p = p\<lparr>fp_Fields := gm_del field (fp_Fields p)\<rparr>"

definition set_all :: "string list \<Rightarrow> LayerID \<Rightarrow> FlagProvenance \<Rightarrow> FlagProvenance" where
  "set_all names l p = foldl (\<lambda>p f. fp_set f l p) p names"

lemma fp_Layer_set [simp]: "fp_Layer (fp_set f l p) g = (if g = f then l else fp_Layer p g)"
  by (simp add: fp_Layer_def fp_set_def)

lemma fp_Layer_delete [simp]: "fp_Layer (fp_delete f p) g = (if g = f then LayerNone else fp_Layer p g)"
  by (simp add: fp_Layer_def fp_delete_def)

lemma fp_Layer_set_all [simp]:
  "fp_Layer (set_all fs l p) g = (if g \<in> set fs then l else fp_Layer p g)"
  unfolding set_all_def by (induction fs arbitrary: p) auto

lemma fp_Key_simps [simp]:
  "fp_Key (fp_set f l p) = fp_Key p" "fp_Key (fp_delete f p) = fp_Key p"
  by (simp_all add: fp_set_def fp_delete_def)

lemma fp_Clone_Layer:
  assumes "gm_ok (fp_Fields p)"
  shows "fp_Layer (fp_Clone p) g = fp_Layer p g"
proof -
  have "gm_get (foldl (\<lambda>m (k, v). gm_set k v m) m0 ps) g =
      (case map_of ps g of None \<Rightarrow> gm_get m0 g | Some v \<Rightarrow> Some v)"
    if "distinct (map fst ps)" for ps :: "(string \<times> LayerID) list" and m0
    using that
  proof (induction ps arbitrary: m0)
    case (Cons p ps)
    obtain a b where p: "p = (a, b)" by (cases p)
    then have "map_of ps a = None" using Cons.prems by (simp add: map_of_eq_None_iff)
    then show ?case using Cons by (cases "g = a") (simp_all add: p split: option.split)
  qed simp
  from this [of "fp_Fields p" "[]"] show ?thesis
    using assms by (simp add: fp_Layer_def fp_Clone_def gm_ok_def strict_sorted_iff gm_get_def
        split: option.splits)
qed

section \<open>The merge\<close>

definition toCore_condition :: "WireCondition \<Rightarrow> Condition" where
  "toCore_condition c =
     \<lparr>cond_Attribute = wc_Attribute c, cond_Op = fst (ParseOperator (wc_Op c)),
      cond_Values = wc_Values c, cond_Negate = wc_Negate c\<rparr>"

definition wireRulesToCore :: "WireRule list \<Rightarrow> Rule list" where
  "wireRulesToCore rs =
     map (\<lambda>r. \<lparr>rule_ID = wr_ID r, rule_Conditions = map toCore_condition (wr_Conditions r),
               rule_Combiner = fst (parseLogicOp (wr_Combiner r)), rule_Value = wr_Value r\<rparr>) rs"

type_synonym merging = "Flag \<times> FlagProvenance"

definition rolloutFields :: "string list" where
  "rolloutFields = [FieldRolloutBasisPoints, FieldRolloutBucketNamespace, FieldRolloutBucketBy,
     FieldRolloutOnValue, FieldRolloutOffValue]"

definition merge_base :: "BaseFlag \<Rightarrow> merging" where
  "merge_base base =
     (let out = \<lparr>flag_Key = bf_Key base, flag_Type = fst (ParseValueType (bf_Type base)),
            flag_Enabled = bf_Enabled base, flag_DefaultValue = bf_DefaultValue base,
            flag_OffValue = bf_OffValue base, flag_Rules = wireRulesToCore (bf_Rules base),
            flag_Rollout = toCore (bf_Rollout base),
            flag_EvaluationOrder = fst (parseEvaluationOrder (bf_EvaluationOrder base))\<rparr>;
          out = (if Value_IsUnknown (flag_OffValue out)
                 then out\<lparr>flag_OffValue := bf_DefaultValue base\<rparr> else out);
          prov = set_all [FieldKey, FieldType, FieldEnabled, FieldDefaultValue, FieldOffValue,
                   FieldRules, FieldEvaluationOrder] LayerBase \<lparr>fp_Key = bf_Key base, fp_Fields = []\<rparr>;
          prov = (if flag_Rollout out \<noteq> None then set_all (FieldRollout # rolloutFields) LayerBase prov
                  else prov)
      in (out, prov))"

text \<open>\<^verbatim>\<open>if v, ok := x.Get(); ok { .. }\<close>, with the field's new provenance.\<close>

definition override :: "LayerID \<Rightarrow> string \<Rightarrow> ('a \<Rightarrow> Flag \<Rightarrow> Flag) \<Rightarrow> 'a Opt \<Rightarrow> merging \<Rightarrow> merging" where
  "override l field upd x fp =
     (case Opt_Get x of None \<Rightarrow> fp | Some v \<Rightarrow> (upd v (fst fp), fp_set field l (snd fp)))"

definition merge_order :: "string Opt \<Rightarrow> merging \<Rightarrow> merging" where
  "merge_order x fp =
     (case Opt_Get x of
        None \<Rightarrow> fp
      | Some v \<Rightarrow>
          (let (ord, ok) = parseEvaluationOrder v
           in if ok then ((fst fp)\<lparr>flag_EvaluationOrder := ord\<rparr>,
                          fp_set FieldEvaluationOrder LayerOverlay (snd fp))
              else fp))"

definition merge_rules :: "OverlayFlag \<Rightarrow> merging \<Rightarrow> merging" where
  "merge_rules ov fp =
     (if \<not> IsSet (of_Rules ov) then fp
      else (let incoming = (case of_Rules ov of OptVal rs \<Rightarrow> wireRulesToCore rs | _ \<Rightarrow> []);
                rules = (if OrElse (of_RulesMode ov) RuleModeReplace = RuleModeAppend
                         then flag_Rules (fst fp) @ incoming else incoming)
            in ((fst fp)\<lparr>flag_Rules := rules\<rparr>, fp_set FieldRules LayerOverlay (snd fp))))"

definition zero_rollout :: Rollout where
  "zero_rollout = \<lparr>roll_BasisPoints = 0, roll_BucketNamespace = [], roll_BucketBy = [],
     roll_OnValue = VUnset, roll_OffValue = VUnset\<rparr>"

text \<open>An update of the rollout in place, through the pointer.\<close>

definition on_rollout :: "('a \<Rightarrow> Rollout \<Rightarrow> Rollout) \<Rightarrow> 'a \<Rightarrow> Flag \<Rightarrow> Flag" where
  "on_rollout upd v f = f\<lparr>flag_Rollout := map_option (upd v) (flag_Rollout f)\<rparr>"

definition merge_rollout :: "OverlayRollout Opt \<Rightarrow> merging \<Rightarrow> merging" where
  "merge_rollout x fp =
     (case x of
        OptAbsent \<Rightarrow> fp
      | OptNull \<Rightarrow>
          ((fst fp)\<lparr>flag_Rollout := None\<rparr>,
           foldl (\<lambda>p f. fp_delete f p) (fp_set FieldRollout LayerOverlay (snd fp)) rolloutFields)
      | OptVal r \<Rightarrow>
          (let fp = (if flag_Rollout (fst fp) = None
                     then ((fst fp)\<lparr>flag_Rollout := Some zero_rollout\<rparr>,
                           set_all (FieldRollout # rolloutFields) LayerOverlay (snd fp))
                     else fp)
           in override LayerOverlay FieldRolloutOffValue (on_rollout (\<lambda>v r. r\<lparr>roll_OffValue := v\<rparr>)) (or_OffValue r)
              (override LayerOverlay FieldRolloutOnValue (on_rollout (\<lambda>v r. r\<lparr>roll_OnValue := v\<rparr>)) (or_OnValue r)
              (override LayerOverlay FieldRolloutBucketBy (on_rollout (\<lambda>v r. r\<lparr>roll_BucketBy := v\<rparr>)) (or_BucketBy r)
              (override LayerOverlay FieldRolloutBucketNamespace
                 (on_rollout (\<lambda>v r. r\<lparr>roll_BucketNamespace := v\<rparr>)) (or_BucketNamespace r)
              (override LayerOverlay FieldRolloutBasisPoints
                 (on_rollout (\<lambda>v r. r\<lparr>roll_BasisPoints := v\<rparr>)) (or_BasisPoints r) fp))))))"

definition merge_overlay :: "OverlayFlag option \<Rightarrow> merging \<Rightarrow> merging" where
  "merge_overlay ov fp =
     (case ov of
        None \<Rightarrow> fp
      | Some ov \<Rightarrow>
          merge_rollout (of_Rollout ov)
          (merge_rules ov
          (merge_order (of_EvaluationOrder ov)
          (override LayerOverlay FieldOffValue (\<lambda>v f. f\<lparr>flag_OffValue := v\<rparr>) (of_OffValue ov)
          (override LayerOverlay FieldDefaultValue (\<lambda>v f. f\<lparr>flag_DefaultValue := v\<rparr>) (of_DefaultValue ov)
          (override LayerOverlay FieldEnabled (\<lambda>v f. f\<lparr>flag_Enabled := v\<rparr>) (of_Enabled ov) fp))))))"

definition merge_ops :: "OpsOverride option \<Rightarrow> merging \<Rightarrow> merging" where
  "merge_ops ops fp =
     (case ops of
        None \<Rightarrow> fp
      | Some x \<Rightarrow>
          (let fp = override LayerOps FieldEnabled (\<lambda>v f. f\<lparr>flag_Enabled := v\<rparr>) (op_Enabled x) fp
           in if flag_Rollout (fst fp) \<noteq> None
              then override LayerOps FieldRolloutBasisPoints
                     (on_rollout (\<lambda>v r. r\<lparr>roll_BasisPoints := v\<rparr>)) (op_BasisPoints x) fp
              else fp))"

definition mergeFlag :: "BaseFlag \<Rightarrow> OverlayFlag option \<Rightarrow> OpsOverride option \<Rightarrow> merging" where
  "mergeFlag base ov ops = merge_ops ops (merge_overlay ov (merge_base base))"

text \<open>\<^verbatim>\<open>cloneFlag\<close>, the copy a quarantined flag is carried with.\<close>

definition cloneFlag :: "Flag option \<Rightarrow> Flag option" where
  "cloneFlag f =
     (case f of
        None \<Rightarrow> None
      | Some f \<Rightarrow>
          Some (f\<lparr>flag_Rules := map (\<lambda>r. r\<lparr>rule_Conditions :=
                     map (\<lambda>c. c\<lparr>cond_Values := [] @ cond_Values c\<rparr>) (rule_Conditions r)\<rparr>) (flag_Rules f),
                  flag_Rollout := (case flag_Rollout f of None \<Rightarrow> None | Some r \<Rightarrow> Some r)\<rparr>))"

lemma cloneFlag_id [simp]: "cloneFlag f = f"
proof (cases f)
  case (Some g)
  then show ?thesis by (cases "flag_Rollout g") (simp_all add: cloneFlag_def map_idI)
qed (simp add: cloneFlag_def)

section \<open>What each step touches\<close>

lemma fst_override: "fst (override l f upd x fp) = (case Opt_Get x of None \<Rightarrow> fst fp | Some v \<Rightarrow> upd v (fst fp))"
  by (simp add: override_def split: option.split)

lemma layer_override:
  "fp_Layer (snd (override l f upd x fp)) g = (if g = f \<and> IsValue x then l else fp_Layer (snd fp) g)"
  by (cases x) (simp_all add: override_def)

lemma on_rollout_sel [simp]:
  "flag_Key (on_rollout u v f) = flag_Key f" "flag_Type (on_rollout u v f) = flag_Type f"
  "flag_Enabled (on_rollout u v f) = flag_Enabled f"
  "flag_DefaultValue (on_rollout u v f) = flag_DefaultValue f"
  "flag_OffValue (on_rollout u v f) = flag_OffValue f" "flag_Rules (on_rollout u v f) = flag_Rules f"
  "flag_EvaluationOrder (on_rollout u v f) = flag_EvaluationOrder f"
  "flag_Rollout (on_rollout u v f) = map_option (u v) (flag_Rollout f)"
  by (simp_all add: on_rollout_def)

text \<open>A selector that ignores the rollout is not changed by merging a rollout.\<close>

lemma override_frame:
  assumes "\<And>v f. sel (upd v f) = sel f"
  shows "sel (fst (override l field upd x fp)) = sel (fst fp)"
  using assms by (simp add: fst_override split: option.split)

lemma merge_rollout_frame:
  assumes "\<And>f ro. sel (f\<lparr>flag_Rollout := ro\<rparr>) = sel f"
  shows "sel (fst (merge_rollout x fp)) = sel (fst fp)"
  by (cases x) (simp_all add: merge_rollout_def Let_def override_frame on_rollout_def assms)

lemma delete_fields_Layer:
  "fp_Layer (foldl (\<lambda>p f. fp_delete f p) p fs) g = (if g \<in> set fs then LayerNone else fp_Layer p g)"
  by (induction fs arbitrary: p) auto

lemma merge_rollout_Layer_frame:
  "g \<notin> set (FieldRollout # rolloutFields) \<Longrightarrow>
     fp_Layer (snd (merge_rollout x fp)) g = fp_Layer (snd fp) g"
  by (cases x) (auto simp: merge_rollout_def Let_def layer_override delete_fields_Layer rolloutFields_def)

lemma merge_base_sel [simp]:
  "flag_Key (fst (merge_base b)) = bf_Key b"
  "flag_Type (fst (merge_base b)) = fst (ParseValueType (bf_Type b))"
  "flag_Enabled (fst (merge_base b)) = bf_Enabled b"
  "flag_DefaultValue (fst (merge_base b)) = bf_DefaultValue b"
  "flag_OffValue (fst (merge_base b)) = (if bf_OffValue b = VUnset then bf_DefaultValue b else bf_OffValue b)"
  "flag_Rules (fst (merge_base b)) = wireRulesToCore (bf_Rules b)"
  "flag_Rollout (fst (merge_base b)) = toCore (bf_Rollout b)"
  "flag_EvaluationOrder (fst (merge_base b)) = fst (parseEvaluationOrder (bf_EvaluationOrder b))"
  by (simp_all add: merge_base_def Let_def)

lemma merge_base_Layer:
  "fp_Layer (snd (merge_base b)) g =
     (if g \<in> {FieldKey, FieldType, FieldEnabled, FieldDefaultValue, FieldOffValue, FieldRules,
              FieldEvaluationOrder} \<or> bf_Rollout b \<noteq> None \<and> g \<in> set (FieldRollout # rolloutFields)
      then LayerBase else LayerNone)"
  by (auto simp: merge_base_def Let_def toCore_def fp_Layer_def [of "\<lparr>fp_Key = _, fp_Fields = []\<rparr>"]
      split: option.splits)

lemma merge_order_frame:
  "(\<And>f v. sel (f\<lparr>flag_EvaluationOrder := v\<rparr>) = sel f) \<Longrightarrow> sel (fst (merge_order x fp)) = sel (fst fp)"
  by (auto simp: merge_order_def split: option.split prod.split)

lemma merge_order_Layer:
  "g \<noteq> FieldEvaluationOrder \<Longrightarrow> fp_Layer (snd (merge_order x fp)) g = fp_Layer (snd fp) g"
  by (auto simp: merge_order_def split: option.split prod.split)

lemma merge_rules_frame:
  "(\<And>f v. sel (f\<lparr>flag_Rules := v\<rparr>) = sel f) \<Longrightarrow> sel (fst (merge_rules ov fp)) = sel (fst fp)"
  by (simp add: merge_rules_def Let_def)

lemma merge_rules_Layer:
  "g \<noteq> FieldRules \<Longrightarrow> fp_Layer (snd (merge_rules ov fp)) g = fp_Layer (snd fp) g"
  by (simp add: merge_rules_def Let_def)

section \<open>The resolved fields\<close>

text \<open>What a layer that may be missing supplies for a field.\<close>

definition supplied :: "('r \<Rightarrow> 'a Opt) \<Rightarrow> 'r option \<Rightarrow> 'a Opt" where
  "supplied field r = (case r of None \<Rightarrow> OptAbsent | Some r \<Rightarrow> field r)"

text \<open>The field policy of the merge: the highest layer that supplies the field wins, and the value it starts from
  counts as the given layer's.\<close>

definition highest_from :: "LayerID \<Rightarrow> 'a Opt \<Rightarrow> 'a Opt \<Rightarrow> 'a \<Rightarrow> 'a \<times> LayerID" where
  "highest_from l ops ov start =
     (case Opt_Get ops of
        Some v \<Rightarrow> (v, LayerOps)
      | None \<Rightarrow> (case Opt_Get ov of Some v \<Rightarrow> (v, LayerOverlay) | None \<Rightarrow> (start, l)))"

lemma fst_merge_ops_rollout:
  "flag_Rollout (fst (merge_ops ops fp)) =
     map_option (\<lambda>r. r\<lparr>roll_BasisPoints := OrElse (supplied op_BasisPoints ops) (roll_BasisPoints r)\<rparr>)
       (flag_Rollout (fst fp))"
proof (cases ops)
  case (Some x)
  then show ?thesis
    by (cases "flag_Rollout (fst fp)"; cases "op_Enabled x"; cases "op_BasisPoints x")
      (simp_all add: merge_ops_def supplied_def Let_def fst_override)
qed (simp add: merge_ops_def supplied_def option.map_ident)

lemma merge_ops_frame:
  assumes "\<And>f v. sel (f\<lparr>flag_Enabled := v\<rparr>) = sel f" and "\<And>f v. sel (f\<lparr>flag_Rollout := v\<rparr>) = sel f"
  shows "sel (fst (merge_ops ops fp)) = sel (fst fp)"
  by (cases ops) (simp_all add: merge_ops_def Let_def override_frame assms on_rollout_def)

lemma merge_ops_Layer:
  "g \<noteq> FieldEnabled \<Longrightarrow> g \<noteq> FieldRolloutBasisPoints \<Longrightarrow>
     fp_Layer (snd (merge_ops ops fp)) g = fp_Layer (snd fp) g"
  by (cases ops) (simp_all add: merge_ops_def Let_def layer_override)

lemma merge_overlay_frame:
  assumes "\<And>f v. sel (f\<lparr>flag_Enabled := v\<rparr>) = sel f" and "\<And>f v. sel (f\<lparr>flag_DefaultValue := v\<rparr>) = sel f"
    and "\<And>f v. sel (f\<lparr>flag_OffValue := v\<rparr>) = sel f" and "\<And>f v. sel (f\<lparr>flag_EvaluationOrder := v\<rparr>) = sel f"
    and "\<And>f v. sel (f\<lparr>flag_Rules := v\<rparr>) = sel f" and "\<And>f v. sel (f\<lparr>flag_Rollout := v\<rparr>) = sel f"
  shows "sel (fst (merge_overlay ov fp)) = sel (fst fp)"
  by (cases ov)
    (simp_all add: merge_overlay_def override_frame merge_rollout_frame merge_rules_frame
      merge_order_frame assms)

lemma merge_overlay_enabled:
  "flag_Enabled (fst (merge_overlay ov fp)) = OrElse (supplied of_Enabled ov) (flag_Enabled (fst fp))"
  "fp_Layer (snd (merge_overlay ov fp)) FieldEnabled =
     (if IsValue (supplied of_Enabled ov) then LayerOverlay else fp_Layer (snd fp) FieldEnabled)"
  by (cases ov; simp add: merge_overlay_def supplied_def override_frame merge_rollout_frame
      merge_rules_frame merge_order_frame fst_override OrElse_def merge_rollout_Layer_frame
      merge_rules_Layer merge_order_Layer layer_override rolloutFields_def split: option.split)+

lemma merge_overlay_default:
  "flag_DefaultValue (fst (merge_overlay ov fp)) =
     OrElse (supplied of_DefaultValue ov) (flag_DefaultValue (fst fp))"
  "fp_Layer (snd (merge_overlay ov fp)) FieldDefaultValue =
     (if IsValue (supplied of_DefaultValue ov) then LayerOverlay else fp_Layer (snd fp) FieldDefaultValue)"
  by (cases ov; simp add: merge_overlay_def supplied_def override_frame merge_rollout_frame
      merge_rules_frame merge_order_frame fst_override OrElse_def merge_rollout_Layer_frame
      merge_rules_Layer merge_order_Layer layer_override rolloutFields_def split: option.split)+

lemma merge_overlay_off:
  "flag_OffValue (fst (merge_overlay ov fp)) =
     OrElse (supplied of_OffValue ov) (flag_OffValue (fst fp))"
  "fp_Layer (snd (merge_overlay ov fp)) FieldOffValue =
     (if IsValue (supplied of_OffValue ov) then LayerOverlay else fp_Layer (snd fp) FieldOffValue)"
  by (cases ov; simp add: merge_overlay_def supplied_def override_frame merge_rollout_frame
      merge_rules_frame merge_order_frame fst_override OrElse_def merge_rollout_Layer_frame
      merge_rules_Layer merge_order_Layer layer_override rolloutFields_def split: option.split)+

lemma highest_OrElse:
  "highest_from l ops ov start =
     (OrElse ops (OrElse ov start),
      if IsValue ops then LayerOps else if IsValue ov then LayerOverlay else l)"
  by (cases ops; cases ov) (simp_all add: highest_from_def)

lemma merge_ops_enabled:
  "flag_Enabled (fst (merge_ops ops fp)) = OrElse (supplied op_Enabled ops) (flag_Enabled (fst fp))"
  "fp_Layer (snd (merge_ops ops fp)) FieldEnabled =
     (if IsValue (supplied op_Enabled ops) then LayerOps else fp_Layer (snd fp) FieldEnabled)"
  by (cases ops; simp add: merge_ops_def supplied_def Let_def override_frame fst_override OrElse_def
      layer_override split: option.split)+

text \<open>The overlay's rule list, and the list it makes of the base's.\<close>

definition incoming_rules :: "OverlayFlag \<Rightarrow> Rule list" where
  "incoming_rules ov = (case of_Rules ov of OptVal rs \<Rightarrow> wireRulesToCore rs | _ \<Rightarrow> [])"

definition resolved_rules :: "Rule list \<Rightarrow> OverlayFlag option \<Rightarrow> Rule list" where
  "resolved_rules rules ov =
     (case ov of
        None \<Rightarrow> rules
      | Some ov \<Rightarrow>
          if of_Rules ov = OptAbsent then rules
          else if of_RulesMode ov = OptVal RuleModeAppend then rules @ incoming_rules ov
          else incoming_rules ov)"

lemma OrElse_append: "OrElse m RuleModeReplace = RuleModeAppend \<longleftrightarrow> m = OptVal RuleModeAppend"
  by (cases m) (simp_all add: RuleModeReplace_def RuleModeAppend_def)

lemma merge_overlay_rules:
  "flag_Rules (fst (merge_overlay ov fp)) = resolved_rules (flag_Rules (fst fp)) ov"
  by (cases ov) (simp_all add: merge_overlay_def resolved_rules_def incoming_rules_def merge_rollout_frame
      merge_rules_def merge_order_frame override_frame IsSet_def OrElse_append Let_def)

text \<open>The sparse patch of a rollout: every field the overlay does not supply is kept.\<close>

definition patch_rollout :: "OverlayRollout \<Rightarrow> Rollout \<Rightarrow> Rollout" where
  "patch_rollout p r =
     \<lparr>roll_BasisPoints = OrElse (or_BasisPoints p) (roll_BasisPoints r),
      roll_BucketNamespace = OrElse (or_BucketNamespace p) (roll_BucketNamespace r),
      roll_BucketBy = OrElse (or_BucketBy p) (roll_BucketBy r),
      roll_OnValue = OrElse (or_OnValue p) (roll_OnValue r),
      roll_OffValue = OrElse (or_OffValue p) (roll_OffValue r)\<rparr>"

definition resolved_rollout :: "Rollout option \<Rightarrow> OverlayFlag option \<Rightarrow> OpsOverride option \<Rightarrow> Rollout option" where
  "resolved_rollout base ov ops =
     map_option (\<lambda>r. r\<lparr>roll_BasisPoints := OrElse (supplied op_BasisPoints ops) (roll_BasisPoints r)\<rparr>)
       (case supplied of_Rollout ov of
          OptAbsent \<Rightarrow> base
        | OptNull \<Rightarrow> None
        | OptVal p \<Rightarrow> Some (patch_rollout p (case base of None \<Rightarrow> zero_rollout | Some r \<Rightarrow> r)))"

lemma override_rollout:
  "flag_Rollout (fst (override l g (on_rollout u) x fp)) =
     map_option (case Opt_Get x of None \<Rightarrow> id | Some v \<Rightarrow> u v) (flag_Rollout (fst fp))"
  by (simp add: fst_override option.map_id split: option.split)

lemma merge_rollout_patch:
  "flag_Rollout (fst (merge_rollout (OptVal p) fp)) =
     Some (patch_rollout p (case flag_Rollout (fst fp) of None \<Rightarrow> zero_rollout | Some r \<Rightarrow> r))"
  by (cases "flag_Rollout (fst fp)")
    (simp_all add: merge_rollout_def override_rollout patch_rollout_def OrElse_def split: option.split)

lemma merge_overlay_rollout:
  "flag_Rollout (fst (merge_overlay ov fp)) =
     (case supplied of_Rollout ov of
        OptAbsent \<Rightarrow> flag_Rollout (fst fp)
      | OptNull \<Rightarrow> None
      | OptVal p \<Rightarrow> Some (patch_rollout p (case flag_Rollout (fst fp) of None \<Rightarrow> zero_rollout | Some r \<Rightarrow> r)))"
proof (cases ov)
  case (Some x)
  then show ?thesis
    by (cases "of_Rollout x")
      (simp_all add: merge_overlay_def supplied_def merge_rollout_patch merge_rules_frame merge_order_frame
        override_frame, simp_all add: merge_rollout_def merge_rules_frame merge_order_frame override_frame)
qed (simp add: merge_overlay_def supplied_def)

text \<open>The evaluation order: the overlay's counts only when it parses.\<close>

definition known_order :: "string Opt \<Rightarrow> EvaluationOrder Opt" where
  "known_order x =
     (case x of
        OptVal s \<Rightarrow> if snd (parseEvaluationOrder s) then OptVal (fst (parseEvaluationOrder s)) else OptAbsent
      | _ \<Rightarrow> OptAbsent)"

lemma merge_order_result:
  "flag_EvaluationOrder (fst (merge_order x fp)) = OrElse (known_order x) (flag_EvaluationOrder (fst fp))"
  "fp_Layer (snd (merge_order x fp)) FieldEvaluationOrder =
     (if IsValue (known_order x) then LayerOverlay else fp_Layer (snd fp) FieldEvaluationOrder)"
  by (cases x; auto simp: merge_order_def known_order_def OrElse_def split: prod.split)+

lemma merge_overlay_order:
  "flag_EvaluationOrder (fst (merge_overlay ov fp)) =
     OrElse (known_order (supplied of_EvaluationOrder ov)) (flag_EvaluationOrder (fst fp))"
  "fp_Layer (snd (merge_overlay ov fp)) FieldEvaluationOrder =
     (if IsValue (known_order (supplied of_EvaluationOrder ov)) then LayerOverlay
      else fp_Layer (snd fp) FieldEvaluationOrder)"
  by (cases ov; simp add: merge_overlay_def supplied_def override_frame merge_rollout_frame known_order_def
      merge_rules_frame merge_order_result OrElse_def merge_rollout_Layer_frame
      merge_rules_Layer layer_override rolloutFields_def)+

lemma merge_overlay_rules_Layer:
  "fp_Layer (snd (merge_overlay ov fp)) FieldRules =
     (if IsSet (supplied of_Rules ov) then LayerOverlay else fp_Layer (snd fp) FieldRules)"
  by (cases ov) (simp_all add: merge_overlay_def supplied_def merge_rollout_Layer_frame rolloutFields_def
      merge_rules_def Let_def merge_order_Layer layer_override IsSet_def)

definition rollout_start :: "Rollout option \<Rightarrow> OverlayFlag option \<Rightarrow> (Rollout \<times> LayerID) option" where
  "rollout_start base ov =
     (case supplied of_Rollout ov of
        OptNull \<Rightarrow> None
      | OptAbsent \<Rightarrow> map_option (\<lambda>r. (r, LayerBase)) base
      | OptVal _ \<Rightarrow> Some (case base of Some r \<Rightarrow> (r, LayerBase) | None \<Rightarrow> (zero_rollout, LayerOverlay)))"

text \<open>What the overlay supplies for one field of the rollout.\<close>

definition patched :: "(OverlayRollout \<Rightarrow> 'a Opt) \<Rightarrow> OverlayFlag option \<Rightarrow> 'a Opt" where
  "patched field ov = (case supplied of_Rollout ov of OptVal p \<Rightarrow> field p | _ \<Rightarrow> OptAbsent)"

text \<open>The policy of the rollout, value and attribution of each of its fields.\<close>

definition rollout_policy ::
  "Rollout option \<Rightarrow> OverlayFlag option \<Rightarrow> OpsOverride option \<Rightarrow> Rollout option \<Rightarrow> (string \<Rightarrow> LayerID) \<Rightarrow> bool" where
  "rollout_policy base ov ops resolved layer =
     (case rollout_start base ov of
        None \<Rightarrow>
          resolved = None \<and> list_all (\<lambda>g. layer g = LayerNone) rolloutFields
          \<and> layer FieldRollout = (if IsSet (supplied of_Rollout ov) then LayerOverlay else LayerNone)
      | Some (r0, l) \<Rightarrow>
          (case resolved of
             None \<Rightarrow> False
           | Some r \<Rightarrow>
               layer FieldRollout = l
               \<and> (roll_BasisPoints r, layer FieldRolloutBasisPoints)
                   = highest_from l (supplied op_BasisPoints ops) (patched or_BasisPoints ov) (roll_BasisPoints r0)
               \<and> (roll_BucketNamespace r, layer FieldRolloutBucketNamespace)
                   = highest_from l OptAbsent (patched or_BucketNamespace ov) (roll_BucketNamespace r0)
               \<and> (roll_BucketBy r, layer FieldRolloutBucketBy)
                   = highest_from l OptAbsent (patched or_BucketBy ov) (roll_BucketBy r0)
               \<and> (roll_OnValue r, layer FieldRolloutOnValue)
                   = highest_from l OptAbsent (patched or_OnValue ov) (roll_OnValue r0)
               \<and> (roll_OffValue r, layer FieldRolloutOffValue)
                   = highest_from l OptAbsent (patched or_OffValue ov) (roll_OffValue r0)))"


lemma merge_overlay_policy:
  assumes "\<And>g. g \<in> set (FieldRollout # rolloutFields) \<Longrightarrow>
      fp_Layer (snd fp) g = (if flag_Rollout (fst fp) = None then LayerNone else LayerBase)"
  shows "rollout_policy (flag_Rollout (fst fp)) ov None (flag_Rollout (fst (merge_overlay ov fp)))
     (fp_Layer (snd (merge_overlay ov fp)))"
proof (cases ov)
  case None
  then show ?thesis
    using assms by (cases "flag_Rollout (fst fp)")
      (auto simp: rollout_policy_def rollout_start_def supplied_def merge_overlay_def patched_def highest_OrElse
        OrElse_def IsSet_def rolloutFields_def)
next
  case (Some x)
  show ?thesis
    unfolding merge_overlay_rollout
    using assms by (cases "flag_Rollout (fst fp)"; cases "of_Rollout x")
      (auto simp: Some rollout_policy_def rollout_start_def supplied_def merge_overlay_def patched_def highest_OrElse
        patch_rollout_def merge_rollout_def Let_def layer_override merge_rules_Layer merge_order_Layer
        merge_rules_frame merge_order_frame override_frame delete_fields_Layer
        OrElse_def IsSet_def rolloutFields_def)
qed

lemma merge_ops_policy:
  assumes "rollout_policy base ov None (flag_Rollout (fst fp)) (fp_Layer (snd fp))"
  shows "rollout_policy base ov ops (flag_Rollout (fst (merge_ops ops fp))) (fp_Layer (snd (merge_ops ops fp)))"
proof (cases ops)
  case None
  then show ?thesis using assms by (simp add: merge_ops_def)
next
  case (Some x)
  show ?thesis
    unfolding fst_merge_ops_rollout
    using assms
    by (cases "flag_Rollout (fst fp)"; cases "op_Enabled x"; cases "op_BasisPoints x"; cases "rollout_start base ov")
      (auto simp: Some rollout_policy_def supplied_def merge_ops_def Let_def layer_override fst_override
        highest_OrElse rolloutFields_def OrElse_def)
qed
lemma merge_overlay_identity:
  "fp_Layer (snd (merge_overlay ov fp)) FieldKey = fp_Layer (snd fp) FieldKey"
  "fp_Layer (snd (merge_overlay ov fp)) FieldType = fp_Layer (snd fp) FieldType"
  by (cases ov; simp add: merge_overlay_def merge_rollout_Layer_frame merge_rules_Layer merge_order_Layer
      layer_override rolloutFields_def)+

lemma merge_base_policy:
  "rollout_policy (toCore (bf_Rollout base)) ov None (flag_Rollout (fst (merge_overlay ov (merge_base base))))
     (fp_Layer (snd (merge_overlay ov (merge_base base))))"
proof -
  have "fp_Layer (snd (merge_base base)) g = (if flag_Rollout (fst (merge_base base)) = None then LayerNone else LayerBase)"
    if "g \<in> set (FieldRollout # rolloutFields)" for g
    using that by (auto simp: merge_base_Layer rolloutFields_def toCore_def split: option.splits)
  from merge_overlay_policy [OF this] show ?thesis by simp
qed

text \<open>C15. Layer precedence, field by field, values and provenance. In the flag that \<^verbatim>\<open>mergeFlag\<close> builds, the key
  and the type are the base's; \<^verbatim>\<open>enabled\<close> is the highest layer's that supplies it, ops over overlay over base;
  the default and off values and the evaluation order (when it parses) are the overlay's or else the base's, an
  unset base off value standing for the default; the rule list is the base's, replaced or extended as a whole;
  and of the rollout every field is the overlay's or else the base's (the zero rollout's where the base has none),
  the basis points ops' before both, an explicit null deleting it whole, so that no override can bring it back.
  The provenance names for every field the layer the value really came from, and no layer for the fields of a
  rollout there is not.\<close>

theorem mergeFlag_precedence:
  assumes "mergeFlag base ov ops = (f, prov)"
  shows "flag_Key f = bf_Key base \<and> flag_Type f = fst (ParseValueType (bf_Type base))
    \<and> fp_Layer prov FieldKey = LayerBase \<and> fp_Layer prov FieldType = LayerBase
    \<and> (flag_Enabled f, fp_Layer prov FieldEnabled)
        = highest_from LayerBase (supplied op_Enabled ops) (supplied of_Enabled ov) (bf_Enabled base)
    \<and> (flag_DefaultValue f, fp_Layer prov FieldDefaultValue)
        = highest_from LayerBase OptAbsent (supplied of_DefaultValue ov) (bf_DefaultValue base)
    \<and> (flag_OffValue f, fp_Layer prov FieldOffValue)
        = highest_from LayerBase OptAbsent (supplied of_OffValue ov)
            (if bf_OffValue base = VUnset then bf_DefaultValue base else bf_OffValue base)
    \<and> (flag_EvaluationOrder f, fp_Layer prov FieldEvaluationOrder)
        = highest_from LayerBase OptAbsent (known_order (supplied of_EvaluationOrder ov))
            (fst (parseEvaluationOrder (bf_EvaluationOrder base)))
    \<and> flag_Rules f = resolved_rules (wireRulesToCore (bf_Rules base)) ov
    \<and> fp_Layer prov FieldRules = (if IsSet (supplied of_Rules ov) then LayerOverlay else LayerBase)
    \<and> rollout_policy (toCore (bf_Rollout base)) ov ops (flag_Rollout f) (fp_Layer prov)"
proof -
  have f: "f = fst (mergeFlag base ov ops)" and p: "prov = snd (mergeFlag base ov ops)"
    using assms by simp_all
  show ?thesis
    unfolding f p mergeFlag_def
    by (intro conjI merge_ops_policy merge_base_policy;
        simp add: merge_ops_frame merge_overlay_frame merge_ops_enabled merge_overlay_enabled
          merge_overlay_default merge_overlay_off merge_overlay_order merge_overlay_rules
          merge_overlay_rules_Layer merge_overlay_identity merge_ops_Layer merge_base_Layer highest_OrElse OrElse_def)
qed

text \<open>Records for the examples: a Boolean base flag, and an overlay and an override that say nothing.\<close>

definition plain_base :: "string \<Rightarrow> WireRollout option \<Rightarrow> BaseFlag" where
  "plain_base k ro = \<lparr>bf_Key = k, bf_Type = ''bool'', bf_Owner = ''team'', bf_Description = [],
     bf_Enabled = True, bf_DefaultValue = VBool False, bf_OffValue = VUnset, bf_Rules = [],
     bf_Rollout = ro, bf_EvaluationOrder = [], bf_missing = []\<rparr>"

definition plain_rollout :: "int32 \<Rightarrow> WireRollout" where
  "plain_rollout bp = \<lparr>wro_BasisPoints = bp, wro_BucketNamespace = ''salt'', wro_BucketBy = [],
     wro_OnValue = VBool True, wro_OffValue = VBool False\<rparr>"

definition empty_overlay :: "string \<Rightarrow> OverlayFlag" where
  "empty_overlay k = \<lparr>of_Key = k, of_Type = OptAbsent, of_Enabled = OptAbsent,
     of_DefaultValue = OptAbsent, of_OffValue = OptAbsent, of_Rules = OptAbsent,
     of_RulesMode = OptAbsent, of_Rollout = OptAbsent, of_EvaluationOrder = OptAbsent\<rparr>"

definition empty_override :: "string \<Rightarrow> OpsOverride" where
  "empty_override k = \<lparr>op_Key = k, op_Enabled = OptAbsent, op_BasisPoints = OptAbsent,
     op_ExpiresAt = OptAbsent, op_Reason = ''incident'', op_Owner = ''oncall'', op_disallowed = []\<rparr>"

definition empty_or :: OverlayRollout where
  "empty_or = \<lparr>or_BasisPoints = OptAbsent, or_BucketNamespace = OptAbsent, or_BucketBy = OptAbsent,
     or_OnValue = OptAbsent, or_OffValue = OptAbsent\<rparr>"

lemmas layer_examples = plain_base_def plain_rollout_def empty_overlay_def empty_override_def empty_or_def

text \<open>A kill by ops, of the flag and of its rollout, survives the overlay that switches the flag on and ramps it up.\<close>

theorem mergeFlag_precedence_witness:
  "\<exists>f prov. mergeFlag (plain_base ''f'' (Some (plain_rollout 500)))
       (Some ((empty_overlay ''f'')\<lparr>of_Enabled := OptVal True,
          of_Rollout := OptVal (empty_or\<lparr>or_BasisPoints := OptVal 2500\<rparr>)\<rparr>))
       (Some ((empty_override ''f'')\<lparr>op_Enabled := OptVal False, op_BasisPoints := OptVal 0\<rparr>)) = (f, prov)
     \<and> \<not> flag_Enabled f \<and> fp_Layer prov FieldEnabled = LayerOps
     \<and> map_option roll_BasisPoints (flag_Rollout f) = Some 0 \<and> fp_Layer prov FieldRolloutBasisPoints = LayerOps
     \<and> map_option roll_BucketNamespace (flag_Rollout f) = Some ''salt''
     \<and> fp_Layer prov FieldRolloutBucketNamespace = LayerBase"
proof -
  obtain f prov where m: "mergeFlag (plain_base ''f'' (Some (plain_rollout 500)))
       (Some ((empty_overlay ''f'')\<lparr>of_Enabled := OptVal True,
          of_Rollout := OptVal (empty_or\<lparr>or_BasisPoints := OptVal 2500\<rparr>)\<rparr>))
       (Some ((empty_override ''f'')\<lparr>op_Enabled := OptVal False, op_BasisPoints := OptVal 0\<rparr>)) = (f, prov)"
    by fastforce
  from mergeFlag_precedence [OF this] have "\<not> flag_Enabled f \<and> fp_Layer prov FieldEnabled = LayerOps
     \<and> map_option roll_BasisPoints (flag_Rollout f) = Some 0 \<and> fp_Layer prov FieldRolloutBasisPoints = LayerOps
     \<and> map_option roll_BucketNamespace (flag_Rollout f) = Some ''salt''
     \<and> fp_Layer prov FieldRolloutBucketNamespace = LayerBase"
    by (simp add: highest_from_def supplied_def rollout_policy_def rollout_start_def patched_def toCore_def
        layer_examples split: option.splits)
  with m show ?thesis by blast
qed

lemma mergeFlag_Rollout:
  "flag_Rollout (fst (mergeFlag base ov ops)) = resolved_rollout (toCore (bf_Rollout base)) ov ops"
  by (cases "supplied of_Rollout ov")
    (simp_all add: mergeFlag_def resolved_rollout_def fst_merge_ops_rollout merge_overlay_rollout)

lemma mergeFlag_Key [simp]: "flag_Key (fst (mergeFlag base ov ops)) = bf_Key base"
  by (simp add: mergeFlag_def merge_ops_frame merge_overlay_frame)

lemma mergeFlag_Type [simp]: "flag_Type (fst (mergeFlag base ov ops)) = fst (ParseValueType (bf_Type base))"
  by (simp add: mergeFlag_def merge_ops_frame merge_overlay_frame)

text \<open>C16. A sparse rollout patch never re-buckets: the rollout is the base's with exactly the fields the overlay
  and the ops override supply, null deletes it; and when the base has a rollout and the overlay
  supplies neither the namespace nor the bucketing attribute, every context has the same bucketing key under
  the resolved flag as under the base alone.\<close>

theorem rollout_patch_keeps_buckets:
  "flag_Rollout (fst (mergeFlag base ov ops)) = resolved_rollout (toCore (bf_Rollout base)) ov ops
   \<and> (bf_Rollout base \<noteq> None \<longrightarrow>
      (case supplied of_Rollout ov of
         OptAbsent \<Rightarrow> True | OptNull \<Rightarrow> False
       | OptVal p \<Rightarrow> \<not> IsValue (or_BucketNamespace p) \<and> \<not> IsValue (or_BucketBy p)) \<longrightarrow>
      NamespaceStrategy_Key (Some (fst (mergeFlag base ov ops))) c =
        NamespaceStrategy_Key (Some (fst (mergeFlag base None None))) c)"
proof (intro conjI impI)
  let ?f = "fst (mergeFlag base ov ops)" and ?g = "fst (mergeFlag base None None)"
  assume base: "bf_Rollout base \<noteq> None" and ov: "case supplied of_Rollout ov of
         OptAbsent \<Rightarrow> True | OptNull \<Rightarrow> False
       | OptVal p \<Rightarrow> \<not> IsValue (or_BucketNamespace p) \<and> \<not> IsValue (or_BucketBy p)"
  obtain ro where ro: "toCore (bf_Rollout base) = Some ro" using base by (auto simp: toCore_def)
  have g: "flag_Rollout ?g = Some ro"
    by (simp add: mergeFlag_Rollout resolved_rollout_def ro supplied_def)
  obtain r where r: "flag_Rollout ?f = Some r" "roll_BucketNamespace r = roll_BucketNamespace ro"
      "roll_BucketBy r = roll_BucketBy ro"
    using ov by (cases "supplied of_Rollout ov")
      (auto simp: mergeFlag_Rollout resolved_rollout_def ro patch_rollout_def OrElse_novalue)
  have "key_namespace ?f = key_namespace ?g" "key_subject_attr ?f = key_subject_attr ?g"
    using r g by (simp_all add: key_namespace_def key_subject_attr_def)
  then show "NamespaceStrategy_Key (Some ?f) c = NamespaceStrategy_Key (Some ?g) c"
    unfolding NamespaceStrategy_Key_def by (simp only: option.case)
qed (rule mergeFlag_Rollout)

theorem rollout_patch_keeps_buckets_witness:
  "NamespaceStrategy_Key (Some (fst (mergeFlag (plain_base ''f'' (Some (plain_rollout 500)))
      (Some ((empty_overlay ''f'')\<lparr>of_Rollout := OptVal (empty_or\<lparr>or_BasisPoints := OptVal 2500\<rparr>)\<rparr>)) None)))
      (user_ctx ''u'')
   = NamespaceStrategy_Key (Some (fst (mergeFlag (plain_base ''f'' (Some (plain_rollout 500))) None None)))
      (user_ctx ''u'')"
  using rollout_patch_keeps_buckets [of "plain_base ''f'' (Some (plain_rollout 500))"
      "Some ((empty_overlay ''f'')\<lparr>of_Rollout := OptVal (empty_or\<lparr>or_BasisPoints := OptVal 2500\<rparr>)\<rparr>)" None
      "user_ctx ''u''"]
  by (simp add: supplied_def layer_examples)

end
