(* ===== verification/Config_Validate.thy ===== *)
theory Config_Validate
  imports Config_Merge
begin

text \<open>
  The two-pass validator of \<^verbatim>\<open>internal/config/validate.go\<close>: findings with their severities, the
  checks of each layer alone, and the checks of a merged flag. A finding's human-readable message
  is not modelled; its rule id, flag, environment, layer, field path and severity are.
\<close>

section \<open>Severities and findings\<close>

datatype Severity = SeverityWarn | SeverityRejectFlag | SeverityRejectEnv | SeverityRejectGlobal

fun Severity_String :: "Severity \<Rightarrow> string" where
  "Severity_String SeverityRejectFlag = ''reject-flag''"
| "Severity_String SeverityRejectEnv = ''reject-env''"
| "Severity_String SeverityRejectGlobal = ''reject-global''"
| "Severity_String SeverityWarn = ''warn''"

fun severity_rank :: "Severity \<Rightarrow> nat" where
  "severity_rank SeverityWarn = 0"
| "severity_rank SeverityRejectFlag = 1"
| "severity_rank SeverityRejectEnv = 2"
| "severity_rank SeverityRejectGlobal = 3"

instantiation Severity :: linorder
begin

definition less_eq_Severity :: "Severity \<Rightarrow> Severity \<Rightarrow> bool" where
  "less_eq_Severity a b \<longleftrightarrow> severity_rank a \<le> severity_rank b"

definition less_Severity :: "Severity \<Rightarrow> Severity \<Rightarrow> bool" where
  "less_Severity a b \<longleftrightarrow> severity_rank a < severity_rank b"

instance
proof
  fix a b :: Severity
  show "a \<le> b \<Longrightarrow> b \<le> a \<Longrightarrow> a = b"
    by (cases a; cases b) (simp_all add: less_eq_Severity_def)
qed (auto simp: less_eq_Severity_def less_Severity_def)

end

lemma Severity_le_simps [simp]:
  "SeverityWarn \<le> s" "s \<le> SeverityRejectGlobal"
  "SeverityRejectEnv \<le> s \<longleftrightarrow> s = SeverityRejectEnv \<or> s = SeverityRejectGlobal"
  by (cases s; simp add: less_eq_Severity_def)+

definition IsRejection :: "Severity \<Rightarrow> bool" where
  "IsRejection s \<longleftrightarrow> s \<noteq> SeverityWarn"

record Finding =
  fd_RuleID :: string
  fd_Flag :: string
  fd_Env :: string
  fd_Layer :: LayerID
  fd_Field :: string
  fd_Severity :: Severity

type_synonym Findings = "Finding list"

text \<open>A finding as a line of text, given its message, and a list of them as an error; the message is the one field that the
  record leaves out.\<close>

definition labelled :: "string \<Rightarrow> string \<Rightarrow> string" where
  "labelled name v = (if v \<noteq> [] then name @ v else [])"

definition Finding_String :: "Finding \<Rightarrow> string \<Rightarrow> string" where
  "Finding_String f message =
     fd_RuleID f @ '' ['' @ Severity_String (fd_Severity f) @ ''] '' @ LayerID_String (fd_Layer f) @
     labelled '' env='' (fd_Env f) @ labelled '' flag='' (fd_Flag f) @ labelled '' field='' (fd_Field f) @
     '': '' @ message"

definition Findings_Error :: "(Finding \<times> string) list \<Rightarrow> string" where
  "Findings_Error fs =
     (if length fs = 0 then ''config: no findings''
      else ''config: '' @ strconv_FormatInt (int (length fs)) @ '' validation finding(s)'' @
        concat (map (\<lambda>(f, message). [CHR 0x0A] @ ''  '' @ Finding_String f message) fs))"

lemma Findings_Error_tells_all:
  "(f, message) \<in> set fs \<Longrightarrow> \<exists>a b. Findings_Error fs = a @ Finding_String f message @ b"
proof -
  assume "(f, message) \<in> set fs"
  then obtain xs ys where "fs = xs @ (f, message) # ys" by (meson split_list)
  then have "Findings_Error fs =
      (''config: '' @ strconv_FormatInt (int (length fs)) @ '' validation finding(s)'' @
        concat (map (\<lambda>(f, message). [CHR 0x0A] @ ''  '' @ Finding_String f message) xs) @ [CHR 0x0A] @ ''  '')
      @ Finding_String f message @ concat (map (\<lambda>(f, message). [CHR 0x0A] @ ''  '' @ Finding_String f message) ys)"
    by (simp add: Findings_Error_def)
  then show ?thesis by blast
qed

definition finding :: "string \<Rightarrow> string \<Rightarrow> string \<Rightarrow> LayerID \<Rightarrow> string \<Rightarrow> Severity \<Rightarrow> Finding" where
  "finding rule flag env layer field sev =
     \<lparr>fd_RuleID = rule, fd_Flag = flag, fd_Env = env, fd_Layer = layer, fd_Field = field, fd_Severity = sev\<rparr>"

lemma finding_sel [simp]:
  "fd_RuleID (finding r f e l fi s) = r" "fd_Flag (finding r f e l fi s) = f"
  "fd_Env (finding r f e l fi s) = e" "fd_Layer (finding r f e l fi s) = l"
  "fd_Field (finding r f e l fi s) = fi" "fd_Severity (finding r f e l fi s) = s"
  by (simp_all add: finding_def)

fun HasRejections :: "Findings \<Rightarrow> bool" where
  "HasRejections [] = False"
| "HasRejections (f # fs) = (if IsRejection (fd_Severity f) then True else HasRejections fs)"

definition Findings_Err :: "Findings \<Rightarrow> Findings option" where
  "Findings_Err fs = (if \<not> HasRejections fs then None else Some fs)"

definition MaxSeverity :: "Findings \<Rightarrow> Severity" where
  "MaxSeverity fs = foldl (\<lambda>m f. if fd_Severity f > m then fd_Severity f else m) SeverityWarn fs"

definition Rejections :: "Findings \<Rightarrow> Findings" where
  "Rejections fs = filter (\<lambda>f. IsRejection (fd_Severity f)) fs"

definition Warns :: "Findings \<Rightarrow> Findings" where
  "Warns fs = filter (\<lambda>f. fd_Severity f = SeverityWarn) fs"

definition ForFlag :: "Findings \<Rightarrow> string \<Rightarrow> Findings" where
  "ForFlag fs key = filter (\<lambda>f. fd_Flag f = key) fs"

fun Findings_Has :: "Findings \<Rightarrow> string \<Rightarrow> bool" where
  "Findings_Has [] rule = False"
| "Findings_Has (f # fs) rule = (if fd_RuleID f = rule then True else Findings_Has fs rule)"

definition RuleIDs :: "Findings \<Rightarrow> string list" where
  "RuleIDs fs = sort (remdups (map fd_RuleID fs))"

lemma HasRejections_iff: "HasRejections fs \<longleftrightarrow> (\<exists>f \<in> set fs. IsRejection (fd_Severity f))"
  by (induction fs) auto

lemma HasRejections_append [simp]: "HasRejections (fs @ gs) \<longleftrightarrow> HasRejections fs \<or> HasRejections gs"
  by (auto simp: HasRejections_iff)

lemma Rejections_Nil: "Rejections fs = [] \<longleftrightarrow> \<not> HasRejections fs"
  by (auto simp: Rejections_def HasRejections_iff filter_empty_conv)

lemma MaxSeverity_fold:
  "foldl (\<lambda>m f. if fd_Severity f > m then fd_Severity f else m) m fs = fold max (map fd_Severity fs) m"
  by (induction fs arbitrary: m) (auto simp: max_def)

lemma max_Warn [simp]: "max a b = SeverityWarn \<longleftrightarrow> a = SeverityWarn \<and> b = SeverityWarn"
  by (cases a; cases b) (simp_all add: max_def less_eq_Severity_def)

lemma HasRejections_MaxSeverity: "HasRejections fs \<longleftrightarrow> IsRejection (MaxSeverity fs)"
proof -
  have "fold max ss m \<noteq> SeverityWarn \<longleftrightarrow> m \<noteq> SeverityWarn \<or> (\<exists>s \<in> set ss. s \<noteq> SeverityWarn)" for ss m
    by (induction ss arbitrary: m) auto
  then show ?thesis by (simp add: MaxSeverity_def MaxSeverity_fold HasRejections_iff IsRejection_def)
qed

section \<open>Limits\<close>

definition QuarantineFloor :: nat where "QuarantineFloor = 20"

text \<open>
  The source computes \<^verbatim>\<open>int(float64(totalFlags) * 0.05)\<close>, which is the quotient by 20 for every
  count below \<open>2 ^ 48\<close>: the product is within half a unit in the last place of \<open>n / 20\<close>.
\<close>

definition QuarantineBudget :: "nat \<Rightarrow> nat" where
  "QuarantineBudget totalFlags =
     (let budget = totalFlags div 20
      in if budget < QuarantineFloor then QuarantineFloor else budget)"

definition MaxFlagsPerEnv :: nat where "MaxFlagsPerEnv = 20000"

text \<open>Compared in binary when an example is evaluated.\<close>

lemma MaxFlagsPerEnv_int [code_unfold]:
  "MaxFlagsPerEnv < n \<longleftrightarrow> 20000 < int n"
  "n \<le> MaxFlagsPerEnv \<longleftrightarrow> int n \<le> 20000"
  by (auto simp: MaxFlagsPerEnv_def)

definition key_char :: "char \<Rightarrow> bool" where
  "key_char c \<longleftrightarrow> is_lower c \<or> is_digit c \<or> c \<in> {CHR ''.'', CHR ''_'', CHR ''-''}"

text \<open>\<^verbatim>\<open>^[a-z0-9][a-z0-9._-]{0,127}$\<close>\<close>

definition flagKeyRE :: "string \<Rightarrow> bool" where
  "flagKeyRE s =
     (case s of
        [] \<Rightarrow> False
      | c # cs \<Rightarrow> (is_lower c \<or> is_digit c) \<and> list_all key_char cs \<and> length cs \<le> 127)"

section \<open>Pass 1, one layer alone\<close>

definition indexed :: "string \<Rightarrow> nat \<Rightarrow> string" where
  "indexed path i = path @ CHR ''['' # format_nat i @ '']''"

definition out_of_range :: "int32 \<Rightarrow> bool" where
  "out_of_range bp \<longleftrightarrow> slt bp 0 \<or> slt BucketSpace bp"

text \<open>The findings of one condition; \<^verbatim>\<open>add\<close> is the closure of \<^verbatim>\<open>validateRuleList\<close>.\<close>

definition validate_condition :: "(string \<Rightarrow> string \<Rightarrow> Finding) \<Rightarrow> string \<Rightarrow> WireCondition \<Rightarrow> Findings" where
  "validate_condition add cpath c =
     (if wc_Attribute c = [] then [add ''B07'' (cpath @ ''.attribute'')] else []) @
     (let (op, ok) = ParseOperator (wc_Op c)
      in if \<not> ok then [add ''B06'' (cpath @ ''.op'')]
         else (case op of
                 OpExists \<Rightarrow> if wc_Values c \<noteq> [] then [add ''B07'' (cpath @ ''.values'')] else []
               | OpIn \<Rightarrow> if wc_Values c = [] then [add ''B07'' (cpath @ ''.values'')] else []
               | _ \<Rightarrow> if length (wc_Values c) \<noteq> 1 then [add ''B07'' (cpath @ ''.values'')] else []) @
              concat (map (\<lambda>(k, v). if Value_IsUnknown v then [add ''B07'' (indexed (cpath @ ''.values'') k)] else [])
                (enumerate 0 (wc_Values c))))"

fun validate_rules :: "(string \<Rightarrow> string \<Rightarrow> Finding) \<Rightarrow> string \<Rightarrow> nat \<Rightarrow> string list \<Rightarrow> WireRule list \<Rightarrow> Findings" where
  "validate_rules add field i seen [] = []"
| "validate_rules add field i seen (r # rs) =
     (let path = indexed field i
      in (if wr_ID r = [] then [add ''B05'' (path @ ''.id'')]
          else if wr_ID r \<in> set seen then [add ''B05'' (path @ ''.id'')] else []) @
         (if \<not> snd (parseLogicOp (wr_Combiner r)) then [add ''B17'' (path @ ''.combiner'')] else []) @
         (if wr_Conditions r = [] then [add ''B07'' (path @ ''.conditions'')] else []) @
         concat (map (\<lambda>(j, c). validate_condition add (indexed (path @ ''.conditions'') j) c)
           (enumerate 0 (wr_Conditions r))) @
         validate_rules add field (Suc i) (wr_ID r # seen) rs)"

definition validateRuleList :: "string \<Rightarrow> LayerID \<Rightarrow> string \<Rightarrow> string \<Rightarrow> WireRule list \<Rightarrow> Severity \<Rightarrow> Findings" where
  "validateRuleList env layer flagKey field rules sev =
     validate_rules (\<lambda>rule f. finding rule flagKey env layer f sev) field 0 [] rules"

definition validate_base_flag :: "string list \<Rightarrow> BaseFlag \<Rightarrow> Findings" where
  "validate_base_flag seen f =
     (let sev = SeverityRejectGlobal;
          add = (\<lambda>rule field s. finding rule (bf_Key f) [] LayerBase field s);
          (typ, okType) = ParseValueType (bf_Type f)
      in map (\<lambda>m. add ''B00'' m sev) (bf_missing f) @
         (if \<not> flagKeyRE (bf_Key f) then [add ''B01'' FieldKey sev] else []) @
         (if bf_Key f \<in> set seen then [add ''B12'' FieldKey sev] else []) @
         (if \<not> okType then [add ''B02'' FieldType sev] else []) @
         (if okType
          then (if Value_Type (bf_DefaultValue f) \<noteq> typ then [add ''B03'' FieldDefaultValue sev] else []) @
               (if \<not> Value_IsUnknown (bf_OffValue f) \<and> Value_Type (bf_OffValue f) \<noteq> typ
                then [add ''B04'' FieldOffValue sev] else [])
          else []) @
         (if \<not> snd (parseEvaluationOrder (bf_EvaluationOrder f)) then [add ''B18'' FieldEvaluationOrder sev]
          else []) @
         (if bf_Owner f = [] then [add ''B13'' FieldOwner SeverityWarn] else []) @
         validateRuleList [] LayerBase (bf_Key f) FieldRules (bf_Rules f) sev @
         (case bf_Rollout f of
            None \<Rightarrow> []
          | Some r \<Rightarrow>
              if out_of_range (wro_BasisPoints r) then [add ''B08'' FieldRolloutBasisPoints sev] else []))"

fun validate_base_flags :: "string list \<Rightarrow> BaseFlag list \<Rightarrow> Findings" where
  "validate_base_flags seen [] = []"
| "validate_base_flags seen (f # fs) = validate_base_flag seen f @ validate_base_flags (bf_Key f # seen) fs"

definition ValidateBase :: "BaseLayer option \<Rightarrow> Findings" where
  "ValidateBase l = (case l of None \<Rightarrow> [] | Some l \<Rightarrow> validate_base_flags [] (bl_Flags l))"

definition null_fields :: "(string \<Rightarrow> Finding) \<Rightarrow> (string \<times> bool) list \<Rightarrow> Findings" where
  "null_fields add checks = map (\<lambda>p. add (fst p)) (filter snd checks)"

text \<open>The rule-list operator, O03.\<close>

definition validate_rules_mode :: "string \<Rightarrow> OverlayFlag \<Rightarrow> Findings" where
  "validate_rules_mode env f =
     (let sev = SeverityRejectFlag;
          add = (\<lambda>rule field. finding rule (of_Key f) env LayerOverlay field sev)
      in if IsSet (of_Rules f)
         then (case Opt_Get (of_RulesMode f) of
                 None \<Rightarrow> [add ''O03'' FieldRulesMode]
               | Some mode \<Rightarrow>
                   if mode \<noteq> RuleModeReplace \<and> mode \<noteq> RuleModeAppend then [add ''O03'' FieldRulesMode]
                   else if IsNull (of_Rules f) \<and> mode = RuleModeAppend then [add ''O03'' FieldRules]
                   else []) @
              (case of_Rules f of
                 OptVal rs \<Rightarrow> validateRuleList env LayerOverlay (of_Key f) FieldRules rs sev
               | _ \<Rightarrow> [])
         else if IsSet (of_RulesMode f) then [add ''O03'' FieldRulesMode] else [])"

definition validate_overlay_rollout :: "string \<Rightarrow> OverlayFlag \<Rightarrow> Findings" where
  "validate_overlay_rollout env f =
     (let sev = SeverityRejectFlag;
          add = (\<lambda>rule field. finding rule (of_Key f) env LayerOverlay field sev)
      in case Opt_Get (of_Rollout f) of
           None \<Rightarrow> []
         | Some r \<Rightarrow>
             null_fields (add ''O04'')
               [(FieldRolloutBasisPoints, IsNull (or_BasisPoints r)),
                (FieldRolloutBucketNamespace, IsNull (or_BucketNamespace r)),
                (FieldRolloutBucketBy, IsNull (or_BucketBy r)),
                (FieldRolloutOnValue, IsNull (or_OnValue r)),
                (FieldRolloutOffValue, IsNull (or_OffValue r))] @
             (case Opt_Get (or_BasisPoints r) of
                None \<Rightarrow> []
              | Some bp \<Rightarrow> if out_of_range bp then [add ''O05'' FieldRolloutBasisPoints] else []))"

definition validate_overlay_flag :: "string \<Rightarrow> string list \<Rightarrow> OverlayFlag \<Rightarrow> Findings" where
  "validate_overlay_flag env seen f =
     (let sev = SeverityRejectFlag;
          add = (\<lambda>rule field. finding rule (of_Key f) env LayerOverlay field sev)
      in (if \<not> flagKeyRE (of_Key f) then [add ''O01'' FieldKey] else []) @
         (if of_Key f \<in> set seen then [add ''O11'' FieldKey] else []) @
         (if IsSet (of_Type f) then [add ''O02'' FieldType] else []) @
         null_fields (add ''O04'')
           [(FieldEnabled, IsNull (of_Enabled f)), (FieldDefaultValue, IsNull (of_DefaultValue f)),
            (FieldOffValue, IsNull (of_OffValue f)), (FieldEvaluationOrder, IsNull (of_EvaluationOrder f)),
            (FieldRulesMode, IsNull (of_RulesMode f))] @
         validate_rules_mode env f @
         (case Opt_Get (of_EvaluationOrder f) of
            None \<Rightarrow> []
          | Some v \<Rightarrow> if \<not> snd (parseEvaluationOrder v) then [add ''O12'' FieldEvaluationOrder] else []) @
         validate_overlay_rollout env f)"

fun validate_overlay_flags :: "string \<Rightarrow> string list \<Rightarrow> OverlayFlag list \<Rightarrow> Findings" where
  "validate_overlay_flags env seen [] = []"
| "validate_overlay_flags env seen (f # fs) =
     validate_overlay_flag env seen f @ validate_overlay_flags env (of_Key f # seen) fs"

definition ValidateOverlay :: "OverlayLayer option \<Rightarrow> Findings" where
  "ValidateOverlay l =
     (case l of
        None \<Rightarrow> []
      | Some l \<Rightarrow>
          (let env = ol_Environment l
           in (if env = [] then [finding ''O00'' [] [] LayerOverlay ''environment'' SeverityRejectEnv] else []) @
              validate_overlay_flags env [] (ol_Flags l)))"

text \<open>\<^verbatim>\<open>time.Time.Sub\<close> saturates at the limits of a 64-bit duration.\<close>

definition time_Sub :: "time \<Rightarrow> time \<Rightarrow> int" where
  "time_Sub t u = max (- (2 ^ 63)) (min (2 ^ 63 - 1) (t - u))"

definition validate_ttl :: "(string \<Rightarrow> string \<Rightarrow> Severity \<Rightarrow> Finding) \<Rightarrow> time \<Rightarrow> time \<Rightarrow> Findings" where
  "validate_ttl add exp now =
     (let ttl = time_Sub exp now
      in if ttl > MaxOpsOverrideTTL then [add ''O09'' FieldExpiresAt SeverityRejectFlag]
         else if ttl > OpsOverrideTTLWarn then [add ''O10'' FieldExpiresAt SeverityWarn]
         else if ttl \<le> 0 then [add ''M11'' FieldExpiresAt SeverityWarn]
         else [])"

definition validate_override :: "string \<Rightarrow> time \<Rightarrow> string list \<Rightarrow> OpsOverride \<Rightarrow> Findings" where
  "validate_override env now seen x =
     (let sev = SeverityRejectFlag;
          add = (\<lambda>rule field s. finding rule (op_Key x) env LayerOps field s)
      in (if \<not> flagKeyRE (op_Key x) then [add ''O01'' FieldKey sev] else []) @
         (if op_Key x \<in> set seen then [add ''O14'' FieldKey sev] else []) @
         map (\<lambda>k. add ''O07'' k sev) (op_disallowed x) @
         (if Opt_Get (op_ExpiresAt x) = None then [add ''O08'' FieldExpiresAt sev] else []) @
         (if op_Reason x = [] then [add ''O08'' FieldReason sev] else []) @
         (if op_Owner x = [] then [add ''O08'' FieldOwner sev] else []) @
         (case Opt_Get (op_ExpiresAt x) of None \<Rightarrow> [] | Some exp \<Rightarrow> validate_ttl add exp now) @
         (case Opt_Get (op_BasisPoints x) of
            None \<Rightarrow> []
          | Some bp \<Rightarrow> if out_of_range bp then [add ''O05'' FieldRolloutBasisPoints sev] else []) @
         (if \<not> IsValue (op_Enabled x) \<and> \<not> IsValue (op_BasisPoints x)
          then [add ''O15'' [] SeverityWarn] else []))"

fun validate_overrides :: "string \<Rightarrow> time \<Rightarrow> string list \<Rightarrow> OpsOverride list \<Rightarrow> Findings" where
  "validate_overrides env now seen [] = []"
| "validate_overrides env now seen (x # xs) =
     validate_override env now seen x @ validate_overrides env now (op_Key x # seen) xs"

definition ValidateOps :: "OpsLayer option \<Rightarrow> time \<Rightarrow> Findings" where
  "ValidateOps l now =
     (case l of
        None \<Rightarrow> []
      | Some l \<Rightarrow>
          (let env = opl_Environment l
           in (if env = [] then [finding ''O00'' [] [] LayerOps ''environment'' SeverityRejectEnv] else []) @
              validate_overrides env now [] (opl_Overrides l)))"

definition opsExpired :: "OpsOverride \<Rightarrow> time \<Rightarrow> bool" where
  "opsExpired x now = (case Opt_Get (op_ExpiresAt x) of None \<Rightarrow> False | Some exp \<Rightarrow> \<not> exp > now)"

section \<open>Pass 2, the merged flag\<close>

definition validate_appended :: "string \<Rightarrow> Flag \<Rightarrow> BaseFlag \<Rightarrow> OverlayFlag option \<Rightarrow> Findings" where
  "validate_appended env f base ov =
     (case ov of
        None \<Rightarrow> []
      | Some x \<Rightarrow>
          (case of_Rules x of
             OptVal rs \<Rightarrow>
               if OrElse (of_RulesMode x) RuleModeReplace = RuleModeAppend
               then map (\<lambda>r. finding ''M03'' (flag_Key f) env LayerOverlay FieldRules SeverityRejectFlag)
                      (filter (\<lambda>r. wr_ID r \<in> wr_ID ` set (bf_Rules base)) rs)
               else []
           | _ \<Rightarrow> []))"

fun validate_resolved_rules :: "string \<Rightarrow> Flag \<Rightarrow> LayerID \<Rightarrow> nat \<Rightarrow> string list \<Rightarrow> Rule list \<Rightarrow> Findings" where
  "validate_resolved_rules env f layer i seen [] = []"
| "validate_resolved_rules env f layer i seen (r # rs) =
     (let path = indexed FieldRules i; sev = SeverityRejectFlag
      in (if rule_ID r \<in> set seen then [finding ''M04'' (flag_Key f) env layer (path @ ''.id'') sev] else []) @
         (if Value_Type (rule_Value r) \<noteq> flag_Type f
          then [finding ''M06'' (flag_Key f) env layer (path @ ''.value'') sev] else []) @
         validate_resolved_rules env f layer (Suc i) (rule_ID r # seen) rs)"

definition validate_resolved_rollout ::
    "(string \<Rightarrow> string \<Rightarrow> Finding) \<Rightarrow> string \<Rightarrow> Flag \<Rightarrow> OpsOverride option \<Rightarrow> Findings" where
  "validate_resolved_rollout add env f ops =
     (case flag_Rollout f of
        Some ro \<Rightarrow>
          (if out_of_range (roll_BasisPoints ro) then [add ''M05'' FieldRolloutBasisPoints] else []) @
          (if Value_IsUnknown (roll_OnValue ro) then [add ''M17'' FieldRolloutOnValue] else []) @
          (if Value_IsUnknown (roll_OffValue ro) then [add ''M17'' FieldRolloutOffValue] else []) @
          (if \<not> Value_IsUnknown (roll_OnValue ro) \<and> Value_Type (roll_OnValue ro) \<noteq> flag_Type f
           then [add ''M18'' FieldRolloutOnValue] else []) @
          (if \<not> Value_IsUnknown (roll_OffValue ro) \<and> Value_Type (roll_OffValue ro) \<noteq> flag_Type f
           then [add ''M18'' FieldRolloutOffValue] else [])
      | None \<Rightarrow>
          (case ops of
             None \<Rightarrow> []
           | Some x \<Rightarrow>
               if IsValue (op_BasisPoints x)
               then [finding ''M19'' (flag_Key f) env LayerOps FieldRolloutBasisPoints SeverityRejectFlag]
               else []))"

definition validateResolved :: "string \<Rightarrow> Flag \<Rightarrow> BaseFlag \<Rightarrow> OverlayFlag option \<Rightarrow> OpsOverride option \<Rightarrow>
    FlagProvenance \<Rightarrow> Findings" where
  "validateResolved env f base ov ops prov =
     (let sev = SeverityRejectFlag;
          add = (\<lambda>rule field. finding rule (flag_Key f) env (fp_Layer prov field) field sev)
      in if flag_Type f = TypeUnknown then [add ''M20'' FieldType]
         else (if Value_Type (flag_DefaultValue f) \<noteq> flag_Type f then [add ''M01'' FieldDefaultValue] else []) @
              (if Value_Type (flag_OffValue f) \<noteq> flag_Type f then [add ''M01'' FieldOffValue] else []) @
              validate_appended env f base ov @
              validate_resolved_rules env f (fp_Layer prov FieldRules) 0 [] (flag_Rules f) @
              validate_resolved_rollout add env f ops @
              (if flag_Rules f \<noteq> [] \<and> flag_Rollout f \<noteq> None \<and> flag_EvaluationOrder f = OrderUnspecified
               then [add ''M09'' FieldEvaluationOrder] else []))"

definition orphanFinding :: "string \<Rightarrow> string \<Rightarrow> LayerID \<Rightarrow> Finding" where
  "orphanFinding env key layer = finding ''M02'' key env layer FieldKey SeverityRejectFlag"

section \<open>What an accepted layer is\<close>

lemma Ball_enumerate: "(\<forall>p \<in> set (enumerate n xs). P (snd p)) \<longleftrightarrow> (\<forall>x \<in> set xs. P x)"
proof -
  have "set xs = snd ` set (enumerate n xs)" by (metis map_snd_enumerate set_map)
  then show ?thesis by simp
qed

lemma concat_enumerate_Nil:
  "concat (map (\<lambda>(k, x). g k x) (enumerate n xs)) = [] \<longleftrightarrow> (\<forall>p \<in> set (enumerate n xs). g (fst p) (snd p) = [])"
  by (auto simp: case_prod_beta)

definition condition_ok :: "WireCondition \<Rightarrow> bool" where
  "condition_ok c \<longleftrightarrow>
     wc_Attribute c \<noteq> [] \<and> snd (ParseOperator (wc_Op c)) \<and> VUnset \<notin> set (wc_Values c)
     \<and> (case fst (ParseOperator (wc_Op c)) of
          OpExists \<Rightarrow> wc_Values c = [] | OpIn \<Rightarrow> wc_Values c \<noteq> [] | _ \<Rightarrow> length (wc_Values c) = 1)"

lemma validate_condition_Nil: "validate_condition add p c = [] \<longleftrightarrow> condition_ok c"
proof -
  have "concat (map (\<lambda>(k, v). if Value_IsUnknown v then [add ''B07'' (indexed (p @ ''.values'') k)] else [])
      (enumerate 0 (wc_Values c))) = [] \<longleftrightarrow> VUnset \<notin> set (wc_Values c)"
    unfolding concat_enumerate_Nil using Ball_enumerate [of 0 "wc_Values c" "\<lambda>v. v \<noteq> VUnset"]
    by (auto split: if_splits)
  then show ?thesis
    by (cases "ParseOperator (wc_Op c)"; cases "fst (ParseOperator (wc_Op c))")
      (auto simp: validate_condition_def condition_ok_def Let_def)
qed

definition rule_ok :: "WireRule \<Rightarrow> bool" where
  "rule_ok r \<longleftrightarrow>
     wr_ID r \<noteq> [] \<and> snd (parseLogicOp (wr_Combiner r)) \<and> wr_Conditions r \<noteq> []
     \<and> list_all condition_ok (wr_Conditions r)"

definition rule_list_ok :: "WireRule list \<Rightarrow> bool" where
  "rule_list_ok rs \<longleftrightarrow> list_all rule_ok rs \<and> distinct (map wr_ID rs)"

lemma validate_rules_Nil:
  "validate_rules add field i seen rs = [] \<longleftrightarrow>
     list_all rule_ok rs \<and> distinct (map wr_ID rs) \<and> set seen \<inter> wr_ID ` set rs = {}"
proof (induction rs arbitrary: i seen)
  case (Cons r rs)
  have "concat (map (\<lambda>(j, c). validate_condition add (indexed (indexed field i @ ''.conditions'') j) c)
      (enumerate 0 (wr_Conditions r))) = [] \<longleftrightarrow> list_all condition_ok (wr_Conditions r)"
    unfolding concat_enumerate_Nil validate_condition_Nil
    by (simp only: Ball_enumerate list_all_iff)
  then show ?case
    unfolding validate_rules.simps Let_def append_is_Nil_conv Cons.IH
    by (auto simp: rule_ok_def [of r] split: if_splits)
qed simp

lemma validateRuleList_Nil: "validateRuleList env l k field rs sev = [] \<longleftrightarrow> rule_list_ok rs"
  by (simp add: validateRuleList_def validate_rules_Nil rule_list_ok_def)

text \<open>Every finding of a rule list has the severity of its layer.\<close>

lemma list_all_concat: "list_all P (concat xss) \<longleftrightarrow> list_all (list_all P) xss"
  by (induction xss) simp_all

definition all_severity :: "Severity \<Rightarrow> Findings \<Rightarrow> bool" where
  "all_severity sev fs \<longleftrightarrow> list_all (\<lambda>x. fd_Severity x = sev) fs"

lemma all_severity_simps [simp]:
  "all_severity sev []" "all_severity sev (x # xs) \<longleftrightarrow> fd_Severity x = sev \<and> all_severity sev xs"
  "all_severity sev (xs @ ys) \<longleftrightarrow> all_severity sev xs \<and> all_severity sev ys"
  by (simp_all add: all_severity_def)

lemma all_severity_concat:
  "(\<And>p. p \<in> set ps \<Longrightarrow> all_severity sev (g p)) \<Longrightarrow> all_severity sev (concat (map g ps))"
  by (simp add: all_severity_def list_all_concat list_all_iff)

lemma validate_condition_severity:
  assumes "\<And>r f. fd_Severity (add r f) = sev"
  shows "all_severity sev (validate_condition add p c)"
proof -
  have "all_severity sev (concat (map (\<lambda>(k, v). if Value_IsUnknown v then [add ''B07'' (indexed (p @ ''.values'') k)]
      else []) (enumerate 0 (wc_Values c))))"
    by (rule all_severity_concat) (use assms in \<open>auto split: prod.splits\<close>)
  then show ?thesis
    unfolding validate_condition_def
    by (cases "ParseOperator (wc_Op c)"; cases "fst (ParseOperator (wc_Op c))")
      (use assms in \<open>simp_all add: Let_def\<close>)
qed

lemma validate_rules_severity:
  assumes "\<And>r f. fd_Severity (add r f) = sev"
  shows "all_severity sev (validate_rules add field i seen rs)"
proof (induction rs arbitrary: i seen)
  case (Cons r rs)
  have "all_severity sev (concat (map (\<lambda>(j, c). validate_condition add (indexed (indexed field i @ ''.conditions'') j) c)
      (enumerate 0 (wr_Conditions r))))"
    by (rule all_severity_concat) (use validate_condition_severity [OF assms] in \<open>auto split: prod.splits\<close>)
  then show ?case
    using Cons.IH assms by (simp add: Let_def)
qed simp

lemma all_severity_rejects:
  "all_severity sev fs \<Longrightarrow> IsRejection sev \<Longrightarrow> HasRejections fs \<longleftrightarrow> fs \<noteq> []"
  by (cases fs) (auto simp: HasRejections_iff all_severity_def)

lemma HasRejections_validateRuleList:
  assumes "IsRejection sev"
  shows "HasRejections (validateRuleList env l k field rs sev) \<longleftrightarrow> \<not> rule_list_ok rs"
proof -
  have "all_severity sev (validateRuleList env l k field rs sev)"
    unfolding validateRuleList_def by (rule validate_rules_severity) simp
  then show ?thesis using assms by (simp add: all_severity_rejects validateRuleList_Nil)
qed

definition in_range :: "int32 \<Rightarrow> bool" where
  "in_range bp \<longleftrightarrow> 0 \<le> sint bp \<and> sint bp \<le> 10000"

lemma out_of_range_iff: "out_of_range bp \<longleftrightarrow> \<not> in_range bp"
  by (auto simp: out_of_range_def in_range_def slt_def BucketSpace_def)

definition base_flag_ok :: "BaseFlag \<Rightarrow> bool" where
  "base_flag_ok f \<longleftrightarrow>
     bf_missing f = [] \<and> flagKeyRE (bf_Key f) \<and> fst (ParseValueType (bf_Type f)) \<noteq> TypeUnknown
     \<and> Value_Type (bf_DefaultValue f) = fst (ParseValueType (bf_Type f))
     \<and> (bf_OffValue f = VUnset \<or> Value_Type (bf_OffValue f) = fst (ParseValueType (bf_Type f)))
     \<and> snd (parseEvaluationOrder (bf_EvaluationOrder f)) \<and> rule_list_ok (bf_Rules f)
     \<and> (case bf_Rollout f of None \<Rightarrow> True | Some r \<Rightarrow> in_range (wro_BasisPoints r))"

lemma IsRejection_simps [simp]:
  "\<not> IsRejection SeverityWarn" "IsRejection SeverityRejectFlag" "IsRejection SeverityRejectEnv"
  "IsRejection SeverityRejectGlobal"
  by (simp_all add: IsRejection_def)

lemma HasRejections_if [simp]:
  "HasRejections (if b then fs else gs) = (if b then HasRejections fs else HasRejections gs)"
  by simp

lemma HasRejections_map_missing [simp]:
  "IsRejection s \<Longrightarrow> HasRejections (map (\<lambda>m. finding r k e l m s) ms) \<longleftrightarrow> ms \<noteq> []"
  by (cases ms) (auto simp: HasRejections_iff)

lemma validate_base_flag_rejects:
  "HasRejections (validate_base_flag seen f) \<longleftrightarrow> \<not> base_flag_ok f \<or> bf_Key f \<in> set seen"
proof (cases "ParseValueType (bf_Type f)")
  case (Pair t ok)
  have ok: "ok \<longleftrightarrow> t \<noteq> TypeUnknown" using ParseValueType_ok [OF Pair] .
  have ro: "HasRejections (case bf_Rollout f of None \<Rightarrow> []
      | Some r \<Rightarrow> if out_of_range (wro_BasisPoints r)
          then [finding ''B08'' (bf_Key f) [] LayerBase FieldRolloutBasisPoints SeverityRejectGlobal] else [])
    \<longleftrightarrow> (case bf_Rollout f of None \<Rightarrow> False | Some r \<Rightarrow> \<not> in_range (wro_BasisPoints r))"
    by (simp add: out_of_range_iff split: option.split)
  show ?thesis
    unfolding validate_base_flag_def Let_def Pair case_prod_conv HasRejections_append
    by (simp only: ro HasRejections_validateRuleList IsRejection_simps HasRejections_map_missing
        HasRejections_if HasRejections.simps finding_sel if_True if_False)
      (auto simp: base_flag_ok_def Pair ok split: option.splits)
qed

lemma validate_base_flags_rejects:
  "HasRejections (validate_base_flags seen fs) \<longleftrightarrow>
     \<not> (list_all base_flag_ok fs \<and> distinct (map bf_Key fs) \<and> set seen \<inter> bf_Key ` set fs = {})"
  by (induction fs arbitrary: seen) (auto simp: validate_base_flag_rejects)

text \<open>The base validator rejects exactly the malformed layers: there is no rejection iff the keys are
  distinct and well formed and every flag is total, of a known type, with default and off values of that
  type, a known evaluation order, a rollout within \<open>0 .. 10000\<close> and a rule list whose ids are unique and
  non-empty, whose combiners and operators are known and whose conditions have the operands their
  operators take; and the report says so consistently (\<^verbatim>\<open>Err\<close>, \<^verbatim>\<open>Rejections\<close> and \<^verbatim>\<open>MaxSeverity\<close>).\<close>

theorem ValidateBase_exact:
  "(HasRejections (ValidateBase (Some l)) \<longleftrightarrow>
      \<not> (list_all base_flag_ok (bl_Flags l) \<and> distinct (map bf_Key (bl_Flags l))))
   \<and> (Findings_Err fs = None \<longleftrightarrow> Rejections fs = [])
   \<and> (Rejections fs = [] \<longleftrightarrow> MaxSeverity fs = SeverityWarn)"
  using HasRejections_MaxSeverity [of fs]
  by (auto simp: ValidateBase_def validate_base_flags_rejects Findings_Err_def Rejections_Nil IsRejection_def)

section \<open>What an accepted flag is\<close>

definition rollout_wt :: "ValueType \<Rightarrow> Rollout \<Rightarrow> bool" where
  "rollout_wt t r \<longleftrightarrow>
     in_range (roll_BasisPoints r) \<and> Value_Type (roll_OnValue r) = t \<and> Value_Type (roll_OffValue r) = t"

text \<open>A servable flag: every value it can answer has its type, and the order of rules and rollout is
  declared when it has both.\<close>

definition flag_wt :: "Flag \<Rightarrow> bool" where
  "flag_wt f \<longleftrightarrow>
     flag_Type f \<noteq> TypeUnknown \<and> Value_Type (flag_DefaultValue f) = flag_Type f
     \<and> Value_Type (flag_OffValue f) = flag_Type f
     \<and> list_all (\<lambda>r. Value_Type (rule_Value r) = flag_Type f) (flag_Rules f)
     \<and> distinct (map rule_ID (flag_Rules f))
     \<and> (case flag_Rollout f of
          None \<Rightarrow> True
        | Some r \<Rightarrow> rollout_wt (flag_Type f) r \<and> (flag_Rules f = [] \<or> flag_EvaluationOrder f \<noteq> OrderUnspecified))"

lemma validate_resolved_rules_Nil:
  "validate_resolved_rules env f l i seen rs = [] \<longleftrightarrow>
     list_all (\<lambda>r. Value_Type (rule_Value r) = flag_Type f) rs \<and> distinct (map rule_ID rs)
     \<and> set seen \<inter> rule_ID ` set rs = {}"
  by (induction rs arbitrary: i seen) (auto simp: Let_def)

lemma validate_resolved_rollout_Nil:
  assumes "flag_Type f \<noteq> TypeUnknown"
  shows "validate_resolved_rollout add env f ops = [] \<longleftrightarrow>
     (case flag_Rollout f of
        None \<Rightarrow> \<not> IsValue (supplied op_BasisPoints ops)
      | Some r \<Rightarrow> rollout_wt (flag_Type f) r)"
proof (cases "flag_Rollout f")
  case None
  then show ?thesis
    by (cases ops) (simp_all add: validate_resolved_rollout_def supplied_def)
next
  case (Some r)
  then show ?thesis using assms
    by (auto simp: validate_resolved_rollout_def rollout_wt_def out_of_range_iff)
qed

text \<open>The appended rules do not reuse an id of the base list.\<close>

definition appended_fresh :: "BaseFlag \<Rightarrow> OverlayFlag option \<Rightarrow> bool" where
  "appended_fresh base ov \<longleftrightarrow>
     (case supplied of_Rules ov of
        OptVal rs \<Rightarrow>
          OrElse (supplied of_RulesMode ov) RuleModeReplace = RuleModeAppend \<longrightarrow>
            wr_ID ` set rs \<inter> wr_ID ` set (bf_Rules base) = {}
      | _ \<Rightarrow> True)"

lemma validate_appended_Nil: "validate_appended env f base ov = [] \<longleftrightarrow> appended_fresh base ov"
proof (cases ov)
  case (Some x)
  then show ?thesis
    by (cases "of_Rules x")
      (auto simp: validate_appended_def appended_fresh_def supplied_def filter_empty_conv)
qed (simp add: validate_appended_def appended_fresh_def supplied_def)

lemma all_severity_map:
  "(\<And>x. fd_Severity (g x) = sev) \<Longrightarrow> all_severity sev (map g xs)"
  by (simp add: all_severity_def list_all_iff)

lemma validate_resolved_rules_severity:
  "all_severity SeverityRejectFlag (validate_resolved_rules env f l i seen rs)"
  by (induction rs arbitrary: i seen) (simp_all add: Let_def)

lemma validateResolved_severity:
  "all_severity SeverityRejectFlag (validateResolved env f base ov ops prov)"
  unfolding validateResolved_def Let_def
  by (simp add: validate_resolved_rules_severity all_severity_map validate_appended_def
      validate_resolved_rollout_def split: option.split Opt.split)

lemma validateResolved_Nil:
  "validateResolved env f base ov ops prov = [] \<longleftrightarrow>
     flag_wt f \<and> appended_fresh base ov
     \<and> (flag_Rollout f = None \<longrightarrow> \<not> IsValue (supplied op_BasisPoints ops))"
proof (cases "flag_Type f = TypeUnknown")
  case True
  then show ?thesis by (simp add: validateResolved_def flag_wt_def)
next
  case False
  show ?thesis
    using False
    by (cases "flag_Rollout f")
      (auto simp: validateResolved_def Let_def validate_appended_Nil validate_resolved_rules_Nil
        validate_resolved_rollout_Nil flag_wt_def)
qed

text \<open>C17. The post-merge validator rejects exactly the flags that could misbehave: it reports nothing iff the
  resolved flag is servable (every default, off, rule and rollout value of the declared type, the
  rollout within \<open>0 .. 10000\<close>, rule ids unique, an explicit evaluation order beside rules and a rollout),
  the appended rules reuse no base id and an ops percentage has a rollout to act on; and
  whatever it reports is a rejection of the flag, never a warning.\<close>

theorem validateResolved_exact:
  "(validateResolved env f base ov ops prov = [] \<longleftrightarrow>
      flag_wt f \<and> appended_fresh base ov
      \<and> \<not> (flag_Rollout f = None \<and> IsValue (supplied op_BasisPoints ops)))
   \<and> Rejections (validateResolved env f base ov ops prov) = validateResolved env f base ov ops prov
   \<and> Warns (validateResolved env f base ov ops prov) = []"
  using validateResolved_severity [of env f base ov ops prov]
  by (auto simp: validateResolved_Nil all_severity_def Rejections_def Warns_def list_all_iff
      intro!: filter_True)

section \<open>Time-bound overrides\<close>

lemma all_severity_no_warn:
  "all_severity s fs \<Longrightarrow> s \<noteq> SeverityWarn \<Longrightarrow> Warns fs = []"
  by (auto simp: all_severity_def Warns_def list_all_iff filter_empty_conv)

definition override_ok :: "time \<Rightarrow> OpsOverride \<Rightarrow> bool" where
  "override_ok now x \<longleftrightarrow>
     flagKeyRE (op_Key x) \<and> op_disallowed x = [] \<and> op_Reason x \<noteq> [] \<and> op_Owner x \<noteq> []
     \<and> (\<exists>exp. op_ExpiresAt x = OptVal exp \<and> exp - now \<le> MaxOpsOverrideTTL)
     \<and> (case op_BasisPoints x of OptVal bp \<Rightarrow> in_range bp | _ \<Rightarrow> True)"

lemma time_Sub_bounds:
  "0 \<le> m \<Longrightarrow> m < 2 ^ 63 - 1 \<Longrightarrow> m < time_Sub t u \<longleftrightarrow> m < t - u"
  "time_Sub t u \<le> 0 \<longleftrightarrow> t \<le> u"
  by (auto simp: time_Sub_def)

lemma validate_ttl_eq:
  "validate_ttl add exp now =
     (if exp - now > MaxOpsOverrideTTL then [add ''O09'' FieldExpiresAt SeverityRejectFlag]
      else if exp - now > OpsOverrideTTLWarn then [add ''O10'' FieldExpiresAt SeverityWarn]
      else if exp \<le> now then [add ''M11'' FieldExpiresAt SeverityWarn]
      else [])"
  by (simp add: validate_ttl_def Let_def time_Sub_bounds MaxOpsOverrideTTL_def OpsOverrideTTLWarn_def hour_def)

lemma validate_override_rejects:
  "HasRejections (validate_override env now seen x) \<longleftrightarrow> \<not> override_ok now x \<or> op_Key x \<in> set seen"
proof -
  have ttl: "HasRejections (case Opt_Get (op_ExpiresAt x) of None \<Rightarrow> []
      | Some exp \<Rightarrow> validate_ttl (\<lambda>r f s. finding r (op_Key x) env LayerOps f s) exp now)
    \<longleftrightarrow> (\<exists>exp. op_ExpiresAt x = OptVal exp \<and> exp - now > MaxOpsOverrideTTL)"
    by (cases "op_ExpiresAt x") (simp_all add: validate_ttl_eq)
  have bp: "HasRejections (case Opt_Get (op_BasisPoints x) of None \<Rightarrow> []
      | Some bp \<Rightarrow> if out_of_range bp then [finding ''O05'' (op_Key x) env LayerOps FieldRolloutBasisPoints SeverityRejectFlag] else [])
    \<longleftrightarrow> (case op_BasisPoints x of OptVal bp \<Rightarrow> \<not> in_range bp | _ \<Rightarrow> False)"
    by (cases "op_BasisPoints x") (simp_all add: out_of_range_iff)
  show ?thesis
    unfolding validate_override_def Let_def HasRejections_append ttl bp
    by (cases "op_ExpiresAt x"; cases "op_BasisPoints x")
      (auto simp: override_ok_def not_less)
qed

text \<open>A kill switch is bounded in time. The ops validator accepts an override exactly when its key and
  percentage are well formed, it repeats no key, carries no field outside the whitelist, and has a reason, an
  owner and an expiry at most 30 days from now; and it is dropped from the merge exactly
  when its expiry has passed, which is when the warning M11 is among its findings.\<close>

theorem validate_override_exact:
  "(\<not> HasRejections (validate_override env now seen x) \<longleftrightarrow> override_ok now x \<and> op_Key x \<notin> set seen)
   \<and> (opsExpired x now \<longleftrightarrow> (\<exists>exp. op_ExpiresAt x = OptVal exp \<and> exp \<le> now))
   \<and> (opsExpired x now \<longleftrightarrow> Findings_Has (validate_override env now seen x) ''M11'')"
proof -
  have append: "Findings_Has (fs @ gs) r \<longleftrightarrow> Findings_Has fs r \<or> Findings_Has gs r" for fs gs r
    by (induction fs) auto
  have dis: "\<not> Findings_Has (map (\<lambda>k. finding ''O07'' (op_Key x) env LayerOps k SeverityRejectFlag) ks) ''M11''" for ks
    by (induction ks) auto
  have "opsExpired x now \<longleftrightarrow> (\<exists>exp. op_ExpiresAt x = OptVal exp \<and> exp \<le> now)"
    by (cases "op_ExpiresAt x") (auto simp: opsExpired_def)
  moreover have "Findings_Has (validate_override env now seen x) ''M11''
      \<longleftrightarrow> (\<exists>exp. op_ExpiresAt x = OptVal exp \<and> exp \<le> now)"
    unfolding validate_override_def Let_def append
    by (cases "op_ExpiresAt x"; cases "op_BasisPoints x")
      (auto simp: dis validate_ttl_eq MaxOpsOverrideTTL_def OpsOverrideTTLWarn_def hour_def)
  ultimately show ?thesis using validate_override_rejects by blast
qed

end
