(* ===== verification/Config_Snapshot.thy ===== *)
theory Config_Snapshot
  imports Config_Validate
begin

text \<open>
  The resolved snapshot of one environment and its builder, \<^verbatim>\<open>internal/config/snapshot.go\<close>. The
  fingerprint is over the JSON form of each flag; \<^verbatim>\<open>sha256\<close> (with its hexadecimal rendering) and the text
  of a JSON document are parameters; that they tell two snapshots apart is \<open>told_apart\<close>, assumed only where it is named.
\<close>

section \<open>The JSON form of a resolved flag\<close>

fun enum_ValueType :: "ValueType \<Rightarrow> int" where
  "enum_ValueType TypeUnknown = 0" | "enum_ValueType TypeBool = 1"
| "enum_ValueType TypeString = 2" | "enum_ValueType TypeInt = 3"

fun enum_Operator :: "Operator \<Rightarrow> int" where
  "enum_Operator OpUnknown = 0" | "enum_Operator OpEquals = 1" | "enum_Operator OpIn = 2"
| "enum_Operator OpContains = 3" | "enum_Operator OpGreaterThan = 4"
| "enum_Operator OpGreaterOrEqual = 5" | "enum_Operator OpLessThan = 6"
| "enum_Operator OpLessOrEqual = 7" | "enum_Operator OpExists = 8"
| "enum_Operator OpSemverEqual = 9" | "enum_Operator OpSemverGreaterThan = 10"
| "enum_Operator OpSemverLessThan = 11"

fun enum_LogicOp :: "LogicOp \<Rightarrow> int" where
  "enum_LogicOp LogicAnd = 0" | "enum_LogicOp LogicOr = 1"

fun enum_Order :: "EvaluationOrder \<Rightarrow> int" where
  "enum_Order OrderUnspecified = 0" | "enum_Order OrderRulesFirst = 1"

definition JInt :: "int \<Rightarrow> json" where
  "JInt i = JNum (strconv_FormatInt i)"

text \<open>A field tagged \<^verbatim>\<open>omitempty\<close> is left out when it is empty.\<close>

definition omitempty :: "bool \<Rightarrow> string \<Rightarrow> json \<Rightarrow> (string \<times> json) list" where
  "omitempty is_empty name j = (if is_empty then [] else [(name, j)])"

definition Condition_json :: "Condition \<Rightarrow> json" where
  "Condition_json c =
     JObj ([(''attribute'', JStr (cond_Attribute c)), (''op'', JInt (enum_Operator (cond_Op c))),
            (''values'', JArr (map Value_MarshalJSON (cond_Values c)))] @
           omitempty (\<not> cond_Negate c) ''negate'' (JBool (cond_Negate c)))"

definition Rule_json :: "Rule \<Rightarrow> json" where
  "Rule_json r =
     JObj [(''id'', JStr (rule_ID r)), (''conditions'', JArr (map Condition_json (rule_Conditions r))),
           (''combiner'', JInt (enum_LogicOp (rule_Combiner r))),
           (''value'', Value_MarshalJSON (rule_Value r))]"

definition Rollout_json :: "Rollout \<Rightarrow> json" where
  "Rollout_json r =
     JObj ([(''basis_points'', JInt (sint (roll_BasisPoints r)))] @
           omitempty (roll_BucketNamespace r = []) ''bucket_namespace'' (JStr (roll_BucketNamespace r)) @
           omitempty (roll_BucketBy r = []) ''bucket_by'' (JStr (roll_BucketBy r)) @
           [(''on_value'', Value_MarshalJSON (roll_OnValue r)),
            (''off_value'', Value_MarshalJSON (roll_OffValue r))])"

definition Flag_json :: "Flag \<Rightarrow> json" where
  "Flag_json f =
     JObj ([(''key'', JStr (flag_Key f)), (''type'', JInt (enum_ValueType (flag_Type f))),
            (''enabled'', JBool (flag_Enabled f)),
            (''default_value'', Value_MarshalJSON (flag_DefaultValue f)),
            (''off_value'', Value_MarshalJSON (flag_OffValue f))] @
           omitempty (flag_Rules f = []) ''rules'' (JArr (map Rule_json (flag_Rules f))) @
           (case flag_Rollout f of None \<Rightarrow> [] | Some r \<Rightarrow> [(''rollout'', Rollout_json r)]) @
           omitempty (flag_EvaluationOrder f = OrderUnspecified) ''evaluation_order''
             (JInt (enum_Order (flag_EvaluationOrder f))))"

text \<open>The form says all of the flag: two flags with the same document are the same flag.\<close>

lemma enum_inject [simp]:
  "enum_ValueType t = enum_ValueType t' \<longleftrightarrow> t = t'" "enum_Operator p = enum_Operator p' \<longleftrightarrow> p = p'"
  "enum_LogicOp l = enum_LogicOp l' \<longleftrightarrow> l = l'" "enum_Order q = enum_Order q' \<longleftrightarrow> q = q'"
  subgoal by (cases t; cases t'; simp)
  subgoal by (cases p; cases p'; simp)
  subgoal by (cases l; cases l'; simp)
  subgoal by (cases q; cases q'; simp)
  done

lemma strconv_FormatInt_inject [simp]: "strconv_FormatInt i = strconv_FormatInt j \<longleftrightarrow> i = j"
proof
  assume eq: "strconv_FormatInt i = strconv_FormatInt j"
  have minus: "format_nat m \<noteq> CHR ''-'' # format_nat n" for m n
  proof
    assume "format_nat m = CHR ''-'' # format_nat n"
    then have "CHR ''-'' \<in> set (format_nat m)" by simp
    then show False using format_nat_digits is_digit_not_sign(1) by blast
  qed
  show "i = j"
    using eq minus minus [symmetric] by (auto simp: strconv_FormatInt_def dest!: format_nat_inj split: if_splits)
qed simp

lemma JInt_inject [simp]: "JInt i = JInt j \<longleftrightarrow> i = j"
  by (simp add: JInt_def)

lemma Value_MarshalJSON_inject [simp]: "Value_MarshalJSON v = Value_MarshalJSON w \<longleftrightarrow> v = w"
  by (metis Value_json_roundtrip sum.inject(2))

lemma map_Value_json_inject [simp]: "map Value_MarshalJSON vs = map Value_MarshalJSON ws \<longleftrightarrow> vs = ws"
  by (simp add: inj_map_eq_map inj_on_def)

lemma Condition_json_inject [simp]: "Condition_json c = Condition_json d \<longleftrightarrow> c = d"
  by (cases c; cases d) (auto simp: Condition_json_def omitempty_def)

lemma Rule_json_inject [simp]: "Rule_json r = Rule_json q \<longleftrightarrow> r = q"
  by (cases r; cases q) (auto simp: Rule_json_def inj_map_eq_map inj_on_def)

lemma Rollout_json_inject [simp]: "Rollout_json r = Rollout_json q \<longleftrightarrow> r = q"
  by (cases r; cases q) (auto simp: Rollout_json_def omitempty_def split: if_splits intro: signed_word_eqI)

lemma Flag_json_inject [simp]: "Flag_json f = Flag_json g \<longleftrightarrow> f = g"
  by (cases f; cases g) (auto simp: Flag_json_def omitempty_def inj_map_eq_map inj_on_def split: if_splits option.splits)

section \<open>Snapshots\<close>

record ResolvedSnapshot =
  rs_env :: string
  rs_generation :: int64
  rs_builtAt :: time
  rs_flags :: "(string, Flag) gomap"
  rs_provenance :: "(string, FlagProvenance) gomap"
  rs_quarantined :: "(string, unit) gomap"
  rs_warnings :: Findings
  rs_keys :: "string list"

definition rs_Flag :: "ResolvedSnapshot \<Rightarrow> string \<Rightarrow> Flag option" where
  "rs_Flag s key = gm_get (rs_flags s) key"

definition rs_Len :: "ResolvedSnapshot \<Rightarrow> nat" where
  "rs_Len s = length (rs_flags s)"

definition rs_Provenance :: "ResolvedSnapshot \<Rightarrow> string \<Rightarrow> FlagProvenance option" where
  "rs_Provenance s key = (case gm_get (rs_provenance s) key of None \<Rightarrow> None | Some p \<Rightarrow> Some (fp_Clone p))"

definition IsQuarantined :: "ResolvedSnapshot \<Rightarrow> string \<Rightarrow> bool" where
  "IsQuarantined s key = gm_has (rs_quarantined s) key"

definition QuarantinedKeys :: "ResolvedSnapshot \<Rightarrow> string list" where
  "QuarantinedKeys s = gm_keys (rs_quarantined s)"

definition Fingerprint :: "(string \<Rightarrow> string) \<Rightarrow> (json \<Rightarrow> string) \<Rightarrow> ResolvedSnapshot \<Rightarrow> string" where
  "Fingerprint sha256 render s =
     sha256 (concat (map (\<lambda>k. k @ [CHR 0x00] @
       (case rs_Flag s k of None \<Rightarrow> render JNull | Some f \<Rightarrow> render (Flag_json f)) @ [CHR 0x00]) (rs_keys s)))"

text \<open>What the fingerprint digests, and when the digest and the text tell the served flags of two snapshots apart: the
  digest does not collide on these two inputs, no two of their flags' documents have the same text, and the text of
  a document has no NUL byte (\<^verbatim>\<open>encoding/json\<close> escapes control characters).\<close>

definition hashed_bytes :: "(json \<Rightarrow> string) \<Rightarrow> ResolvedSnapshot \<Rightarrow> string" where
  "hashed_bytes render s = concat (map (\<lambda>k. k @ [CHR 0x00] @
     (case rs_Flag s k of None \<Rightarrow> render JNull | Some f \<Rightarrow> render (Flag_json f)) @ [CHR 0x00]) (rs_keys s))"

definition told_apart :: "(string \<Rightarrow> string) \<times> (json \<Rightarrow> string) \<Rightarrow> ResolvedSnapshot \<Rightarrow> ResolvedSnapshot \<Rightarrow> bool" where
  "told_apart h a b \<longleftrightarrow>
     (fst h (hashed_bytes (snd h) a) = fst h (hashed_bytes (snd h) b) \<longrightarrow>
        hashed_bytes (snd h) a = hashed_bytes (snd h) b)
     \<and> list_all (\<lambda>f. CHR 0x00 \<notin> set (snd h (Flag_json f))) (map snd (rs_flags a) @ map snd (rs_flags b))
     \<and> list_all (\<lambda>f. list_all (\<lambda>g. snd h (Flag_json f) = snd h (Flag_json g) \<longrightarrow> Flag_json f = Flag_json g)
          (map snd (rs_flags b))) (map snd (rs_flags a))"

text \<open>The content of a snapshot, apart from its generation, build time, provenance and warnings.\<close>

definition same_content :: "ResolvedSnapshot \<Rightarrow> ResolvedSnapshot \<Rightarrow> bool" where
  "same_content a b \<longleftrightarrow> rs_flags a = rs_flags b \<and> rs_quarantined a = rs_quarantined b"

lemma Fingerprint_hashed: "Fingerprint d render s = d (hashed_bytes render s)"
  by (simp add: Fingerprint_def hashed_bytes_def)

lemma cut_at_sep:
  assumes "x @ c # u = y @ c # v" and "c \<notin> set x" and "c \<notin> set y"
  shows "x = y \<and> u = v"
  using assms by (induction x arbitrary: y) (case_tac y; auto)+

lemma framed_inject:
  assumes "concat (map (\<lambda>k. k @ [c] @ r k @ [c]) ks) = concat (map (\<lambda>k. k @ [c] @ r' k @ [c]) ls)"
    and "\<And>k. k \<in> set ks \<Longrightarrow> c \<notin> set k \<and> c \<notin> set (r k)" and "\<And>k. k \<in> set ls \<Longrightarrow> c \<notin> set k \<and> c \<notin> set (r' k)"
  shows "ks = ls \<and> (\<forall>k\<in>set ks. r k = r' k)"
  using assms
proof (induction ks arbitrary: ls)
  case Nil
  then show ?case by (cases ls) auto
next
  case (Cons k ks)
  then obtain l ls' where ls: "ls = l # ls'" by (cases ls) auto
  let ?R = "concat (map (\<lambda>k. k @ [c] @ r k @ [c]) ks)" and ?R' = "concat (map (\<lambda>k. k @ [c] @ r' k @ [c]) ls')"
  have "k @ c # (r k @ c # ?R) = l @ c # (r' l @ c # ?R')" using Cons.prems(1) by (simp add: ls)
  then have 1: "k = l" "r k @ c # ?R = r' l @ c # ?R'"
    using cut_at_sep Cons.prems(2) [of k] Cons.prems(3) [of l] ls by fastforce+
  then have 2: "r k = r' l" "?R = ?R'"
    using cut_at_sep [OF 1(2)] Cons.prems(2) [of k] Cons.prems(3) [of l] ls by auto
  have "ks = ls' \<and> (\<forall>k\<in>set ks. r k = r' k)"
    by (rule Cons.IH) (use 2(2) Cons.prems(2,3) ls in auto)
  then show ?case using 1(1) 2(1) ls by simp
qed

text \<open>Equal fingerprints then mean equal flags.\<close>

lemma Fingerprint_told_apart:
  assumes eq: "Fingerprint (fst h) (snd h) a = Fingerprint (fst h) (snd h) b" and told: "told_apart h a b"
    and ok: "gm_ok (rs_flags a)" "gm_ok (rs_flags b)" "rs_keys a = gm_keys (rs_flags a)" "rs_keys b = gm_keys (rs_flags b)"
    and keys: "\<And>k. k \<in> set (rs_keys a) \<union> set (rs_keys b) \<Longrightarrow> CHR 0x00 \<notin> set k"
  shows "rs_flags a = rs_flags b"
proof -
  let ?doc = "\<lambda>s k. case rs_Flag s k of None \<Rightarrow> snd h JNull | Some f \<Rightarrow> snd h (Flag_json f)"
  have served: "\<exists>f. rs_Flag s k = Some f \<and> f \<in> snd ` set (rs_flags s)"
    if k: "k \<in> set (rs_keys s)" and s: "rs_keys s = gm_keys (rs_flags s)" for s k
  proof -
    obtain f where "gm_get (rs_flags s) k = Some f" using k by (auto simp: s gm_keys_iff)
    then show ?thesis by (force simp: rs_Flag_def gm_get_def dest: map_of_SomeD)
  qed
  have nul: "CHR 0x00 \<notin> set (snd h (Flag_json f))" if "f \<in> snd ` set (rs_flags a) \<union> snd ` set (rs_flags b)" for f
    using that told by (simp add: told_apart_def list_all_iff)
  have clean: "CHR 0x00 \<notin> set (?doc a k)" if k: "k \<in> set (rs_keys a)" for k
  proof -
    obtain f where "rs_Flag a k = Some f" "f \<in> snd ` set (rs_flags a)" using served [OF k ok(3)] by blast
    then show ?thesis using nul [of f] by simp
  qed
  have clean': "CHR 0x00 \<notin> set (?doc b k)" if k: "k \<in> set (rs_keys b)" for k
  proof -
    obtain f where "rs_Flag b k = Some f" "f \<in> snd ` set (rs_flags b)" using served [OF k ok(4)] by blast
    then show ?thesis using nul [of f] by simp
  qed
  have "hashed_bytes (snd h) a = hashed_bytes (snd h) b"
    using eq told by (simp add: Fingerprint_hashed told_apart_def)
  then have same: "rs_keys a = rs_keys b \<and> (\<forall>k\<in>set (rs_keys a). ?doc a k = ?doc b k)"
    unfolding hashed_bytes_def by (rule framed_inject) (simp_all add: keys clean clean')
  show ?thesis
  proof (rule gm_eqI [OF ok(1,2)])
    fix k
    show "gm_get (rs_flags a) k = gm_get (rs_flags b) k"
    proof (cases "k \<in> set (rs_keys a)")
      case True
      then have "k \<in> set (rs_keys b)" using same by simp
      then obtain f g where fg: "rs_Flag a k = Some f" "f \<in> snd ` set (rs_flags a)" "rs_Flag b k = Some g"
          "g \<in> snd ` set (rs_flags b)"
        using served ok(3,4) True by meson
      then have "snd h (Flag_json f) = snd h (Flag_json g)" using same True by force
      then have "f = g" using told fg(2,4) by (auto simp: told_apart_def list_all_iff)
      then show ?thesis using fg by (simp add: rs_Flag_def)
    next
      case False
      then have "k \<notin> set (rs_keys b)" using same by simp
      with False show ?thesis by (simp add: ok(3,4) gm_keys_iff)
    qed
  qed
qed

text \<open>A published snapshot through the evaluator's interface.\<close>

definition view_of :: "ResolvedSnapshot \<Rightarrow> snapshot_view" where
  "view_of s = \<lparr>snap_Generation = Some (rs_generation s), snap_Env = rs_env s,
     snap_Flag = (\<lambda>k. Some (case rs_Flag s k of None \<Rightarrow> (None, False) | Some f \<Rightarrow> (Some f, True))),
     snap_Len = rs_Len s\<rparr>"

section \<open>The builder\<close>

record snapshotBuilder =
  sb_env :: string
  sb_flags :: "(string, Flag) gomap"
  sb_provenance :: "(string, FlagProvenance) gomap"
  sb_quarantined :: "(string, unit) gomap"
  sb_warnings :: Findings

definition newSnapshotBuilder :: "string \<Rightarrow> snapshotBuilder" where
  "newSnapshotBuilder env =
     \<lparr>sb_env = env, sb_flags = [], sb_provenance = [], sb_quarantined = [], sb_warnings = []\<rparr>"

definition sb_add :: "Flag \<Rightarrow> FlagProvenance \<Rightarrow> snapshotBuilder \<Rightarrow> snapshotBuilder" where
  "sb_add f prov b =
     b\<lparr>sb_flags := gm_set (flag_Key f) f (sb_flags b),
       sb_provenance := gm_set (flag_Key f) prov (sb_provenance b)\<rparr>"

definition markQuarantined :: "string \<Rightarrow> snapshotBuilder \<Rightarrow> snapshotBuilder" where
  "markQuarantined key b = b\<lparr>sb_quarantined := gm_set key () (sb_quarantined b)\<rparr>"

definition addQuarantined :: "Flag \<Rightarrow> FlagProvenance \<Rightarrow> snapshotBuilder \<Rightarrow> snapshotBuilder" where
  "addQuarantined f prov b = markQuarantined (flag_Key f) (sb_add f prov b)"

definition sb_warn :: "Findings \<Rightarrow> snapshotBuilder \<Rightarrow> snapshotBuilder" where
  "sb_warn fs b = b\<lparr>sb_warnings := sb_warnings b @ fs\<rparr>"

definition quarantineCount :: "snapshotBuilder \<Rightarrow> nat" where
  "quarantineCount b = length (sb_quarantined b)"

definition sb_build :: "int64 \<Rightarrow> time \<Rightarrow> snapshotBuilder \<Rightarrow> ResolvedSnapshot" where
  "sb_build generation at b =
     \<lparr>rs_env = sb_env b, rs_generation = generation, rs_builtAt = at, rs_flags = sb_flags b,
      rs_provenance = sb_provenance b, rs_quarantined = sb_quarantined b,
      rs_warnings = sb_warnings b, rs_keys = gm_keys (sb_flags b)\<rparr>"

lemma sb_add_sel [simp]:
  "sb_flags (sb_add f p b) = gm_set (flag_Key f) f (sb_flags b)"
  "sb_quarantined (sb_add f p b) = sb_quarantined b" "sb_env (sb_add f p b) = sb_env b"
  "sb_flags (markQuarantined k b) = sb_flags b"
  "sb_quarantined (markQuarantined k b) = gm_set k () (sb_quarantined b)"
  "sb_env (markQuarantined k b) = sb_env b"
  "sb_flags (sb_warn fs b) = sb_flags b" "sb_quarantined (sb_warn fs b) = sb_quarantined b"
  "sb_env (sb_warn fs b) = sb_env b"
  by (simp_all add: sb_add_def markQuarantined_def sb_warn_def)

lemma addQuarantined_sel [simp]:
  "sb_flags (addQuarantined f p b) = gm_set (flag_Key f) f (sb_flags b)"
  "sb_quarantined (addQuarantined f p b) = gm_set (flag_Key f) () (sb_quarantined b)"
  "sb_env (addQuarantined f p b) = sb_env b"
  by (simp_all add: addQuarantined_def)

lemma sb_build_sel [simp]:
  "rs_Flag (sb_build g t b) k = gm_get (sb_flags b) k" "rs_generation (sb_build g t b) = g"
  "rs_env (sb_build g t b) = sb_env b" "rs_flags (sb_build g t b) = sb_flags b"
  "rs_quarantined (sb_build g t b) = sb_quarantined b" "rs_keys (sb_build g t b) = gm_keys (sb_flags b)"
  "IsQuarantined (sb_build g t b) k = gm_has (sb_quarantined b) k"
  by (simp_all add: sb_build_def rs_Flag_def IsQuarantined_def)

end
