(* ===== verification/Std_Strings.thy ===== *)
theory Std_Strings
  imports Prelude
begin

text \<open>
  What the transport and the observability packages use of \<^verbatim>\<open>strings\<close> and \<^verbatim>\<open>encoding/hex\<close>. A string is a
  list of bytes in UTF-8. The case mappings are given as far as ASCII text can see them: beside the letters A
  to Z only three characters map to an ASCII letter, and no other character maps to an ASCII byte.
\<close>

section \<open>Letter case\<close>

definition lower_byte :: "char \<Rightarrow> char" where
  "lower_byte c = (if is_upper c then char_of (byte c + 32) else c)"

definition is_ascii :: "char \<Rightarrow> bool" where
  "is_ascii c \<longleftrightarrow> byte c < 128"

text \<open>Replaces the encoded characters of a table by single bytes, and capital letters by small ones.\<close>

fun recase :: "(string \<times> char) list \<Rightarrow> string \<Rightarrow> string" where
  "recase t [] = []"
| "recase t (c # s) =
     (case find (\<lambda>e. prefix (fst e) (c # s)) t of
        Some (p, d) \<Rightarrow> d # recase t (drop (length p - 1) s)
      | None \<Rightarrow> lower_byte c # recase t s)"

text \<open>The capital I with a dot above and the Kelvin sign are lowered to an ASCII letter.\<close>

definition lower_table :: "(string \<times> char) list" where
  "lower_table = [([CHR 0xC4, CHR 0xB0], CHR ''i''), ([CHR 0xE2, CHR 0x84, CHR 0xAA], CHR ''k'')]"

definition strings_ToLower :: "string \<Rightarrow> string" where
  "strings_ToLower = recase lower_table"

text \<open>The long s and the Kelvin sign fold to an ASCII letter.\<close>

definition fold_table :: "(string \<times> char) list" where
  "fold_table = [([CHR 0xC5, CHR 0xBF], CHR ''s''), ([CHR 0xE2, CHR 0x84, CHR 0xAA], CHR ''k'')]"

definition strings_fold :: "string \<Rightarrow> string" where
  "strings_fold = recase fold_table"

text \<open>\<^verbatim>\<open>strings.EqualFold\<close> with an ASCII string.\<close>

definition strings_EqualFold :: "string \<Rightarrow> string \<Rightarrow> bool" where
  "strings_EqualFold s t \<longleftrightarrow> strings_fold s = strings_fold t"

lemma byte_char_of: "n < 256 \<Longrightarrow> byte (char_of n) = n"
  by simp

lemma lower_byte_ascii: "is_ascii (lower_byte c) \<longleftrightarrow> is_ascii c"
  by (auto simp: lower_byte_def is_ascii_def is_upper_def)

lemma lower_byte_idem [simp]: "lower_byte (lower_byte c) = lower_byte c"
  by (auto simp: lower_byte_def is_upper_def)

lemma not_upper_lower_byte [simp]: "\<not> is_upper (lower_byte c)"
  by (auto simp: lower_byte_def is_upper_def)

definition wide_table :: "(string \<times> char) list \<Rightarrow> bool" where
  "wide_table t \<longleftrightarrow> (\<forall>e \<in> set t. fst e \<noteq> [] \<and> (\<forall>c \<in> set (fst e). \<not> is_ascii c) \<and> is_lower (snd e))"

lemma wide_tables [simp]: "wide_table lower_table" "wide_table fold_table"
  by (auto simp: wide_table_def lower_table_def fold_table_def is_ascii_def is_lower_def)

lemma wide_prefix:
  assumes "\<forall>c \<in> set p. \<not> is_ascii c" "y = [] \<or> is_ascii (hd y)"
  shows "prefix p (x @ y) \<longleftrightarrow> prefix p x"
  using assms
proof (induction p arbitrary: x)
  case (Cons c p)
  then show ?case by (cases x; cases y) auto
qed simp

lemma recase_append:
  assumes "wide_table t" "y = [] \<or> is_ascii (hd y)"
  shows "recase t (x @ y) = recase t x @ recase t y"
  using assms
proof (induction t x rule: recase.induct)
  case (2 t c s)
  have same: "find (\<lambda>e. prefix (fst e) (c # s @ y)) t = find (\<lambda>e. prefix (fst e) (c # s)) t"
    using 2(3,4) by (intro find_cong) (auto simp: wide_table_def wide_prefix [of _ y "c # s", simplified])
  show ?case
  proof (cases "find (\<lambda>e. prefix (fst e) (c # s)) t")
    case None
    then show ?thesis using 2 same by simp
  next
    case (Some e)
    obtain p d where e: "e = (p, d)" by (rule prod.exhaust)
    from Some e have "prefix p (c # s)" by (metis fst_conv find_Some_iff)
    then have "length p \<le> Suc (length s)" using prefix_length_le [of p "c # s"] by simp
    then have "drop (length p - 1) (s @ y) = drop (length p - 1) s @ y" by simp
    then show ?thesis using 2(2) [OF Some e [symmetric] 2(3,4)] Some same e by simp
  qed
qed simp

lemma recase_ascii_append:
  assumes "wide_table t" "\<forall>c \<in> set q. is_ascii c"
  shows "recase t (q @ y) = map lower_byte q @ recase t y"
  using assms
proof (induction q)
  case (Cons c q)
  have "find (\<lambda>e. prefix (fst e) (c # q @ y)) t = None"
    using Cons.prems by (auto simp: find_None_iff wide_table_def prefix_Cons)
  then show ?case using Cons by simp
qed simp

lemmas recase_ascii = recase_ascii_append [where y = "[]", simplified]

lemma recase_finds:
  assumes "wide_table t" "strings_Contains (map lower_byte s) pat" "\<forall>c \<in> set pat. is_ascii c" "pat \<noteq> []"
  shows "strings_Contains (recase t s) pat"
proof -
  from assms(2) obtain a b where "map lower_byte s = a @ pat @ b" by (auto simp: strings_Contains_iff)
  then obtain x q y where s: "s = x @ q @ y" and q: "map lower_byte q = pat"
    by (metis map_eq_append_conv)
  have asc: "\<forall>c \<in> set q. is_ascii c" using q assms(3) lower_byte_ascii by fastforce
  have "q \<noteq> []" using q assms(4) by auto
  then have "is_ascii (hd (q @ y))" using asc by (cases q) auto
  then have "recase t s = recase t x @ pat @ recase t y"
    using assms(1) asc q s by (simp add: recase_append recase_ascii_append)
  then show ?thesis by (auto simp: strings_Contains_iff)
qed

lemma ToLower_finds:
  "strings_Contains (map lower_byte s) pat \<Longrightarrow> list_all is_ascii pat \<Longrightarrow> pat \<noteq> [] \<Longrightarrow>
     strings_Contains (strings_ToLower s) pat"
  by (simp add: strings_ToLower_def recase_finds list_all_iff)

lemma ToLower_ascii: "list_all is_ascii s \<Longrightarrow> strings_ToLower s = map lower_byte s"
  by (simp add: strings_ToLower_def recase_ascii list_all_iff)

section \<open>White space\<close>

text \<open>The encodings of the characters \<^verbatim>\<open>unicode.IsSpace\<close> accepts.\<close>

definition space_encodings :: "string list" where
  "space_encodings =
     [[CHR 0x09], [CHR 0x0A], [CHR 0x0B], [CHR 0x0C], [CHR 0x0D], [CHR 0x20], [CHR 0xC2, CHR 0x85],
      [CHR 0xC2, CHR 0xA0], [CHR 0xE1, CHR 0x9A, CHR 0x80], [CHR 0xE2, CHR 0x80, CHR 0x80],
      [CHR 0xE2, CHR 0x80, CHR 0x81], [CHR 0xE2, CHR 0x80, CHR 0x82], [CHR 0xE2, CHR 0x80, CHR 0x83],
      [CHR 0xE2, CHR 0x80, CHR 0x84], [CHR 0xE2, CHR 0x80, CHR 0x85], [CHR 0xE2, CHR 0x80, CHR 0x86],
      [CHR 0xE2, CHR 0x80, CHR 0x87], [CHR 0xE2, CHR 0x80, CHR 0x88], [CHR 0xE2, CHR 0x80, CHR 0x89],
      [CHR 0xE2, CHR 0x80, CHR 0x8A], [CHR 0xE2, CHR 0x80, CHR 0xA8], [CHR 0xE2, CHR 0x80, CHR 0xA9],
      [CHR 0xE2, CHR 0x80, CHR 0xAF], [CHR 0xE2, CHR 0x81, CHR 0x9F], [CHR 0xE3, CHR 0x80, CHR 0x80]]"

text \<open>Drops members of a set of non-empty words from the front.\<close>

lemma strip_decreases:
  "find (\<lambda>w. w \<noteq> [] \<and> prefix w s) ws = Some w \<Longrightarrow> length (drop (length w) s) < length s"
  by (auto simp: find_Some_iff dest!: prefix_length_le) (metis diff_less length_greater_0_conv less_le_trans)

function strip :: "string list \<Rightarrow> string \<Rightarrow> string" where
  "strip ws s =
     (case find (\<lambda>w. w \<noteq> [] \<and> prefix w s) ws of None \<Rightarrow> s | Some w \<Rightarrow> strip ws (drop (length w) s))"
  by pat_completeness auto

termination strip
  by (relation "measure (\<lambda>(ws, s). length s)") (use strip_decreases in fastforce)+

declare strip.simps [simp del]

definition strings_TrimSpace :: "string \<Rightarrow> string" where
  "strings_TrimSpace s =
     rev (strip (map rev space_encodings) (rev (strip space_encodings s)))"

lemma strip_suffix: "suffix (strip ws s) s"
proof (induction ws s rule: strip.induct)
  case (1 ws s)
  show ?case
  proof (cases "find (\<lambda>w. w \<noteq> [] \<and> prefix w s) ws")
    case None
    then show ?thesis by (simp add: strip.simps)
  next
    case (Some w)
    then have "suffix (strip ws (drop (length w) s)) (drop (length w) s)" using 1 by simp
    then show ?thesis using Some by (simp add: strip.simps [of ws s] suffix_drop suffix_order.trans)
  qed
qed

lemma strip_id: "(\<And>w. w \<in> set ws \<Longrightarrow> w \<noteq> [] \<Longrightarrow> \<not> prefix w s) \<Longrightarrow> strip ws s = s"
  by (subst strip.simps) (auto split: option.splits simp: find_Some_iff)

lemma TrimSpace_part: "\<exists>a b. s = a @ strings_TrimSpace s @ b"
proof -
  obtain a where a: "s = a @ strip space_encodings s" using strip_suffix [of space_encodings s] by (auto simp: suffix_def)
  obtain b where "rev (strip space_encodings s) = b @ rev (strings_TrimSpace s)"
    using strip_suffix [of "map rev space_encodings" "rev (strip space_encodings s)"]
    by (auto simp: suffix_def strings_TrimSpace_def)
  then have "strip space_encodings s = strings_TrimSpace s @ rev b" by (metis rev_append rev_rev_ident)
  with a show ?thesis by metis
qed

lemma TrimSpace_set: "set (strings_TrimSpace s) \<subseteq> set s"
  using TrimSpace_part [of s] by (metis Un_upper1 Un_upper2 set_append subset_trans)

definition is_blank :: "char \<Rightarrow> bool" where
  "is_blank c \<longleftrightarrow> byte c \<in> {9, 10, 11, 12, 13, 32}"

lemma space_first: "w \<in> set space_encodings \<Longrightarrow> w \<noteq> [] \<and> (is_blank (hd w) \<or> \<not> is_ascii (hd w)) \<and>
   (is_blank (last w) \<or> \<not> is_ascii (last w))"
  by (auto simp: space_encodings_def is_blank_def is_ascii_def)

lemma not_prefix_hd: "w \<noteq> [] \<Longrightarrow> hd w \<notin> set s \<Longrightarrow> \<not> prefix w s"
  by (cases w) (auto simp: prefix_def)

text \<open>A text of visible ASCII characters is left alone.\<close>

lemma TrimSpace_id:
  assumes "\<And>c. c \<in> set s \<Longrightarrow> is_ascii c \<and> \<not> is_blank c"
  shows "strings_TrimSpace s = s"
proof -
  have "strip space_encodings s = s"
  proof (rule strip_id)
    fix w assume "w \<in> set space_encodings" "w \<noteq> []"
    then show "\<not> prefix w s" using assms [of "hd w"] space_first [of w] by (intro not_prefix_hd) auto
  qed
  moreover have "strip (map rev space_encodings) (rev s) = rev s"
  proof (rule strip_id)
    fix w assume "w \<in> set (map rev space_encodings)" "w \<noteq> []"
    then obtain v where v: "v \<in> set space_encodings" "w = rev v" by auto
    then show "\<not> prefix w (rev s)"
      using assms [of "last v"] space_first [OF v(1)] \<open>w \<noteq> []\<close> by (intro not_prefix_hd) (auto simp: hd_rev)
  qed
  ultimately show ?thesis by (simp add: strings_TrimSpace_def)
qed

section \<open>Splitting and hexadecimal text\<close>

text \<open>\<^verbatim>\<open>strings.Split\<close> with a separator of one byte.\<close>

fun strings_Split :: "string \<Rightarrow> char \<Rightarrow> string list" where
  "strings_Split [] c = [[]]"
| "strings_Split (x # xs) c =
     (if x = c then [] # strings_Split xs c
      else (case strings_Split xs c of [] \<Rightarrow> [[x]] | p # ps \<Rightarrow> (x # p) # ps))"

lemma Split_nonempty [simp]: "strings_Split s c \<noteq> []"
  by (induction s) (auto split: list.splits)

lemma Split_plain: "c \<notin> set s \<Longrightarrow> strings_Split s c = [s]"
  by (induction s) auto

lemma Split_append: "c \<notin> set a \<Longrightarrow> strings_Split (a @ c # b) c = a # strings_Split b c"
  by (induction a) auto

definition strings_ContainsAny :: "string \<Rightarrow> string \<Rightarrow> bool" where
  "strings_ContainsAny s chars \<longleftrightarrow> list_ex (\<lambda>c. c \<in> set chars) s"

definition hex_digits :: string where
  "hex_digits = ''0123456789abcdef''"

definition is_hex :: "char \<Rightarrow> bool" where
  "is_hex c \<longleftrightarrow> is_digit c \<or> 97 \<le> byte c \<and> byte c \<le> 102"

definition hex_EncodeToString :: "string \<Rightarrow> string" where
  "hex_EncodeToString bs = concat (map (\<lambda>b. [hex_digits ! (byte b div 16), hex_digits ! (byte b mod 16)]) bs)"

lemma hex_digit_at: "n < 16 \<Longrightarrow> is_hex (hex_digits ! n)"
proof -
  have "list_all (\<lambda>n. is_hex (hex_digits ! n)) [0..<16]" by code_simp
  then show "n < 16 \<Longrightarrow> is_hex (hex_digits ! n)" by (simp add: list_all_iff)
qed

lemma byte_high_nibble [simp]: "byte c div 16 < 16"
  using nat_of_char_less_256 [of c] by linarith

lemma hex_Encode_chars: "c \<in> set (hex_EncodeToString bs) \<Longrightarrow> is_hex c"
  by (auto simp: hex_EncodeToString_def intro!: hex_digit_at)

lemma hex_Encode_length [simp]: "length (hex_EncodeToString bs) = 2 * length bs"
  by (induction bs) (auto simp: hex_EncodeToString_def)

end
