(* ===== verification/Client_Codec.thy ===== *)
theory Client_Codec
  imports Config_Snapshot Std_Strings
begin

text \<open>
  The snapshots of the client and their disk format: \<^verbatim>\<open>MemSnapshot\<close> and \<^verbatim>\<open>JSONCodec\<close> of
  \<^verbatim>\<open>pkg/client/cache.go\<close>. The wire structs are records; their members and the decoding of a member
  follow \<^verbatim>\<open>encoding/json\<close>: an unknown member is ignored, an absent one and a null leave the zero value, a member
  matches its field in any letter case, and the last of equal names counts. The text of a document is
  not modelled, and a string is taken to be valid UTF-8, as every decoded one is.
\<close>

section \<open>Snapshots in memory\<close>

record MemSnapshot =
  mem_env :: string
  mem_gen :: int64
  mem_flags :: "(string, Flag) gomap"

definition NewMemSnapshot :: "string \<Rightarrow> int64 \<Rightarrow> Flag list \<Rightarrow> MemSnapshot" where
  "NewMemSnapshot env generation flags =
     \<lparr>mem_env = env, mem_gen = generation, mem_flags = foldl (\<lambda>m f. gm_set (flag_Key f) f m) [] flags\<rparr>"

definition mem_Flag :: "MemSnapshot \<Rightarrow> string \<Rightarrow> Flag option" where
  "mem_Flag m key = gm_get (mem_flags m) key"

definition mem_view :: "MemSnapshot \<Rightarrow> snapshot_view" where
  "mem_view m = \<lparr>snap_Generation = Some (mem_gen m), snap_Env = mem_env m,
     snap_Flag = (\<lambda>k. Some (case mem_Flag m k of None \<Rightarrow> (None, False) | Some f \<Rightarrow> (Some f, True))),
     snap_Len = length (mem_flags m)\<rparr>"

text \<open>What the client is handed as a \<^verbatim>\<open>core.Snapshot\<close>: one of its own, or another implementation.\<close>

datatype Snapshot = SnapMem MemSnapshot | SnapOther snapshot_view

fun snapshot_of :: "Snapshot \<Rightarrow> snapshot_view" where
  "snapshot_of (SnapMem m) = mem_view m"
| "snapshot_of (SnapOther v) = v"

section \<open>Decoding\<close>

datatype codec_error = NilSnapshot | CannotEncode | BadDocument | BadFormat int64
  | UnknownType string string | UnknownOrder string string | UnknownOperator string string

type_synonym 'a decoder = "json \<Rightarrow> codec_error + 'a"

fun dec_string :: "string decoder" where
  "dec_string JNull = Inr []" | "dec_string (JStr s) = Inr s" | "dec_string _ = Inl BadDocument"

fun dec_bool :: "bool decoder" where
  "dec_bool JNull = Inr False" | "dec_bool (JBool b) = Inr b" | "dec_bool _ = Inl BadDocument"

fun dec_int64 :: "int64 decoder" where
  "dec_int64 JNull = Inr 0"
| "dec_int64 (JNum t) = (case strconv_ParseInt64 t of None \<Rightarrow> Inl BadDocument | Some n \<Rightarrow> Inr n)"
| "dec_int64 _ = Inl BadDocument"

definition dec_int32 :: "int32 decoder" where
  "dec_int32 j = rbind (dec_int64 j) (\<lambda>n.
     if - (2 ^ 31) \<le> sint n \<and> sint n < 2 ^ 31 then Inr (of_int (sint n)) else Inl BadDocument)"

definition dec_value :: "Value decoder" where
  "dec_value j = (case Value_UnmarshalJSON j of Inl _ \<Rightarrow> Inl BadDocument | Inr v \<Rightarrow> Inr v)"

fun dec_list :: "'a decoder \<Rightarrow> 'a list decoder" where
  "dec_list d JNull = Inr []" | "dec_list d (JArr js) = rmap d js" | "dec_list d _ = Inl BadDocument"

definition dec_pointer :: "'a decoder \<Rightarrow> 'a option decoder" where
  "dec_pointer d j = (if j = JNull then Inr None else rbind (d j) (\<lambda>x. Inr (Some x)))"

fun dec_struct :: "((string \<times> json) list \<Rightarrow> codec_error + 'a) \<Rightarrow> 'a decoder" where
  "dec_struct d JNull = d []" | "dec_struct d (JObj ms) = d ms" | "dec_struct d _ = Inl BadDocument"

definition fold_name :: "string \<Rightarrow> string" where
  "fold_name s = strings_fold s"

definition member :: "(string \<times> json) list \<Rightarrow> string \<Rightarrow> json" where
  "member ms name =
     (case find (\<lambda>p. fold_name (fst p) = fold_name name) (rev ms) of None \<Rightarrow> JNull | Some p \<Rightarrow> snd p)"

section \<open>The wire structs\<close>

record jsonCond =
  jc_Attribute :: string
  jc_Op :: string
  jc_Values :: "Value list"
  jc_Negate :: bool

record jsonRule =
  jr_ID :: string
  jr_Conditions :: "jsonCond list"
  jr_Combiner :: string
  jr_Value :: Value

record jsonRoll =
  jo_BasisPoints :: int32
  jo_BucketNamespace :: string
  jo_BucketBy :: string
  jo_OnValue :: Value
  jo_OffValue :: Value

record jsonFlag =
  jf_Key :: string
  jf_Type :: string
  jf_Enabled :: bool
  jf_DefaultValue :: Value
  jf_OffValue :: Value
  jf_Rules :: "jsonRule list"
  jf_Rollout :: "jsonRoll option"
  jf_EvaluationOrder :: string

record jsonSnapshot =
  js_Format :: int64
  js_Env :: string
  js_Generation :: int64
  js_Flags :: "jsonFlag list"

definition l2FormatVersion :: int64 where "l2FormatVersion = 1"

text \<open>A slice that was only ever appended to is nil, and so null, while it is empty.\<close>

definition slice :: "('a \<Rightarrow> json) \<Rightarrow> 'a list \<Rightarrow> json" where
  "slice enc xs = (if xs = [] then JNull else JArr (map enc xs))"

definition marshal_cond :: "jsonCond \<Rightarrow> json" where
  "marshal_cond c =
     JObj ([(''attribute'', JStr (jc_Attribute c)), (''op'', JStr (jc_Op c)),
            (''values'', JArr (map Value_MarshalJSON (jc_Values c)))] @
           omitempty (\<not> jc_Negate c) ''negate'' (JBool (jc_Negate c)))"

definition marshal_rule :: "jsonRule \<Rightarrow> json" where
  "marshal_rule r =
     JObj [(''id'', JStr (jr_ID r)), (''conditions'', slice marshal_cond (jr_Conditions r)),
           (''combiner'', JStr (jr_Combiner r)), (''value'', Value_MarshalJSON (jr_Value r))]"

definition marshal_roll :: "jsonRoll \<Rightarrow> json" where
  "marshal_roll r =
     JObj ([(''basis_points'', JInt (sint (jo_BasisPoints r)))] @
           omitempty (jo_BucketNamespace r = []) ''bucket_namespace'' (JStr (jo_BucketNamespace r)) @
           omitempty (jo_BucketBy r = []) ''bucket_by'' (JStr (jo_BucketBy r)) @
           [(''on_value'', Value_MarshalJSON (jo_OnValue r)),
            (''off_value'', Value_MarshalJSON (jo_OffValue r))])"

definition marshal_flag :: "jsonFlag \<Rightarrow> json" where
  "marshal_flag f =
     JObj ([(''key'', JStr (jf_Key f)), (''type'', JStr (jf_Type f)), (''enabled'', JBool (jf_Enabled f)),
            (''default_value'', Value_MarshalJSON (jf_DefaultValue f)),
            (''off_value'', Value_MarshalJSON (jf_OffValue f))] @
           omitempty (jf_Rules f = []) ''rules'' (JArr (map marshal_rule (jf_Rules f))) @
           (case jf_Rollout f of None \<Rightarrow> [] | Some r \<Rightarrow> [(''rollout'', marshal_roll r)]) @
           omitempty (jf_EvaluationOrder f = []) ''evaluation_order'' (JStr (jf_EvaluationOrder f)))"

definition marshal_snapshot :: "jsonSnapshot \<Rightarrow> json" where
  "marshal_snapshot s =
     JObj [(''format'', JInt (sint (js_Format s))), (''env'', JStr (js_Env s)),
           (''generation'', JInt (sint (js_Generation s))), (''flags'', JArr (map marshal_flag (js_Flags s)))]"

definition unmarshal_cond :: "jsonCond decoder" where
  "unmarshal_cond = dec_struct (\<lambda>ms.
     rbind (dec_string (member ms ''attribute'')) (\<lambda>a.
     rbind (dec_string (member ms ''op'')) (\<lambda>op.
     rbind (dec_list dec_value (member ms ''values'')) (\<lambda>vs.
     rbind (dec_bool (member ms ''negate'')) (\<lambda>n.
     Inr \<lparr>jc_Attribute = a, jc_Op = op, jc_Values = vs, jc_Negate = n\<rparr>)))))"

definition unmarshal_rule :: "jsonRule decoder" where
  "unmarshal_rule = dec_struct (\<lambda>ms.
     rbind (dec_string (member ms ''id'')) (\<lambda>i.
     rbind (dec_list unmarshal_cond (member ms ''conditions'')) (\<lambda>cs.
     rbind (dec_string (member ms ''combiner'')) (\<lambda>cb.
     rbind (dec_value (member ms ''value'')) (\<lambda>v.
     Inr \<lparr>jr_ID = i, jr_Conditions = cs, jr_Combiner = cb, jr_Value = v\<rparr>)))))"

definition unmarshal_roll :: "jsonRoll decoder" where
  "unmarshal_roll = dec_struct (\<lambda>ms.
     rbind (dec_int32 (member ms ''basis_points'')) (\<lambda>bp.
     rbind (dec_string (member ms ''bucket_namespace'')) (\<lambda>ns.
     rbind (dec_string (member ms ''bucket_by'')) (\<lambda>by.
     rbind (dec_value (member ms ''on_value'')) (\<lambda>on.
     rbind (dec_value (member ms ''off_value'')) (\<lambda>off.
     Inr \<lparr>jo_BasisPoints = bp, jo_BucketNamespace = ns, jo_BucketBy = by, jo_OnValue = on,
       jo_OffValue = off\<rparr>))))))"

definition unmarshal_flag :: "jsonFlag decoder" where
  "unmarshal_flag = dec_struct (\<lambda>ms.
     rbind (dec_string (member ms ''key'')) (\<lambda>k.
     rbind (dec_string (member ms ''type'')) (\<lambda>t.
     rbind (dec_bool (member ms ''enabled'')) (\<lambda>e.
     rbind (dec_value (member ms ''default_value'')) (\<lambda>d.
     rbind (dec_value (member ms ''off_value'')) (\<lambda>off.
     rbind (dec_list unmarshal_rule (member ms ''rules'')) (\<lambda>rs.
     rbind (dec_pointer unmarshal_roll (member ms ''rollout'')) (\<lambda>ro.
     rbind (dec_string (member ms ''evaluation_order'')) (\<lambda>o1.
     Inr \<lparr>jf_Key = k, jf_Type = t, jf_Enabled = e, jf_DefaultValue = d, jf_OffValue = off,
       jf_Rules = rs, jf_Rollout = ro, jf_EvaluationOrder = o1\<rparr>)))))))))"

definition unmarshal_snapshot :: "jsonSnapshot decoder" where
  "unmarshal_snapshot = dec_struct (\<lambda>ms.
     rbind (dec_int64 (member ms ''format'')) (\<lambda>v.
     rbind (dec_string (member ms ''env'')) (\<lambda>e.
     rbind (dec_int64 (member ms ''generation'')) (\<lambda>g.
     rbind (dec_list unmarshal_flag (member ms ''flags'')) (\<lambda>fs.
     Inr \<lparr>js_Format = v, js_Env = e, js_Generation = g, js_Flags = fs\<rparr>)))))"

section \<open>The codec\<close>

definition encode_cond :: "Condition \<Rightarrow> jsonCond" where
  "encode_cond c = \<lparr>jc_Attribute = cond_Attribute c, jc_Op = Operator_String (cond_Op c),
     jc_Values = cond_Values c, jc_Negate = cond_Negate c\<rparr>"

definition encode_rule :: "Rule \<Rightarrow> jsonRule" where
  "encode_rule r = \<lparr>jr_ID = rule_ID r, jr_Conditions = map encode_cond (rule_Conditions r),
     jr_Combiner = LogicOp_String (rule_Combiner r), jr_Value = rule_Value r\<rparr>"

definition encode_flag :: "Flag \<Rightarrow> jsonFlag" where
  "encode_flag f =
     \<lparr>jf_Key = flag_Key f, jf_Type = ValueType_String (flag_Type f), jf_Enabled = flag_Enabled f,
      jf_DefaultValue = flag_DefaultValue f, jf_OffValue = flag_OffValue f,
      jf_Rules = map encode_rule (flag_Rules f),
      jf_Rollout = map_option (\<lambda>r. \<lparr>jo_BasisPoints = roll_BasisPoints r,
        jo_BucketNamespace = roll_BucketNamespace r, jo_BucketBy = roll_BucketBy r,
        jo_OnValue = roll_OnValue r, jo_OffValue = roll_OffValue r\<rparr>) (flag_Rollout f),
      jf_EvaluationOrder =
        (if flag_EvaluationOrder f \<noteq> OrderUnspecified then EvaluationOrder_String (flag_EvaluationOrder f)
         else [])\<rparr>"

text \<open>The flags are written in the order in which the range over the map visits its keys.\<close>

definition Encode :: "string list \<Rightarrow> Snapshot option \<Rightarrow> codec_error + json" where
  "Encode order s =
     (case s of
        None \<Rightarrow> Inl NilSnapshot
      | Some (SnapOther v) \<Rightarrow> Inl CannotEncode
      | Some (SnapMem m) \<Rightarrow>
          Inr (marshal_snapshot
            \<lparr>js_Format = l2FormatVersion, js_Env = mem_env m, js_Generation = mem_gen m,
             js_Flags = map encode_flag (List.map_filter (mem_Flag m) order)\<rparr>))"

definition decode_cond :: "string \<Rightarrow> jsonCond \<Rightarrow> codec_error + Condition" where
  "decode_cond rule_id c =
     (case ParseOperator (jc_Op c) of
        (op, ok) \<Rightarrow>
          if \<not> ok then Inl (UnknownOperator rule_id (jc_Op c))
          else Inr \<lparr>cond_Attribute = jc_Attribute c, cond_Op = op, cond_Values = jc_Values c,
                 cond_Negate = jc_Negate c\<rparr>)"

definition decode_rule :: "jsonRule \<Rightarrow> codec_error + Rule" where
  "decode_rule r =
     rbind (rmap (decode_cond (jr_ID r)) (jr_Conditions r)) (\<lambda>cs.
       Inr \<lparr>rule_ID = jr_ID r, rule_Conditions = cs,
         rule_Combiner = (if jr_Combiner r = LogicOp_String LogicOr then LogicOr else LogicAnd),
         rule_Value = jr_Value r\<rparr>)"

definition decode_order :: "jsonFlag \<Rightarrow> codec_error + EvaluationOrder" where
  "decode_order f =
     (if jf_EvaluationOrder f = [] \<or> jf_EvaluationOrder f = EvaluationOrder_String OrderUnspecified
      then Inr OrderUnspecified
      else if jf_EvaluationOrder f = EvaluationOrder_String OrderRulesFirst then Inr OrderRulesFirst
      else Inl (UnknownOrder (jf_Key f) (jf_EvaluationOrder f)))"

definition decode_flag :: "jsonFlag \<Rightarrow> codec_error + Flag" where
  "decode_flag f =
     (case ParseValueType (jf_Type f) of
        (t, ok) \<Rightarrow>
          if \<not> ok then Inl (UnknownType (jf_Key f) (jf_Type f))
          else rbind (decode_order f) (\<lambda>o1.
               rbind (rmap decode_rule (jf_Rules f)) (\<lambda>rs.
               Inr \<lparr>flag_Key = jf_Key f, flag_Type = t, flag_Enabled = jf_Enabled f,
                 flag_DefaultValue = jf_DefaultValue f, flag_OffValue = jf_OffValue f,
                 flag_Rules = rs,
                 flag_Rollout = map_option (\<lambda>r. \<lparr>roll_BasisPoints = jo_BasisPoints r,
                   roll_BucketNamespace = jo_BucketNamespace r, roll_BucketBy = jo_BucketBy r,
                   roll_OnValue = jo_OnValue r, roll_OffValue = jo_OffValue r\<rparr>) (jf_Rollout f),
                 flag_EvaluationOrder = o1\<rparr>)))"

definition Decode :: "json \<Rightarrow> codec_error + MemSnapshot" where
  "Decode j =
     rbind (unmarshal_snapshot j) (\<lambda>s.
       if js_Format s \<noteq> l2FormatVersion then Inl (BadFormat (js_Format s))
       else rbind (rmap decode_flag (js_Flags s)) (\<lambda>fs.
              Inr (NewMemSnapshot (js_Env s) (js_Generation s) fs)))"

section \<open>The codec round trip\<close>

definition field_names :: "string list" where
  "field_names = [''format'', ''env'', ''generation'', ''flags'', ''key'', ''type'', ''enabled'', ''default_value'',
     ''off_value'', ''rules'', ''rollout'', ''evaluation_order'', ''id'', ''conditions'', ''combiner'', ''value'',
     ''attribute'', ''op'', ''values'', ''negate'', ''basis_points'', ''bucket_namespace'', ''bucket_by'',
     ''on_value'']"

lemma field_names_folded: "list_all (\<lambda>n. fold_name n = n) field_names"
  by code_simp

lemmas fold_names [simp] = field_names_folded [unfolded field_names_def list.pred_inject]

lemma member_Nil [simp]: "member [] name = JNull"
  by (simp add: member_def)

lemma member_snoc: "member (ms @ [p]) name = (if fold_name (fst p) = fold_name name then snd p else member ms name)"
  by (simp add: member_def)

lemma member_append:
  "member (ms @ ns) name =
     (if \<exists>p \<in> set ns. fold_name (fst p) = fold_name name then member ns name else member ms name)"
proof (induction ns rule: rev_induct)
  case (snoc p ns)
  then show ?case using member_snoc [of "ms @ ns" p name] member_snoc [of ns p name] by simp
qed simp

lemma member_Cons:
  "member (p # ms) name =
     (if \<exists>q \<in> set ms. fold_name (fst q) = fold_name name then member ms name
      else if fold_name (fst p) = fold_name name then snd p else JNull)"
  using member_append [of "[p]" ms name] by (simp add: member_def)

lemma dec_JInt [simp]: "dec_int64 (JInt (sint i)) = Inr i"
  by (simp add: JInt_def strconv_ParseInt64_FormatInt)

lemma sint32_bounds: "- (2 ^ 31) \<le> sint (i :: int32)" "sint (i :: int32) < 2 ^ 31"
  using sint_ge [of i] sint_lt [of i] by simp_all

lemma sint_scast32: "sint (scast (i :: int32) :: int64) = sint i"
  by (rule sint_up_scast) (simp add: is_up)

lemma dec_int32_JInt [simp]: "dec_int32 (JInt (sint (i :: int32))) = Inr i"
proof -
  have "dec_int64 (JInt (sint (scast i :: int64))) = Inr (scast i)" by (rule dec_JInt)
  then have "dec_int64 (JInt (sint i)) = Inr (scast i)" by (simp only: sint_scast32)
  then show ?thesis
    using sint32_bounds [of i] by (simp add: dec_int32_def sint_scast32)
qed

lemma dec_value_marshal [simp]: "dec_value (Value_MarshalJSON v) = Inr v"
  by (simp add: dec_value_def Value_json_roundtrip)

lemma dec_list_JArr: "list_all (\<lambda>x. d (enc x) = Inr x) xs \<Longrightarrow> dec_list d (JArr (map enc xs)) = Inr xs"
  by (simp add: rmap_id)

lemma dec_list_slice: "list_all (\<lambda>x. d (enc x) = Inr x) xs \<Longrightarrow> dec_list d (slice enc xs) = Inr xs"
  by (simp add: slice_def rmap_id)

lemma unmarshal_cond_marshal: "unmarshal_cond (marshal_cond c) = Inr c"
  by (simp add: unmarshal_cond_def marshal_cond_def omitempty_def member_Cons rmap_id list_all_iff)

lemma unmarshal_rule_marshal: "unmarshal_rule (marshal_rule r) = Inr r"
  by (simp add: unmarshal_rule_def marshal_rule_def member_Cons dec_list_slice unmarshal_cond_marshal list_all_iff)

lemma unmarshal_roll_marshal: "unmarshal_roll (marshal_roll r) = Inr r"
  by (simp add: unmarshal_roll_def marshal_roll_def omitempty_def member_Cons)

lemma unmarshal_flag_marshal: "unmarshal_flag (marshal_flag f) = Inr f"
proof -
  have roll: "marshal_roll r \<noteq> JNull" for r by (simp add: marshal_roll_def)
  have rules: "rmap unmarshal_rule (map marshal_rule rs) = Inr rs" for rs
    by (rule rmap_id) (simp add: unmarshal_rule_marshal list_all_iff)
  show ?thesis
    by (cases "jf_Rollout f")
      (simp_all add: unmarshal_flag_def marshal_flag_def omitempty_def member_Cons rules dec_pointer_def roll
        unmarshal_roll_marshal)
qed

lemma unmarshal_snapshot_marshal: "unmarshal_snapshot (marshal_snapshot s) = Inr s"
  by (simp add: unmarshal_snapshot_def marshal_snapshot_def member_Cons rmap_id unmarshal_flag_marshal list_all_iff)
lemma decode_encode_cond: "cond_Op c \<noteq> OpUnknown \<Longrightarrow> decode_cond i (encode_cond c) = Inr c"
  by (simp add: decode_cond_def encode_cond_def ParseOperator_String)

definition codable_rule :: "Rule \<Rightarrow> bool" where
  "codable_rule r \<longleftrightarrow> list_all (\<lambda>c. cond_Op c \<noteq> OpUnknown) (rule_Conditions r)"

text \<open>A flag the codec can write and read back: its type and operators are known.\<close>

definition codable :: "Flag \<Rightarrow> bool" where
  "codable f \<longleftrightarrow> flag_Type f \<noteq> TypeUnknown \<and> list_all codable_rule (flag_Rules f)"

lemma decode_encode_rule: "codable_rule r \<Longrightarrow> decode_rule (encode_rule r) = Inr r"
proof -
  assume "codable_rule r"
  then have "list_all (\<lambda>c. decode_cond (rule_ID r) (encode_cond c) = Inr c) (rule_Conditions r)"
    by (auto simp: codable_rule_def list_all_iff decode_encode_cond)
  then have "rmap (decode_cond (rule_ID r)) (map encode_cond (rule_Conditions r)) = Inr (rule_Conditions r)"
    by (rule rmap_id)
  then show ?thesis
    by (cases "rule_Combiner r") (simp_all add: decode_rule_def encode_rule_def)
qed

lemma decode_encode_flag: "codable f \<Longrightarrow> decode_flag (encode_flag f) = Inr f"
proof -
  assume c: "codable f"
  then have "list_all (\<lambda>r. decode_rule (encode_rule r) = Inr r) (flag_Rules f)"
    by (auto simp: codable_def list_all_iff decode_encode_rule)
  then have "rmap decode_rule (map encode_rule (flag_Rules f)) = Inr (flag_Rules f)" by (rule rmap_id)
  moreover have "decode_order (encode_flag f) = Inr (flag_EvaluationOrder f)"
    by (cases "flag_EvaluationOrder f") (simp_all add: decode_order_def encode_flag_def)
  moreover have "map_option (\<lambda>r. \<lparr>roll_BasisPoints = jo_BasisPoints r, roll_BucketNamespace = jo_BucketNamespace r,
      roll_BucketBy = jo_BucketBy r, roll_OnValue = jo_OnValue r, roll_OffValue = jo_OffValue r\<rparr>)
      (jf_Rollout (encode_flag f)) = flag_Rollout f"
    by (cases "flag_Rollout f") (simp_all add: encode_flag_def)
  moreover have "ParseValueType (jf_Type (encode_flag f)) = (flag_Type f, True)"
    using c by (simp add: encode_flag_def codable_def ParseValueType_String)
  ultimately show ?thesis by (simp add: decode_flag_def) (simp add: encode_flag_def)
qed

definition mem_ok :: "MemSnapshot \<Rightarrow> bool" where
  "mem_ok m \<longleftrightarrow> gm_ok (mem_flags m)
     \<and> (\<forall>k f. mem_Flag m k = Some f \<longrightarrow> flag_Key f = k \<and> codable f)"

lemma NewMemSnapshot_Flag:
  "distinct (map flag_Key fs) \<Longrightarrow>
     mem_Flag (NewMemSnapshot env gen fs) k = find (\<lambda>f. flag_Key f = k) fs"
proof (induction fs rule: rev_induct)
  case Nil
  then show ?case by (simp add: NewMemSnapshot_def mem_Flag_def)
next
  case (snoc f fs)
  have "find (\<lambda>f. flag_Key f = k) (fs @ [f]) =
      (if flag_Key f = k then Some f else find (\<lambda>f. flag_Key f = k) fs)"
    using snoc.prems by (induction fs) auto
  then show ?case using snoc by (auto simp: NewMemSnapshot_def mem_Flag_def)
qed

lemma NewMemSnapshot_sel [simp]:
  "mem_env (NewMemSnapshot env gen fs) = env" "mem_gen (NewMemSnapshot env gen fs) = gen"
  "gm_ok (mem_flags (NewMemSnapshot env gen fs))"
  using gm.valid_fold [OF gm_ok_Nil, of flag_Key "\<lambda>f. f" fs] by (simp_all add: NewMemSnapshot_def)

text \<open>Rebuilding a snapshot from its own flags, in any order, gives the snapshot.\<close>

lemma NewMemSnapshot_rebuild:
  assumes "gm_ok (mem_flags m)" and "\<And>k f. mem_Flag m k = Some f \<Longrightarrow> flag_Key f = k"
    and "distinct order" and "set order = set (gm_keys (mem_flags m))"
  shows "NewMemSnapshot (mem_env m) (mem_gen m) (List.map_filter (mem_Flag m) order) = m"
proof -
  let ?fs = "List.map_filter (mem_Flag m) order"
  have keys: "map flag_Key ?fs = order"
    using assms(2,4)
  proof -
    have "map flag_Key (List.map_filter (mem_Flag m) xs) = xs" if "set xs \<subseteq> set (gm_keys (mem_flags m))" for xs
      using that
    proof (induction xs)
      case (Cons x xs)
      then obtain f where f: "mem_Flag m x = Some f" by (auto simp: gm_keys_iff mem_Flag_def)
      then have "flag_Key f = x" by (rule assms(2))
      then show ?case using Cons f by (simp add: map_filter_simps)
    qed (simp add: map_filter_simps)
    then show ?thesis using assms(4) by simp
  qed
  have found: "find (\<lambda>f. flag_Key f = k) (List.map_filter (mem_Flag m) xs) =
      (if k \<in> set xs then mem_Flag m k else None)" for k xs
  proof (induction xs)
    case (Cons x xs)
    then show ?case
      using assms(2) [of x] by (cases "mem_Flag m x") (auto simp: map_filter_simps)
  qed (simp add: map_filter_simps)
  have "mem_Flag (NewMemSnapshot (mem_env m) (mem_gen m) ?fs) k = mem_Flag m k" for k
    using NewMemSnapshot_Flag [of ?fs] found [of k order] assms(3,4)
    by (auto simp: keys gm_keys_iff mem_Flag_def)
  then have "mem_flags (NewMemSnapshot (mem_env m) (mem_gen m) ?fs) = mem_flags m"
    using assms(1) by (intro gm_eqI) (simp_all add: mem_Flag_def)
  then show ?thesis by (intro MemSnapshot.equality) simp_all
qed

lemma codec_roundtrip_lemma:
  assumes "mem_ok m" and "distinct order" and "set order = set (gm_keys (mem_flags m))"
  shows "\<exists>j. Encode order (Some (SnapMem m)) = Inr j \<and> Decode j = Inr m"
proof -
  let ?fs = "List.map_filter (mem_Flag m) order"
  have "codable f" if "f \<in> set ?fs" for f
    using that assms(1) by (auto simp: map_filter_def mem_ok_def)
  then have "rmap decode_flag (map encode_flag ?fs) = Inr ?fs"
    by (intro rmap_id) (simp add: list_all_iff decode_encode_flag)
  moreover have "NewMemSnapshot (mem_env m) (mem_gen m) ?fs = m"
    by (rule NewMemSnapshot_rebuild) (use assms in \<open>auto simp: mem_ok_def\<close>)
  ultimately show ?thesis by (simp add: Encode_def Decode_def unmarshal_snapshot_marshal)
qed

text \<open>C28. The disk copy of a snapshot is the snapshot. Whatever the order in which the map is walked, what the codec
  writes for a snapshot whose types and operators are known is read back as exactly that snapshot: environment,
  generation and every flag.\<close>

theorem codec_roundtrip:
  assumes "mem_ok m" and "distinct order" and "set order = set (gm_keys (mem_flags m))"
  shows "\<exists>j. Encode order (Some (SnapMem m)) = Inr j \<and> Decode j = Inr m"
  using codec_roundtrip_lemma [OF assms] .

text \<open>A snapshot of two flags, one with a rule and one with a rollout, walked backwards.\<close>

definition two_flags :: MemSnapshot where
  "two_flags = NewMemSnapshot ''prod'' 7
     [bool_flag ''a'' True [\<lparr>rule_ID = ''r'', rule_Conditions = [\<lparr>cond_Attribute = ''plan'', cond_Op = OpIn,
        cond_Values = [VString ''pro''], cond_Negate = True\<rparr>], rule_Combiner = LogicOr, rule_Value = VBool False\<rparr>] None,
      bool_flag ''b'' True [] (Some (bool_rollout 250))]"

lemma two_flags_keys: "set (gm_keys (mem_flags two_flags)) = {''a'', ''b''}"
  by code_simp

lemma two_flags_ok: "mem_ok two_flags"
  by (auto simp: mem_ok_def two_flags_def NewMemSnapshot_def mem_Flag_def codable_def codable_rule_def
        bool_flag_def gm_get_def gm_ok_def less_list_code split: if_splits)

theorem codec_roundtrip_witness:
  "\<exists>j. Encode [''b'', ''a''] (Some (SnapMem two_flags)) = Inr j \<and> Decode j = Inr two_flags"
  by (rule codec_roundtrip) (auto simp: two_flags_ok two_flags_keys)

lemma decode_cond_ok: "decode_cond i c = Inr c' \<Longrightarrow> cond_Op c' \<noteq> OpUnknown"
  using ParseOperator_ok [of "jc_Op c"] by (auto simp: decode_cond_def split: prod.splits if_splits)

lemma rmap_all: "rmap f xs = Inr ys \<Longrightarrow> (\<And>x y. f x = Inr y \<Longrightarrow> P y) \<Longrightarrow> list_all P ys"
  by (induction xs arbitrary: ys) (auto simp: rbind_Inr)

lemma decode_rule_ok: "decode_rule r = Inr r' \<Longrightarrow> codable_rule r'"
  by (auto simp: decode_rule_def rbind_Inr codable_rule_def elim!: rmap_all dest: decode_cond_ok)

lemma decode_flag_ok: "decode_flag f = Inr f' \<Longrightarrow> codable f'"
  using ParseValueType_ok [of "jf_Type f"]
  by (auto simp: decode_flag_def rbind_Inr codable_def elim!: rmap_all dest: decode_rule_ok
      split: prod.splits if_splits)

lemma NewMemSnapshot_keyed:
  "mem_Flag (NewMemSnapshot env gen fs) k = Some f \<Longrightarrow> flag_Key f = k \<and> f \<in> set fs"
  by (induction fs rule: rev_induct) (auto simp: NewMemSnapshot_def mem_Flag_def split: if_splits)

text \<open>A disk copy is never half read. Whatever the document, a decode that succeeds yields a well-formed snapshot:
  one entry per key, filed under the flag's own key, every type and operator known; and it read the
  format version this binary writes. An unknown version is refused whatever else the document holds.\<close>

theorem codec_decodes_wellformed:
  assumes "Decode j = Inr m"
  shows "mem_ok m \<and> (\<exists>s. unmarshal_snapshot j = Inr s \<and> js_Format s = 1 \<and> mem_gen m = js_Generation s)"
proof -
  obtain s fs where s: "unmarshal_snapshot j = Inr s" "js_Format s = l2FormatVersion"
    and fs: "rmap decode_flag (js_Flags s) = Inr fs" and m: "m = NewMemSnapshot (js_Env s) (js_Generation s) fs"
    using assms by (auto simp: Decode_def rbind_Inr split: if_splits)
  have "list_all codable fs" by (rule rmap_all [OF fs decode_flag_ok])
  then have "mem_ok m"
    using NewMemSnapshot_keyed by (fastforce simp: mem_ok_def m list_all_iff)
  then show ?thesis using s by (auto simp: m l2FormatVersion_def)
qed

theorem codec_decodes_wellformed_witness:
  "\<exists>m. Decode (JObj [(''Format'', JInt 1), (''unknown'', JBool True), (''generation'', JInt 5)]) = Inr m
     \<and> mem_ok m \<and> mem_gen m = 5"
proof -
  have names: "fold_name ''Format'' = ''format''" "fold_name ''unknown'' = ''unknown''" by code_simp+
  have nums: "dec_int64 (JInt 1) = Inr 1" "dec_int64 (JInt 5) = Inr 5"
    using dec_JInt [of 1] dec_JInt [of 5] by (simp_all del: dec_JInt)
  have "Decode (JObj [(''Format'', JInt 1), (''unknown'', JBool True), (''generation'', JInt 5)])
      = Inr (NewMemSnapshot [] 5 [])"
    by (simp add: Decode_def unmarshal_snapshot_def member_Cons names nums l2FormatVersion_def)
  with codec_decodes_wellformed [OF this] show ?thesis by auto
qed

end
