(* ===== verification/Client_Cache.thy ===== *)
theory Client_Cache
  imports Client_Codec
begin

text \<open>
  The first two cache tiers of the client, \<^verbatim>\<open>cache\<close> and \<^verbatim>\<open>asyncWriter\<close> of \<^verbatim>\<open>pkg/client/cache.go\<close>: the published entry
  behind one atomic pointer, and the goroutine that writes it to disk. The writer is a transition
  system whose steps are the atomic operations: a caller stores the mailbox and then signals, the goroutine
  takes a signal or the close, empties the mailbox and writes. The history lists the entries
  put in the mailbox and those handed to the write.
\<close>

section \<open>Entries and the first tier\<close>

record entry =
  en_snap :: Snapshot
  en_gen :: int64
  en_instanceID :: string
  en_appliedAt :: time
  en_fromDisk :: bool

datatype run_pc = Waiting | Draining bool | Writing entry bool | Exited

record asyncWriter =
  w_pending :: "entry option"
  w_sig :: bool
  w_done :: bool
  w_signalling :: nat
  w_run :: run_pc
  w_put :: "entry list"
  w_written :: "entry list"

record cache =
  ca_l1 :: "entry option"
  ca_writer :: "asyncWriter option"

definition newAsyncWriter :: asyncWriter where
  "newAsyncWriter = \<lparr>w_pending = None, w_sig = False, w_done = False, w_signalling = 0, w_run = Waiting,
     w_put = [], w_written = []\<rparr>"

definition newCache :: "bool \<Rightarrow> cache" where
  "newCache has_l2 = \<lparr>ca_l1 = None, ca_writer = (if has_l2 then Some newAsyncWriter else None)\<rparr>"

definition cache_load :: "cache \<Rightarrow> entry option" where
  "cache_load c = ca_l1 c"

definition hydrate :: "entry \<Rightarrow> cache \<Rightarrow> cache" where
  "hydrate e c = c\<lparr>ca_l1 := Some e\<rparr>"

section \<open>The writer\<close>

text \<open>The two halves of \<^verbatim>\<open>enqueue\<close>: the store under the mutex, and the signal, which is dropped when one is queued.\<close>

definition w_store :: "entry \<Rightarrow> asyncWriter \<Rightarrow> asyncWriter" where
  "w_store e w = w\<lparr>w_pending := Some e, w_signalling := w_signalling w + 1, w_put := w_put w @ [e]\<rparr>"

definition w_signal :: "asyncWriter \<Rightarrow> asyncWriter" where
  "w_signal w = (if w_signalling w = 0 then w else w\<lparr>w_signalling := w_signalling w - 1, w_sig := True\<rparr>)"

definition enqueue :: "entry \<Rightarrow> asyncWriter \<Rightarrow> asyncWriter" where
  "enqueue e w = w_signal (w_store e w)"

text \<open>
  One step of the goroutine: the \<^verbatim>\<open>select\<close> (when both cases are ready the argument chooses the signal), the
  two halves of \<^verbatim>\<open>drain\<close>. A panic in the write is recovered, so the write always comes back.
\<close>

definition w_finish :: "bool \<Rightarrow> run_pc" where
  "w_finish fin = (if fin then Exited else Waiting)"

definition run_step :: "bool \<Rightarrow> asyncWriter \<Rightarrow> asyncWriter" where
  "run_step pick w =
     (case w_run w of
        Waiting \<Rightarrow>
          if w_sig w \<and> (pick \<or> \<not> w_done w) then w\<lparr>w_sig := False, w_run := Draining False\<rparr>
          else if w_done w then w\<lparr>w_run := Draining True\<rparr>
          else w
      | Draining fin \<Rightarrow>
          (case w_pending w of
             None \<Rightarrow> w\<lparr>w_run := w_finish fin\<rparr>
           | Some e \<Rightarrow> w\<lparr>w_pending := None, w_run := Writing e fin\<rparr>)
      | Writing e fin \<Rightarrow> w\<lparr>w_written := w_written w @ [e], w_run := w_finish fin\<rparr>
      | Exited \<Rightarrow> w)"

text \<open>\<^verbatim>\<open>close\<close> closes the channel once and then waits for the goroutine to exit.\<close>

definition w_close :: "asyncWriter \<Rightarrow> asyncWriter" where
  "w_close w = w\<lparr>w_done := True\<rparr>"

definition cache_apply :: "entry \<Rightarrow> cache \<Rightarrow> cache" where
  "cache_apply e c =
     (let c = c\<lparr>ca_l1 := Some e\<rparr>
      in case ca_writer c of
           None \<Rightarrow> c
         | Some w \<Rightarrow> if en_fromDisk e then c else c\<lparr>ca_writer := Some (enqueue e w)\<rparr>)"

definition cache_close :: "cache \<Rightarrow> cache" where
  "cache_close c = c\<lparr>ca_writer := map_option w_close (ca_writer c)\<rparr>"

inductive w_step :: "asyncWriter \<Rightarrow> asyncWriter \<Rightarrow> bool" where
  step_store: "w_step w (w_store e w)"
| step_signal: "w_step w (w_signal w)"
| step_run: "w_step w (run_step pick w)"
| step_close: "w_step w (w_close w)"

inductive w_reachable :: "asyncWriter \<Rightarrow> bool" where
  start: "w_reachable newAsyncWriter"
| step: "w_reachable w \<Longrightarrow> w_step w w' \<Longrightarrow> w_reachable w'"

section \<open>Invariants\<close>

definition in_flight :: "asyncWriter \<Rightarrow> entry list" where
  "in_flight w = (case w_run w of Writing e fin \<Rightarrow> [e] | _ \<Rightarrow> [])"

definition to_list :: "'a option \<Rightarrow> 'a list" where
  "to_list x = (case x of None \<Rightarrow> [] | Some y \<Rightarrow> [y])"

text \<open>What the goroutine has written, is writing or will find.\<close>

definition handled :: "asyncWriter \<Rightarrow> entry list" where
  "handled w = w_written w @ in_flight w @ to_list (w_pending w)"

definition will_drain :: "asyncWriter \<Rightarrow> bool" where
  "will_drain w \<longleftrightarrow> w_sig w \<or> w_signalling w > 0 \<or> (\<exists>fin. w_run w = Draining fin) \<or> w_run w = Exited"

text \<open>The goroutine has seen the close.\<close>

definition finishing :: "run_pc \<Rightarrow> bool" where
  "finishing r \<longleftrightarrow> (case r of Waiting \<Rightarrow> False | Draining fin \<Rightarrow> fin | Writing e fin \<Rightarrow> fin | Exited \<Rightarrow> True)"

definition w_ok :: "asyncWriter \<Rightarrow> bool" where
  "w_ok w \<longleftrightarrow> subseq (handled w) (w_put w)
     \<and> (w_put w \<noteq> [] \<longrightarrow> handled w \<noteq> [] \<and> last (handled w) = last (w_put w))
     \<and> (w_pending w \<noteq> None \<longrightarrow> will_drain w)
     \<and> (finishing (w_run w) \<longrightarrow> w_done w)"

lemma handled_run: "handled (run_step pick w) = handled w"
  by (auto simp: run_step_def handled_def in_flight_def to_list_def w_finish_def split: run_pc.splits option.splits)

lemma handled_simps [simp]:
  "handled (w_signal w) = handled w" "handled (w_close w) = handled w"
  "handled (w_store e w) = w_written w @ in_flight w @ [e]"
  by (simp_all add: w_signal_def w_close_def w_store_def handled_def in_flight_def to_list_def)

lemma w_store_sel [simp]:
  "w_put (w_store e w) = w_put w @ [e]" "w_run (w_store e w) = w_run w" "w_done (w_store e w) = w_done w"
  "will_drain (w_store e w)"
  by (simp_all add: w_store_def will_drain_def)

lemma w_signal_sel [simp]:
  "w_put (w_signal w) = w_put w" "w_run (w_signal w) = w_run w" "w_done (w_signal w) = w_done w"
  "w_pending (w_signal w) = w_pending w"
  by (simp_all add: w_signal_def)

lemma w_close_sel [simp]:
  "w_put (w_close w) = w_put w" "w_run (w_close w) = w_run w" "w_done (w_close w)"
  "w_pending (w_close w) = w_pending w" "will_drain (w_close w) = will_drain w"
  by (simp_all add: w_close_def will_drain_def)

lemma will_drain_signal: "will_drain w \<Longrightarrow> will_drain (w_signal w)"
  by (auto simp: will_drain_def w_signal_def)

lemma w_ok_start: "w_ok newAsyncWriter"
  by (simp add: w_ok_def newAsyncWriter_def handled_def in_flight_def to_list_def finishing_def)

lemma w_ok_store: "w_ok w \<Longrightarrow> w_ok (w_store e w)"
proof -
  assume ok: "w_ok w"
  then have "subseq ((w_written w @ in_flight w) @ to_list (w_pending w)) (w_put w)"
    by (simp add: w_ok_def handled_def)
  then have "subseq (w_written w @ in_flight w) (w_put w)"
    using subseq_order.trans subseq_rev_drop_many [OF subseq_order.refl] by blast
  then have "subseq ((w_written w @ in_flight w) @ [e]) (w_put w @ [e])"
    by (intro list_emb_append_mono) simp_all
  then show ?thesis using ok by (simp add: w_ok_def)
qed

lemma w_ok_signal: "w_ok w \<Longrightarrow> w_ok (w_signal w)"
  by (simp add: w_ok_def will_drain_signal)

lemma w_ok_close: "w_ok w \<Longrightarrow> w_ok (w_close w)"
  by (simp add: w_ok_def)

lemma run_step_put [simp]: "w_put (run_step pick w) = w_put w"
  by (auto simp: run_step_def split: run_pc.splits option.splits)

lemma run_step_done [simp]: "w_done (run_step pick w) = w_done w"
  by (auto simp: run_step_def split: run_pc.splits option.splits)

lemma w_ok_run: "w_ok w \<Longrightarrow> w_ok (run_step pick w)"
proof -
  assume ok: "w_ok w"
  then have "finishing (w_run (run_step pick w)) \<longrightarrow> w_done w"
    by (cases "w_run w"; cases "w_pending w") (auto simp: w_ok_def run_step_def finishing_def w_finish_def)
  moreover have "w_pending (run_step pick w) \<noteq> None \<longrightarrow> will_drain (run_step pick w)"
    using ok by (cases "w_run w"; cases "w_pending w") (auto simp: w_ok_def run_step_def will_drain_def w_finish_def)
  ultimately show ?thesis using ok by (simp add: w_ok_def handled_run)
qed

lemma w_ok_step: "w_step w w' \<Longrightarrow> w_ok w \<Longrightarrow> w_ok w'"
  by (auto elim!: w_step.cases simp: w_ok_store w_ok_signal w_ok_run w_ok_close)

lemma reachable_w_ok: "w_reachable w \<Longrightarrow> w_ok w"
  by (induction rule: w_reachable.induct) (auto intro: w_ok_start w_ok_step)

section \<open>Properties\<close>

text \<open>Nothing is left to do: no caller is between the store and the signal, and the goroutine waits with no signal.\<close>

definition idle :: "asyncWriter \<Rightarrow> bool" where
  "idle w \<longleftrightarrow> w_signalling w = 0 \<and> w_run w = Waiting \<and> \<not> w_sig w"

text \<open>C26. Last write wins. Under any interleaving of callers, the goroutine and the close, the entries written are entries that were
  enqueued, in their order, each at most once (a burst is coalesced); and whenever the writer has come to rest, the last one
  it wrote is the last one enqueued, so no wake-up is ever lost.\<close>

theorem writer_last_write_wins:
  assumes "w_reachable w"
  shows "subseq (w_written w) (w_put w)
    \<and> (idle w \<longrightarrow> w_pending w = None \<and> (w_put w \<noteq> [] \<longrightarrow> w_written w \<noteq> [] \<and> last (w_written w) = last (w_put w)))"
proof -
  have ok: "w_ok w" by (rule reachable_w_ok [OF assms])
  then have "subseq (w_written w @ (in_flight w @ to_list (w_pending w))) (w_put w)"
    by (simp add: w_ok_def handled_def)
  then have "subseq (w_written w) (w_put w)"
    using subseq_order.trans subseq_rev_drop_many [OF subseq_order.refl] by blast
  moreover have "w_pending w = None \<and> handled w = w_written w" if "idle w"
    using that ok by (auto simp: idle_def w_ok_def will_drain_def handled_def in_flight_def to_list_def)
  ultimately show ?thesis using ok by (auto simp: w_ok_def)
qed

text \<open>Any number of steps of the goroutine, with any choices in its \<^verbatim>\<open>select\<close>.\<close>

definition run_steps :: "bool list \<Rightarrow> asyncWriter \<Rightarrow> asyncWriter" where
  "run_steps choices w = foldl (\<lambda>w c. run_step c w) w choices"

lemma run_steps_simps [simp]:
  "run_steps [] w = w" "run_steps (c # cs) w = run_steps cs (run_step c w)"
  by (simp_all add: run_steps_def)

text \<open>The steps a closing goroutine has left.\<close>

definition w_work :: "asyncWriter \<Rightarrow> nat" where
  "w_work w = (if w_sig w then 3 else 0) +
     (case w_run w of
        Waiting \<Rightarrow> 3
      | Draining fin \<Rightarrow> (if fin then 2 else 5)
      | Writing e fin \<Rightarrow> (if fin then 1 else 4)
      | Exited \<Rightarrow> 0)"

lemma run_step_work:
  "w_done w \<Longrightarrow> w_run w \<noteq> Exited \<Longrightarrow> w_work (run_step c w) < w_work w"
  by (cases "w_run w"; cases "w_pending w") (auto simp: run_step_def w_work_def w_finish_def)

lemma run_step_exited: "w_run w = Exited \<Longrightarrow> run_step c w = w"
  by (simp add: run_step_def)

lemma run_steps_exit:
  "w_done w \<Longrightarrow> w_work w \<le> length cs \<Longrightarrow> w_run (run_steps cs w) = Exited"
proof (induction cs arbitrary: w)
  case Nil
  then show ?case by (cases "w_run w") (auto simp: w_work_def split: if_splits)
next
  case (Cons c cs)
  show ?case
  proof (cases "w_run w = Exited")
    case True
    have "run_steps cs w = w" using True by (induction cs) (simp_all add: run_step_exited)
    then show ?thesis using True by (simp add: run_step_exited)
  next
    case False
    then show ?thesis using Cons run_step_work [of w c] by (auto intro!: Cons.IH)
  qed
qed

lemma run_steps_ok: "w_ok w \<Longrightarrow> w_ok (run_steps cs w)"
  by (induction cs arbitrary: w) (simp_all add: w_ok_run)

lemma run_steps_put [simp]: "w_put (run_steps cs w) = w_put w"
  by (induction cs arbitrary: w) simp_all

definition flushed :: "asyncWriter \<Rightarrow> bool" where
  "flushed w \<longleftrightarrow> ((\<exists>e. w_run w = Writing e True) \<or> w_run w = Exited \<longrightarrow> w_pending w = None)"

lemma flushed_run_step: "flushed w \<Longrightarrow> flushed (run_step c w)"
  by (cases "w_run w"; cases "w_pending w") (auto simp: flushed_def run_step_def w_finish_def)

lemma flushed_run_steps: "flushed w \<Longrightarrow> flushed (run_steps cs w)"
  by (induction cs arbitrary: w) (simp_all add: flushed_run_step)

lemma w_work_bound: "w_work w \<le> 8"
  by (auto simp: w_work_def split: run_pc.split)

text \<open>Close flushes and returns. Once callers have stopped and the writer is closed, its goroutine exits within eight of its
  steps, whichever ready case its \<^verbatim>\<open>select\<close> picks, so the wait of \<^verbatim>\<open>close\<close> ends; and by then the last snapshot
  enqueued has been handed to the disk.\<close>

theorem writer_close_flushes:
  assumes "w_reachable w" and "\<not> w_done w" and "8 \<le> length cs"
  defines "w' \<equiv> run_steps cs (w_close w)"
  shows "w_run w' = Exited \<and> w_pending w' = None
    \<and> (w_put w \<noteq> [] \<longrightarrow> w_written w' \<noteq> [] \<and> last (w_written w') = last (w_put w))"
proof -
  have ok: "w_ok w" by (rule reachable_w_ok [OF assms(1)])
  have "w_run w' = Exited"
    using run_steps_exit [of "w_close w" cs] w_work_bound [of "w_close w"] assms(3)
    by (simp add: w'_def w_close_def)
  moreover have "flushed (w_close w)"
    using ok assms(2) by (auto simp: flushed_def w_close_def w_ok_def finishing_def)
  then have "flushed w'" unfolding w'_def by (rule flushed_run_steps)
  ultimately have "w_pending w' = None" "handled w' = w_written w'"
    using \<open>w_run w' = Exited\<close> by (simp_all add: flushed_def handled_def in_flight_def to_list_def)
  moreover have "w_ok w'" unfolding w'_def by (intro run_steps_ok w_ok_close ok)
  moreover have "w_put w' = w_put w" by (simp add: w'_def w_close_def)
  ultimately show ?thesis using \<open>w_run w' = Exited\<close> by (auto simp: w_ok_def)
qed

definition demo_entry :: "int64 \<Rightarrow> entry" where
  "demo_entry g = \<lparr>en_snap = SnapMem (NewMemSnapshot ''prod'' g []), en_gen = g, en_instanceID = ''i1'',
     en_appliedAt = 0, en_fromDisk = False\<rparr>"

definition demo_writer :: asyncWriter where
  "demo_writer = enqueue (demo_entry 2) (enqueue (demo_entry 1) newAsyncWriter)"

lemma demo_writer_reachable: "w_reachable demo_writer"
  unfolding demo_writer_def enqueue_def by (meson start step step_store step_signal)

theorem writer_close_flushes_witness:
  "last (w_written (run_steps (replicate 8 True) (w_close demo_writer))) = demo_entry 2"
proof -
  have "\<not> w_done demo_writer" "w_put demo_writer = [demo_entry 1, demo_entry 2]"
    by (simp_all add: demo_writer_def enqueue_def w_store_def w_signal_def newAsyncWriter_def)
  then show ?thesis using writer_close_flushes [OF demo_writer_reachable, of "replicate 8 True"] by simp
qed

theorem writer_last_write_wins_witness:
  "idle (run_steps [True, True, True] demo_writer)
   \<and> last (w_written (run_steps [True, True, True] demo_writer)) = demo_entry 2"
proof -
  have r: "w_reachable (run_steps [True, True, True] demo_writer)"
    using demo_writer_reachable by (simp add: w_reachable.step [OF w_reachable.step [OF w_reachable.step [OF _ step_run] step_run] step_run])
  have i: "idle (run_steps [True, True, True] demo_writer)"
    by (simp add: demo_writer_def enqueue_def w_store_def w_signal_def newAsyncWriter_def run_step_def idle_def
        w_finish_def)
  have "w_put (run_steps [True, True, True] demo_writer) = [demo_entry 1, demo_entry 2]"
    by (simp add: demo_writer_def enqueue_def w_store_def w_signal_def newAsyncWriter_def del: run_steps_simps)
  then show ?thesis using writer_last_write_wins [OF r] i by simp
qed

end
