(* ===== verification/Client_Updater.thy ===== *)
theory Client_Updater
  imports Client_State Client_Limiter Client_Cache
begin

text \<open>
  The update path of the client: \<^verbatim>\<open>pkg/client/updater.go\<close> and the parts of \<^verbatim>\<open>client.go\<close> it works on. The source is the
  environment: the outcome of each fetch and subscription, the frames of the stream and the expiry of the dead-stream timer
  come in as arguments, as do the readings of the clock. The calls of the metrics hook are listed; log
  lines are not modelled, except that the staleness warning draws on the limiter. A
  snapshot whose \<^verbatim>\<open>Generation\<close> panics is outside the model.
\<close>

section \<open>Updates\<close>

record Update =
  up_Snapshot :: "Snapshot option"
  up_Generation :: int64
  up_InstanceID :: string

definition IsHeartbeat :: "Update \<Rightarrow> bool" where
  "IsHeartbeat u \<longleftrightarrow> up_Snapshot u = None"

definition gen_of :: "Snapshot \<Rightarrow> int64" where
  "gen_of s = (case snap_Generation (snapshot_of s) of None \<Rightarrow> 0 | Some g \<Rightarrow> g)"

section \<open>The reconnect delay\<close>

text \<open>
  The window of the jitter, in nanoseconds, after the two adjustments of the parameters. The delay is drawn uniformly
  from 0 to the window.
\<close>

definition backoff_base :: "int64 \<Rightarrow> int64" where
  "backoff_base base = (if sle base 0 then 100000000 else base)"

definition backoff_max :: "int64 \<Rightarrow> int64 \<Rightarrow> int64" where
  "backoff_max base maxDelay = (if slt maxDelay (backoff_base base) then backoff_base base else maxDelay)"

definition backoff_attempt :: "int \<Rightarrow> nat" where
  "backoff_attempt attempt = (if attempt < 0 then 0 else if attempt > 30 then 30 else nat attempt)"

definition FullJitterBackoff :: "int64 \<Rightarrow> int64 \<Rightarrow> int \<Rightarrow> int64" where
  "FullJitterBackoff base maxDelay attempt =
     (let window = push_bit (backoff_attempt attempt) (backoff_base base)
      in if slt (backoff_max base maxDelay) window \<or> sle window 0 then backoff_max base maxDelay else window)"

section \<open>The client the updater works on\<close>

datatype signal = SigGeneration int64 | SigConnected bool | SigResync string | SigStaleness int
  | SigStaleWarning int64

record client =
  cl_env :: string
  cl_cache :: cache
  cl_sm :: stateMachine
  cl_lastLive :: int64
  cl_staleWarn :: int64
  cl_limiter :: logLimiter
  cl_signals :: "signal list"

definition emit :: "signal \<Rightarrow> client \<Rightarrow> client" where
  "emit s c = c\<lparr>cl_signals := cl_signals c @ [s]\<rparr>"

definition on_sm :: "(stateMachine \<Rightarrow> stateMachine) \<Rightarrow> client \<Rightarrow> client" where
  "on_sm f c = c\<lparr>cl_sm := f (cl_sm c)\<rparr>"

definition Generation :: "client \<Rightarrow> int64" where
  "Generation c = (case cache_load (cl_cache c) of None \<Rightarrow> 0 | Some e \<Rightarrow> en_gen e)"

definition Ready :: "client \<Rightarrow> bool" where
  "Ready c \<longleftrightarrow> Serving (sm_cur (cl_sm c))"

definition markLive :: "int64 \<Rightarrow> client \<Rightarrow> client" where
  "markLive now c = c\<lparr>cl_lastLive := now\<rparr>"

text \<open>The staleness in nanoseconds; the code reports it in seconds.\<close>

definition staleness :: "int64 \<Rightarrow> client \<Rightarrow> int" where
  "staleness now c = (if cl_lastLive c = 0 then 0 else sint now - sint (cl_lastLive c))"

definition reportStaleness :: "int64 \<Rightarrow> client \<Rightarrow> client" where
  "reportStaleness now c =
     (let d = staleness now c; c = emit (SigStaleness d) c
      in if sle (cl_staleWarn c) 0 \<or> d < sint (cl_staleWarn c) \<or> cl_lastLive c = 0 then c
         else (case allow ''<staleness>'' ReasonError now (cl_limiter c) of
                 ((n, ok), l) \<Rightarrow>
                   let c = c\<lparr>cl_limiter := l\<rparr> in if ok then emit (SigStaleWarning n) c else c))"

section \<open>Applying an update\<close>

definition instance_changed :: "entry option \<Rightarrow> string \<Rightarrow> bool" where
  "instance_changed cur instanceID \<longleftrightarrow>
     (case cur of
        None \<Rightarrow> False
      | Some e \<Rightarrow> en_instanceID e \<noteq> [] \<and> instanceID \<noteq> [] \<and> en_instanceID e \<noteq> instanceID)"

text \<open>
  What \<^verbatim>\<open>applyUpdate\<close> makes of a snapshot and the entry it loaded: nothing to apply, with the two generations to compare,
  or an entry to publish, with whether generations were skipped.
\<close>

datatype verdict = Confirm int64 int64 | Publish entry bool

definition judge :: "int64 \<Rightarrow> Update \<Rightarrow> Snapshot \<Rightarrow> entry option \<Rightarrow> verdict" where
  "judge now up snap cur =
     (let gen = gen_of snap; changed = instance_changed cur (up_InstanceID up);
          e = \<lparr>en_snap = snap, en_gen = gen, en_instanceID = up_InstanceID up, en_appliedAt = sint now,
               en_fromDisk = False\<rparr>
      in case cur of
           None \<Rightarrow> Publish e False
         | Some h \<Rightarrow>
             if \<not> changed \<and> slt gen (en_gen h) then Confirm (en_gen h) gen
             else if \<not> changed \<and> gen = en_gen h \<and> \<not> en_fromDisk h then Confirm (en_gen h) gen
             else Publish e (\<not> changed \<and> slt (en_gen h + 1) gen \<and> slt 0 (en_gen h)))"

definition settle :: "Update \<Rightarrow> verdict \<Rightarrow> client \<Rightarrow> client" where
  "settle up v c =
     (case v of
        Confirm held source \<Rightarrow> on_sm (onLiveConfirmation held source) c
      | Publish e gap \<Rightarrow>
          (let c = (if gap then emit (SigResync ''generation_gap'') c else c);
               c = c\<lparr>cl_cache := cache_apply e (cl_cache c)\<rparr>;
               c = emit (SigGeneration (en_gen e)) c
           in on_sm (onLiveConfirmation (en_gen e) (up_Generation up)) c))"

definition applyUpdate :: "int64 \<Rightarrow> Update \<Rightarrow> client \<Rightarrow> client" where
  "applyUpdate now up c =
     (case up_Snapshot up of
        None \<Rightarrow> on_sm (onLiveConfirmation (Generation c) (up_Generation up)) c
      | Some snap \<Rightarrow> settle up (judge now up snap (cache_load (cl_cache c))) c)"

definition fetchOnce :: "int64 \<Rightarrow> Update option \<Rightarrow> client \<Rightarrow> bool \<times> client" where
  "fetchOnce now outcome c =
     (case outcome of
        None \<Rightarrow> (False, c)
      | Some up \<Rightarrow> (True, applyUpdate now up (markLive now c)))"

definition onFrame :: "int64 \<Rightarrow> Update option \<Rightarrow> Update \<Rightarrow> client \<Rightarrow> client" where
  "onFrame now fetch up c =
     (let c = markLive now c
      in if IsHeartbeat up then
           (let held = Generation c;
                changed = instance_changed (cache_load (cl_cache c)) (up_InstanceID up)
            in if changed \<or> slt held (up_Generation up)
               then snd (fetchOnce now fetch
                      (emit (SigResync (if changed then ''instance_changed'' else ''heartbeat_gap'')) c))
               else on_sm (onLiveConfirmation held (up_Generation up)) c)
         else applyUpdate now up c)"

definition degrade :: "int64 \<Rightarrow> string \<Rightarrow> client \<Rightarrow> client" where
  "degrade now reason c =
     (if cache_load (cl_cache c) = None then c
      else reportStaleness now (on_sm (onStreamDead reason) c))"

section \<open>Cycles\<close>

text \<open>
  What the \<^verbatim>\<open>select\<close> of a cycle meets: the end of the context, a frame (with the outcome of the fetch it may cause), the end
  of the stream, or the expiry of the timer. An empty list of events leaves the cycle waiting.
\<close>

datatype stream_event = CtxDone | Frame int64 Update "Update option" | StreamClosed int64 | TimerFired int64

fun cycle_loop :: "stream_event list \<Rightarrow> client \<Rightarrow> bool option \<times> client" where
  "cycle_loop [] c = (None, c)"
| "cycle_loop (CtxDone # es) c = (Some True, emit (SigConnected False) c)"
| "cycle_loop (StreamClosed now # es) c =
     (Some True, emit (SigConnected False) (degrade now ''stream_closed'' c))"
| "cycle_loop (TimerFired now # es) c =
     (Some True, emit (SigConnected False) (degrade now ''stream_dead'' (emit (SigResync ''stream_dead'') c)))"
| "cycle_loop (Frame now up fetch # es) c = cycle_loop es (onFrame now fetch up c)"

text \<open>One fetch, one subscription and the frames; the answer says whether a connection was made.\<close>

record cycle_script =
  cy_now :: int64
  cy_fetch :: "Update option"
  cy_subscribed :: bool
  cy_events :: "stream_event list"
  cy_end :: int64

definition cycle :: "cycle_script \<Rightarrow> client \<Rightarrow> bool option \<times> client" where
  "cycle s c =
     (let (fetched, c) = fetchOnce (cy_now s) (cy_fetch s) c
      in if \<not> cy_subscribed s then (Some fetched, emit (SigConnected False) c)
         else cycle_loop (cy_events s) (emit (SigConnected True) c))"

text \<open>
  The loop of \<^verbatim>\<open>run\<close>: a successful pass resets the attempt, each pass reports the staleness and waits for the delay
  of the attempt. A pass that is still waiting ends what has happened so far. The list gives the attempts.
\<close>

fun run :: "cycle_script list \<Rightarrow> int \<Rightarrow> client \<Rightarrow> int list \<times> client" where
  "run [] attempt c = ([], c)"
| "run (s # ss) attempt c =
     (case cycle s c of
        (None, c) \<Rightarrow> ([], c)
      | (Some ok, c) \<Rightarrow>
          (let attempt = (if ok then 0 else attempt + 1);
               (attempts, c) = run ss attempt (reportStaleness (cy_end s) c)
           in (attempt # attempts, c)))"

text \<open>A tick of the reconcile loop is a fetch. The loop waits for a tick, the first one after a random part of the period,
  or for the end of the context.\<close>

datatype reconcile_event = LoopDone | Tick int64 "Update option"

definition reconcile_tick :: "int64 \<Rightarrow> Update option \<Rightarrow> client \<Rightarrow> client" where
  "reconcile_tick now outcome c = snd (fetchOnce now outcome c)"

fun reconcileLoop :: "reconcile_event list \<Rightarrow> client \<Rightarrow> client" where
  "reconcileLoop [] c = c"
| "reconcileLoop (LoopDone # es) c = c"
| "reconcileLoop (Tick now outcome # es) c = reconcileLoop es (reconcile_tick now outcome c)"

fun tick_updates :: "reconcile_event \<Rightarrow> Update list" where
  "tick_updates (Tick now outcome) = (case outcome of None \<Rightarrow> [] | Some up \<Rightarrow> [up])"
| "tick_updates LoopDone = []"

section \<open>Construction\<close>

text \<open>A client over an empty cache, and the hydration from disk.\<close>

definition fresh_client :: "string \<Rightarrow> int64 \<Rightarrow> bool \<Rightarrow> client" where
  "fresh_client env staleWarn has_l2 =
     \<lparr>cl_env = env, cl_cache = newCache has_l2, cl_sm = newStateMachine, cl_lastLive = 0,
      cl_staleWarn = staleWarn, cl_limiter = newLogLimiter second, cl_signals = []\<rparr>"

definition hydrateFromL2 :: "('e + Snapshot option \<times> time) option \<Rightarrow> client \<Rightarrow> client" where
  "hydrateFromL2 l2 c =
     (case l2 of
        None \<Rightarrow> c
      | Some (Inl e) \<Rightarrow> c
      | Some (Inr (None, writtenAt)) \<Rightarrow> c
      | Some (Inr (Some snap, writtenAt)) \<Rightarrow>
          on_sm onHydratedFromDisk (emit (SigGeneration (gen_of snap))
            (c\<lparr>cl_cache := hydrate \<lparr>en_snap = snap, en_gen = gen_of snap, en_instanceID = [],
                 en_appliedAt = writtenAt, en_fromDisk = True\<rparr> (cl_cache c)\<rparr>)))"

definition client_New :: "string \<Rightarrow> int64 \<Rightarrow> ('e + Snapshot option \<times> time) option \<Rightarrow> client" where
  "client_New env staleWarn l2 = hydrateFromL2 l2 (fresh_client env staleWarn (l2 \<noteq> None))"

definition client_Close :: "client \<Rightarrow> client" where
  "client_Close c = on_sm sm_close (c\<lparr>cl_cache := cache_close (cl_cache c)\<rparr>)"
section \<open>What the updater preserves\<close>

lemma emit_sel [simp]:
  "cl_cache (emit s c) = cl_cache c" "cl_sm (emit s c) = cl_sm c" "cl_lastLive (emit s c) = cl_lastLive c"
  "Generation (emit s c) = Generation c"
  by (simp_all add: emit_def Generation_def)

lemma on_sm_sel [simp]:
  "cl_cache (on_sm f c) = cl_cache c" "cl_sm (on_sm f c) = f (cl_sm c)" "Generation (on_sm f c) = Generation c"
  by (simp_all add: on_sm_def Generation_def)

lemma markLive_sel [simp]:
  "cl_cache (markLive now c) = cl_cache c" "cl_sm (markLive now c) = cl_sm c"
  "Generation (markLive now c) = Generation c"
  by (simp_all add: markLive_def Generation_def)

lemma cache_load_apply [simp]: "cache_load (cache_apply e ca) = Some e"
  by (simp add: cache_load_def cache_apply_def Let_def split: option.split)

lemma cache_load_hydrate [simp]: "cache_load (hydrate e ca) = Some e"
  by (simp add: cache_load_def hydrate_def)

text \<open>The updates a script holds.\<close>

fun event_updates :: "stream_event \<Rightarrow> Update list" where
  "event_updates (Frame now up fetch) = up # to_list fetch"
| "event_updates _ = []"

definition script_updates :: "cycle_script \<Rightarrow> Update list" where
  "script_updates s = to_list (cy_fetch s) @ concat (map event_updates (cy_events s))"

text \<open>
  A property of the client that the steps of the updater keep: an invariant of the whole loop follows from the
  one of \<^verbatim>\<open>applyUpdate\<close>, of the degradation and of the bookkeeping.
\<close>

locale updater_invariant =
  fixes P :: "client \<Rightarrow> bool" and U :: "Update \<Rightarrow> bool"
  assumes emit: "P c \<Longrightarrow> P (emit s c)"
    and mark: "P c \<Longrightarrow> P (markLive now c)"
    and limiter: "P c \<Longrightarrow> P (c\<lparr>cl_limiter := l\<rparr>)"
    and dead: "P c \<Longrightarrow> cache_load (cl_cache c) \<noteq> None \<Longrightarrow> P (on_sm (onStreamDead reason) c)"
    and apply_update: "P c \<Longrightarrow> U up \<Longrightarrow> P (applyUpdate now up c)"
begin

lemma report: "P c \<Longrightarrow> P (reportStaleness now c)"
  by (auto simp: reportStaleness_def Let_def emit limiter split: prod.split)

lemma fetch: "P c \<Longrightarrow> (\<And>up. outcome = Some up \<Longrightarrow> U up) \<Longrightarrow> P (snd (fetchOnce now outcome c))"
  by (auto simp: fetchOnce_def intro!: apply_update mark split: option.split)

lemma frame: "P c \<Longrightarrow> U up \<Longrightarrow> (\<And>u. f = Some u \<Longrightarrow> U u) \<Longrightarrow> P (onFrame now f up c)"
  using apply_update [OF mark, of c up now now]
  by (auto simp: onFrame_def Let_def applyUpdate_def IsHeartbeat_def intro!: fetch emit mark split: option.splits)

lemma degraded: "P c \<Longrightarrow> P (degrade now reason c)"
  by (auto simp: degrade_def intro!: report dead)

lemma loop: "P c \<Longrightarrow> list_all U (concat (map event_updates es)) \<Longrightarrow> P (snd (cycle_loop es c))"
  by (induction es c rule: cycle_loop.induct)
    (auto simp: to_list_def intro!: emit degraded frame split: option.splits)

lemma reconcile: "P c \<Longrightarrow> list_all U (concat (map tick_updates es)) \<Longrightarrow> P (reconcileLoop es c)"
proof (induction es c rule: reconcileLoop.induct)
  case (3 now outcome es c)
  have "P (snd (fetchOnce now outcome c))" using "3.prems" by (intro fetch) (auto split: option.splits)
  then show ?case using 3 by (simp add: reconcile_tick_def)
qed simp_all

lemma one_cycle: "P c \<Longrightarrow> list_all U (script_updates s) \<Longrightarrow> P (snd (cycle s c))"
  by (auto simp: cycle_def script_updates_def to_list_def Let_def split: prod.split option.splits
      intro!: emit loop dest!: arg_cong [where f = snd] intro: fetch)

lemma whole_run: "P c \<Longrightarrow> list_all (\<lambda>s. list_all U (script_updates s)) ss \<Longrightarrow> P (snd (run ss attempt c))"
proof (induction ss arbitrary: attempt c)
  case (Cons s ss)
  have p: "P (snd (cycle s c))" using Cons.prems by (intro one_cycle) simp_all
  show ?case
  proof (cases "fst (cycle s c)")
    case None
    then show ?thesis using p by (simp add: case_prod_beta)
  next
    case (Some ok)
    then show ?thesis
      using Cons.IH [OF report [OF p]] Cons.prems by (simp add: case_prod_beta Let_def)
  qed
qed simp

end

text \<open>Three invariants: the cached entry only changes by applying an update, it is never lost, and the lifecycle keeps to
  the transitions of the state machine.\<close>

lemma settle_cache:
  "cache_load (cl_cache (settle up v c)) =
     (case v of Confirm held source \<Rightarrow> cache_load (cl_cache c) | Publish e gap \<Rightarrow> Some e)"
  by (simp add: settle_def Let_def split: verdict.split)

lemma applyUpdate_cache:
  "cache_load (cl_cache (applyUpdate now up c)) =
     (case up_Snapshot up of
        None \<Rightarrow> cache_load (cl_cache c)
      | Some snap \<Rightarrow>
          (case judge now up snap (cache_load (cl_cache c)) of
             Confirm held source \<Rightarrow> cache_load (cl_cache c)
           | Publish e gap \<Rightarrow> Some e))"
  by (simp add: applyUpdate_def settle_cache split: option.split)

text \<open>The entry a snapshot update publishes.\<close>

definition update_entry :: "int64 \<Rightarrow> Update \<Rightarrow> Snapshot \<Rightarrow> entry" where
  "update_entry now up snap =
     \<lparr>en_snap = snap, en_gen = gen_of snap, en_instanceID = up_InstanceID up, en_appliedAt = sint now,
      en_fromDisk = False\<rparr>"

lemma judge_cases:
  "judge now up snap cur =
     (case cur of
        None \<Rightarrow> Publish (update_entry now up snap) False
      | Some h \<Rightarrow>
          if \<not> instance_changed cur (up_InstanceID up) \<and>
             (slt (gen_of snap) (en_gen h) \<or> gen_of snap = en_gen h \<and> \<not> en_fromDisk h)
          then Confirm (en_gen h) (gen_of snap)
          else Publish (update_entry now up snap)
                 (\<not> instance_changed cur (up_InstanceID up) \<and> slt (en_gen h + 1) (gen_of snap) \<and> slt 0 (en_gen h)))"
  by (auto simp: judge_def update_entry_def Let_def split: option.split)

interpretation keeps_config: updater_invariant "\<lambda>c. cache_load (cl_cache c) \<noteq> None" "\<lambda>up. True"
  by unfold_locales (auto simp: applyUpdate_cache split: option.splits verdict.splits)

interpretation keeps_entry: updater_invariant "\<lambda>c. cache_load (cl_cache c) = e" "\<lambda>up. up_Snapshot up = None" for e
  by unfold_locales (auto simp: applyUpdate_cache)

text \<open>Staleness is never an outage. Through any number of passes whose fetches fail, whose subscriptions are refused
  and whose streams close, fall silent or carry only heartbeats, with any fetch they provoke answering without a
  snapshot, the client keeps exactly the entry it had; and whatever the source sends, a client that has
  config never ends up without.\<close>

theorem outage_keeps_serving:
  "(list_all (\<lambda>s. list_all (\<lambda>up. up_Snapshot up = None) (script_updates s)) ss \<longrightarrow>
      cache_load (cl_cache (snd (run ss attempt c))) = cache_load (cl_cache c))
   \<and> (cache_load (cl_cache c) \<noteq> None \<longrightarrow> cache_load (cl_cache (snd (run ss attempt c))) \<noteq> None)"
  using keeps_entry.whole_run [of c _ ss attempt] keeps_config.whole_run [of c ss attempt]
  by (simp add: list_all_iff)

lemma applyUpdate_entry:
  "(case up_Snapshot up of
      None \<Rightarrow> cache_load (cl_cache (applyUpdate now up c)) = cache_load (cl_cache c)
    | Some snap \<Rightarrow>
        cache_load (cl_cache (applyUpdate now up c)) =
          (case cache_load (cl_cache c) of
             None \<Rightarrow> Some (update_entry now up snap)
           | Some h \<Rightarrow>
               if instance_changed (Some h) (up_InstanceID up) \<or> slt (en_gen h) (gen_of snap)
                 \<or> gen_of snap = en_gen h \<and> en_fromDisk h
               then Some (update_entry now up snap) else Some h))
   \<and> (cache_load (cl_cache c) = None \<or> instance_changed (cache_load (cl_cache c)) (up_InstanceID up)
        \<or> sle (Generation c) (Generation (applyUpdate now up c)))"
proof -
  have total: "slt a b \<or> a = b \<or> slt b a" for a b :: int64
    using not_slt sle_antisym by blast
  have asym: "slt a b \<Longrightarrow> \<not> slt b a" for a b :: int64 using slt_trans slt_irrefl by blast
  have le: "slt a b \<Longrightarrow> sle a b" for a b :: int64 using asym not_slt by blast
  show ?thesis
  proof (cases "up_Snapshot up")
    case None
    then show ?thesis by (simp add: applyUpdate_cache Generation_def)
  next
    case (Some snap)
    show ?thesis
    proof (cases "cache_load (cl_cache c)")
      case None
      then show ?thesis using Some by (simp add: applyUpdate_cache judge_cases)
    next
      case (Some h)
      then show ?thesis
        using \<open>up_Snapshot up = Some snap\<close> total [of "gen_of snap" "en_gen h"] asym le
        by (auto simp: applyUpdate_cache judge_cases Generation_def update_entry_def)
    qed
  qed
qed

text \<open>Applying an update is guarded. Run on its own, \<^verbatim>\<open>applyUpdate\<close> leaves the entry alone or replaces it by exactly the
  update's snapshot, generation, instance and time together; within one source instance the held generation never
  goes back, an older snapshot being refused and an equal one not re-applied unless the held one came from disk; and
  when the source instance has changed the snapshot is taken whatever its generation.\<close>

theorem applyUpdate_guarded:
  "(case up_Snapshot up of
      None \<Rightarrow> cache_load (cl_cache (applyUpdate now up c)) = cache_load (cl_cache c)
    | Some snap \<Rightarrow>
        cache_load (cl_cache (applyUpdate now up c)) =
          (case cache_load (cl_cache c) of
             None \<Rightarrow> Some (update_entry now up snap)
           | Some h \<Rightarrow>
               if instance_changed (Some h) (up_InstanceID up) \<or> slt (en_gen h) (gen_of snap)
                 \<or> gen_of snap = en_gen h \<and> en_fromDisk h
               then Some (update_entry now up snap) else Some h))
   \<and> (cache_load (cl_cache c) = None \<or> instance_changed (cache_load (cl_cache c)) (up_InstanceID up)
        \<or> sle (Generation c) (Generation (applyUpdate now up c)))"
  by (rule applyUpdate_entry)
text \<open>A client whose source answers every fetch with a snapshot, and an outage of three passes.\<close>

definition update_of :: "int64 \<Rightarrow> string \<Rightarrow> Update" where
  "update_of g i = \<lparr>up_Snapshot = Some (SnapMem (NewMemSnapshot ''prod'' g [])), up_Generation = g, up_InstanceID = i\<rparr>"

definition heartbeat :: "int64 \<Rightarrow> string \<Rightarrow> Update" where
  "heartbeat g i = \<lparr>up_Snapshot = None, up_Generation = g, up_InstanceID = i\<rparr>"

lemma update_of_sel [simp]:
  "up_Snapshot (update_of g i) = Some (SnapMem (NewMemSnapshot ''prod'' g []))" "up_Generation (update_of g i) = g"
  "up_InstanceID (update_of g i) = i" "up_Snapshot (heartbeat g i) = None" "up_Generation (heartbeat g i) = g"
  "up_InstanceID (heartbeat g i) = i"
  by (simp_all add: update_of_def heartbeat_def)

lemma gen_of_mem [simp]: "gen_of (SnapMem m) = mem_gen m"
  by (simp add: gen_of_def mem_view_def)

definition outage :: "cycle_script list" where
  "outage =
     [\<lparr>cy_now = 10, cy_fetch = None, cy_subscribed = True, cy_events = [Frame 11 (heartbeat 9 ''i1'') None, StreamClosed 12], cy_end = 12\<rparr>,
      \<lparr>cy_now = 20, cy_fetch = None, cy_subscribed = False, cy_events = [], cy_end = 21\<rparr>,
      \<lparr>cy_now = 30, cy_fetch = None, cy_subscribed = True, cy_events = [TimerFired 60], cy_end = 61\<rparr>]"

lemma outage_no_snapshots: "list_all (\<lambda>s. list_all (\<lambda>up. up_Snapshot up = None) (script_updates s)) outage"
  by (simp add: outage_def script_updates_def to_list_def)

definition demo_client :: client where
  "demo_client = applyUpdate 5 (update_of 7 ''i1'') (client_New ''prod'' 0 (None :: (unit + Snapshot option \<times> time) option))"

lemma cache_load_New [simp]: "cache_load (newCache b) = None"
  by (simp add: newCache_def cache_load_def)

lemma demo_client_held: "cache_load (cl_cache demo_client) = Some (update_entry 5 (update_of 7 ''i1'') (SnapMem (NewMemSnapshot ''prod'' 7 [])))"
  by (simp add: demo_client_def applyUpdate_cache client_New_def hydrateFromL2_def fresh_client_def judge_cases)

theorem outage_keeps_serving_witness:
  "Generation (snd (run outage 0 demo_client)) = 7"
proof -
  show ?thesis
    using outage_keeps_serving [of outage 0 demo_client] outage_no_snapshots demo_client_held
    by (simp add: Generation_def update_entry_def)
qed

section \<open>Readiness, recovery and degradation\<close>

text \<open>An update of the protocol: a snapshot frame reports its own generation, and a heartbeat a positive one.\<close>

definition well_formed :: "Update \<Rightarrow> bool" where
  "well_formed up \<longleftrightarrow>
     (case up_Snapshot up of None \<Rightarrow> slt 0 (up_Generation up) | Some s \<Rightarrow> up_Generation up = gen_of s)"

definition open_client :: "client \<Rightarrow> bool" where
  "open_client c \<longleftrightarrow> sm_cur (cl_sm c) \<noteq> StateClosed"

definition ready_iff_config :: "client \<Rightarrow> bool" where
  "ready_iff_config c \<longleftrightarrow> open_client c \<and> (Ready c \<longleftrightarrow> cache_load (cl_cache c) \<noteq> None)"

lemma sm_set_cur: "sm_cur sm \<noteq> StateClosed \<Longrightarrow> sm_cur (snd (sm_set to reason sm)) = to"
  by (simp add: sm_set_def Let_def)

lemma onLive_cur:
  "sm_cur sm \<noteq> StateClosed \<Longrightarrow>
     sm_cur (onLiveConfirmation held source sm) = (if slt held source then sm_cur sm else StateHealthy)"
  by (simp add: onLiveConfirmation_def sm_set_cur)

lemma onStreamDead_cur: "sm_cur sm \<noteq> StateClosed \<Longrightarrow> sm_cur (onStreamDead reason sm) = StateDegradedStale"
  by (simp add: onStreamDead_def sm_set_cur)

lemma applyUpdate_sm:
  assumes "open_client c"
  shows "sm_cur (cl_sm (applyUpdate now up c)) =
     (case up_Snapshot up of
        None \<Rightarrow> if slt (Generation c) (up_Generation up) then sm_cur (cl_sm c) else StateHealthy
      | Some snap \<Rightarrow>
          (case judge now up snap (cache_load (cl_cache c)) of
             Confirm held source \<Rightarrow> if slt held source then sm_cur (cl_sm c) else StateHealthy
           | Publish e gap \<Rightarrow> if slt (en_gen e) (up_Generation up) then sm_cur (cl_sm c) else StateHealthy))"
  using assms
  by (simp add: applyUpdate_def settle_def open_client_def onLive_cur Let_def split: option.split verdict.split)

lemma confirm_current: "judge now up snap cur = Confirm held source \<Longrightarrow> \<not> slt held source \<and> source = gen_of snap"
proof -
  have asym: "slt a b \<Longrightarrow> \<not> slt b a" for a b :: int64 using slt_trans slt_irrefl by blast
  then show "judge now up snap cur = Confirm held source \<Longrightarrow> ?thesis"
    by (auto simp: judge_cases split: option.splits if_splits)
qed

lemma publish_entry: "judge now up snap cur = Publish e gap \<Longrightarrow> e = update_entry now up snap"
  by (auto simp: judge_cases split: option.splits if_splits)

lemma applyUpdate_snapshot_healthy:
  assumes "open_client c" and "up_Snapshot up = Some snap" and "up_Generation up = gen_of snap"
  shows "sm_cur (cl_sm (applyUpdate now up c)) = StateHealthy"
proof (cases "judge now up snap (cache_load (cl_cache c))")
  case (Confirm held source)
  then show ?thesis using applyUpdate_sm [OF assms(1), of now up] assms(2) confirm_current [OF Confirm] by auto
next
  case (Publish e gap)
  then show ?thesis
    using applyUpdate_sm [OF assms(1), of now up] assms(2,3) publish_entry [OF Publish]
    by (simp add: update_entry_def)
qed

interpretation readiness: updater_invariant ready_iff_config well_formed
proof unfold_locales
  fix c up now
  assume c: "ready_iff_config c" and wf: "well_formed up"
  then have o: "open_client c" by (simp add: ready_iff_config_def)
  show "ready_iff_config (applyUpdate now up c)"
  proof (cases "up_Snapshot up")
    case None
    have same: "cache_load (cl_cache (applyUpdate now up c)) = cache_load (cl_cache c)"
      using None by (simp add: applyUpdate_cache)
    have sm: "sm_cur (cl_sm (applyUpdate now up c)) =
        (if slt (Generation c) (up_Generation up) then sm_cur (cl_sm c) else StateHealthy)"
      using None applyUpdate_sm [OF o, of now up] by simp
    show ?thesis
    proof (cases "cache_load (cl_cache c) = None")
      case True
      then have "slt (Generation c) (up_Generation up)" using wf None by (simp add: Generation_def well_formed_def)
      then have "sm_cur (cl_sm (applyUpdate now up c)) = sm_cur (cl_sm c)" by (simp add: sm)
      then show ?thesis using c by (simp add: ready_iff_config_def open_client_def Ready_def same)
    next
      case False
      then have "Ready c" using c by (simp add: ready_iff_config_def)
      then show ?thesis using False o by (simp add: ready_iff_config_def open_client_def Ready_def same sm)
    qed
  next
    case (Some snap)
    then have "sm_cur (cl_sm (applyUpdate now up c)) = StateHealthy"
      using wf by (intro applyUpdate_snapshot_healthy [OF o]) (simp_all add: well_formed_def)
    moreover have "cache_load (cl_cache (applyUpdate now up c)) \<noteq> None"
      using Some by (auto simp: applyUpdate_cache judge_cases split: verdict.splits option.splits if_splits)
    ultimately show ?thesis by (simp add: ready_iff_config_def open_client_def Ready_def)
  qed
qed (auto simp: ready_iff_config_def open_client_def Ready_def onStreamDead_cur)

lemma client_New_ready: "ready_iff_config (client_New env w l2)"
  by (auto simp: client_New_def hydrateFromL2_def fresh_client_def ready_iff_config_def open_client_def Ready_def
      onHydratedFromDisk_def sm_set_cur newStateMachine_def split: option.splits sum.splits prod.splits)

text \<open>Ready means config. From construction on, whether or not a disk copy was hydrated, and through any passes of the updater
  whose updates keep to the protocol (a snapshot reports its own generation, a heartbeat a positive one), the client is
  ready exactly when it holds an entry to evaluate against.\<close>

theorem ready_means_config:
  fixes l2 :: "('e + Snapshot option \<times> time) option" and attempt env w
  assumes "list_all (\<lambda>s. list_all well_formed (script_updates s)) ss"
  defines "c \<equiv> snd (run ss attempt (client_New env w l2))"
  shows "Ready c \<longleftrightarrow> cache_load (cl_cache c) \<noteq> None"
  using readiness.whole_run [OF client_New_ready assms(1), of attempt env w l2]
  by (simp add: c_def ready_iff_config_def)

theorem ready_means_config_witness:
  "\<not> Ready (snd (run outage 0 (client_New ''prod'' 0 (Some (Inl ())))))"
proof -
  have "list_all (\<lambda>s. list_all well_formed (script_updates s)) outage"
    by (simp add: outage_def script_updates_def to_list_def well_formed_def slt_def)
  from ready_means_config [OF this, of 0 "''prod''" 0 "Some (Inl ())"]
  show ?thesis
    using keeps_entry.whole_run [of "client_New ''prod'' 0 (Some (Inl ()))" None outage 0] outage_no_snapshots
    by (simp add: client_New_def hydrateFromL2_def fresh_client_def)
qed
lemma reportStaleness_sel [simp]:
  "cl_cache (reportStaleness now c) = cl_cache c" "cl_sm (reportStaleness now c) = cl_sm c"
  "Generation (reportStaleness now c) = Generation c"
  by (auto simp: reportStaleness_def Let_def Generation_def emit_def split: prod.split)

text \<open>A silent stream degrades the client and one good fetch restores it. When the dead-stream timer expires on a client that
  holds config it becomes \<^verbatim>\<open>DEGRADED_STALE\<close>, still ready, serving the same entry; the next fetch that returns a
  snapshot makes it \<^verbatim>\<open>HEALTHY\<close> again, holding at least the generation the source reported, and exactly the
  fetched one unless that was older and of the same instance.\<close>

theorem degrades_and_recovers:
  fixes t now
  assumes "open_client c" and "cache_load (cl_cache c) \<noteq> None"
    and "up_Snapshot up = Some snap" and "up_Generation up = gen_of snap"
  defines "d \<equiv> snd (cycle_loop [TimerFired t] c)" and "r \<equiv> \<lambda>d. snd (fetchOnce now (Some up) d)"
  shows "sm_cur (cl_sm d) = StateDegradedStale \<and> Ready d \<and> cache_load (cl_cache d) = cache_load (cl_cache c)
    \<and> sm_cur (cl_sm (r d)) = StateHealthy \<and> sle (up_Generation up) (Generation (r d))
    \<and> (instance_changed (cache_load (cl_cache c)) (up_InstanceID up) \<or> sle (Generation c) (gen_of snap) \<longrightarrow>
         Generation (r d) = gen_of snap)"
proof -
  have d: "sm_cur (cl_sm d) = StateDegradedStale" "cl_cache d = cl_cache c"
    using assms(1,2) by (auto simp: d_def degrade_def open_client_def onStreamDead_cur)
  obtain h where h: "cache_load (cl_cache c) = Some h" using assms(2) by blast
  have o: "open_client (markLive now d)" using d(1) by (simp add: open_client_def)
  have "sm_cur (cl_sm (r d)) = StateHealthy"
    using applyUpdate_snapshot_healthy [OF o assms(3,4)] by (simp add: r_def fetchOnce_def)
  moreover have g: "Generation (r d) =
      (if instance_changed (Some h) (up_InstanceID up) \<or> slt (en_gen h) (gen_of snap)
          \<or> gen_of snap = en_gen h \<and> en_fromDisk h then gen_of snap else en_gen h)"
    using applyUpdate_entry [of now up "markLive now d"] assms(3)
    by (simp add: r_def fetchOnce_def Generation_def h d(2) update_entry_def)
  moreover have "sle (gen_of snap) (Generation (r d))"
    using not_slt [of "en_gen h" "gen_of snap"] by (auto simp: g)
  moreover have "Generation (r d) = gen_of snap"
    if "instance_changed (Some h) (up_InstanceID up) \<or> sle (en_gen h) (gen_of snap)"
    using that sle_antisym [of "en_gen h" "gen_of snap"] not_slt [of "en_gen h" "gen_of snap"] by (auto simp: g)
  ultimately show ?thesis
    using d assms(4) by (simp add: Ready_def h Generation_def)
qed

theorem degrades_and_recovers_witness:
  "Generation (snd (fetchOnce 90 (Some (update_of 9 ''i1'')) (snd (cycle_loop [TimerFired 60] demo_client)))) = 9"
proof -
  have "open_client demo_client"
    by (simp add: demo_client_def open_client_def client_New_def hydrateFromL2_def fresh_client_def
        newStateMachine_def applyUpdate_def settle_def judge_cases Let_def onLive_cur)
  from degrades_and_recovers [OF this, of "update_of 9 ''i1''" _ 60 90] show ?thesis
    using demo_client_held by (simp add: Generation_def update_entry_def sle_def)
qed

section \<open>The reconnect delay\<close>

lemma push_bit_int64:
  assumes "0 \<le> sint (b :: int64)" and "sint b * 2 ^ n < 2 ^ 63"
  shows "sint (push_bit n b) = sint b * 2 ^ n"
proof -
  have "push_bit n b = word_of_int (sint b * 2 ^ n)"
    by (simp add: push_bit_eq_mult)
  then have "sint (push_bit n b) = sint (word_of_int (sint b * 2 ^ n) :: int64)" by (simp only:)
  also have "\<dots> = sint b * 2 ^ n"
    using assms unfolding int_word_sint by simp
  finally show ?thesis .
qed

text \<open>The reconnect delay is bounded and grows. The window the delay is drawn from is positive and at most the larger of the
  two parameters; it never exceeds the base times two to the attempt; and as long as that product fits 64 bits it is
  exactly the smaller of it and the maximum, so it doubles with each failed attempt up to the cap.\<close>

theorem backoff_bounds:
  defines "w \<equiv> \<lambda>base maxDelay attempt. sint (FullJitterBackoff base maxDelay attempt)"
    and "b \<equiv> \<lambda>base. sint (backoff_base base)" and "m \<equiv> \<lambda>base maxDelay. sint (backoff_max base maxDelay)"
  shows "0 < w base maxDelay attempt \<and> w base maxDelay attempt \<le> m base maxDelay
    \<and> (b base * 2 ^ backoff_attempt attempt < 2 ^ 63 \<longrightarrow>
         w base maxDelay attempt = min (b base * 2 ^ backoff_attempt attempt) (m base maxDelay))"
proof -
  have b: "0 < b base" by (auto simp: b_def backoff_base_def sle_def)
  then have m: "b base \<le> m base maxDelay"
    by (auto simp: m_def b_def backoff_max_def slt_def)
  have "0 < w base maxDelay attempt \<and> w base maxDelay attempt \<le> m base maxDelay"
    using b m by (auto simp: w_def m_def FullJitterBackoff_def slt_def sle_def Let_def)
  moreover have "w base maxDelay attempt = min (b base * 2 ^ backoff_attempt attempt) (m base maxDelay)"
    if "b base * 2 ^ backoff_attempt attempt < 2 ^ 63"
  proof -
    have "sint (push_bit (backoff_attempt attempt) (backoff_base base)) = b base * 2 ^ backoff_attempt attempt"
      using b that by (simp add: b_def push_bit_int64)
    moreover have "0 < b base * 2 ^ backoff_attempt attempt" using b by simp
    ultimately show ?thesis
      by (simp add: w_def m_def FullJitterBackoff_def slt_def sle_def Let_def min_def)
  qed
  ultimately show ?thesis by blast
qed

theorem backoff_bounds_witness:
  "sint (FullJitterBackoff 100000000 30000000000 3) = 800000000"
  using backoff_bounds [of 100000000 30000000000 3]
  by (simp add: backoff_base_def backoff_max_def backoff_attempt_def slt_def sle_def)

section \<open>Three behaviours worth knowing\<close>

text \<open>
  A source that reports generation 0 without a snapshot, as one that has published nothing yet would, makes an empty
  client \<^verbatim>\<open>HEALTHY\<close> and ready.
\<close>

lemma zero_generation_ready:
  defines "c \<equiv> onFrame 1 None (heartbeat 0 ''i1'') (client_New ''prod'' 0 (None :: (unit + Snapshot option \<times> time) option))"
  shows "Ready c \<and> sm_cur (cl_sm c) = StateHealthy \<and> cache_load (cl_cache c) = None"
  by (simp add: c_def onFrame_def IsHeartbeat_def client_New_def hydrateFromL2_def fresh_client_def Ready_def
      Generation_def instance_changed_def onLive_cur newStateMachine_def Let_def)

text \<open>
  The entry hydrated from disk has no instance, so a source that restarted at a lower generation is not recognised: its
  snapshot is refused, and the client reports itself \<^verbatim>\<open>HEALTHY\<close> with the old one.
\<close>

lemma restarted_source_refused:
  defines "c \<equiv> client_New ''prod'' 0 (Some (Inr (Some (SnapMem (NewMemSnapshot ''prod'' 900 [])), 0) :: unit + _))"
  shows "Generation (applyUpdate 1 (update_of 3 ''i2'') c) = 900
    \<and> sm_cur (cl_sm (applyUpdate 1 (update_of 3 ''i2'') c)) = StateHealthy"
proof -
  have "ready_iff_config c" unfolding c_def by (rule client_New_ready)
  then have o: "open_client c" by (simp add: ready_iff_config_def)
  have "Generation (applyUpdate 1 (update_of 3 ''i2'') c) = 900"
    by (simp add: c_def Generation_def applyUpdate_cache client_New_def hydrateFromL2_def judge_cases instance_changed_def
        slt_def)
  then show ?thesis using applyUpdate_snapshot_healthy [OF o, of "update_of 3 ''i2''"] by simp
qed

text \<open>
  The reconcile loop runs beside the stream, and the load and the swap of \<^verbatim>\<open>applyUpdate\<close> are not one step: a fetch that
  was judged against generation 5 and swaps after a push of generation 7 takes the client back to 6.
\<close>

lemma reconcile_race_rewinds:
  defines "c \<equiv> applyUpdate 1 (update_of 5 ''i1'') (client_New ''prod'' 0 (None :: (unit + Snapshot option \<times> time) option))"
  defines "v \<equiv> judge 2 (update_of 6 ''i1'') (SnapMem (NewMemSnapshot ''prod'' 6 [])) (cache_load (cl_cache c))"
    and "pushed \<equiv> applyUpdate 3 (update_of 7 ''i1'') c"
  shows "Generation pushed = 7 \<and> Generation (settle (update_of 6 ''i1'') v pushed) = 6"
  by (simp add: c_def v_def pushed_def Generation_def applyUpdate_cache settle_cache client_New_def hydrateFromL2_def
      fresh_client_def judge_cases instance_changed_def update_entry_def slt_def)

end
