(* ===== verification/Config_Store.thy ===== *)
theory Config_Store
  imports Config_Snapshot
begin

text \<open>
  The in-memory store of \<^verbatim>\<open>internal/config/store.go\<close>: raw layers, one publication slot per
  environment, the build and the subscriptions. Writers hold the store's mutex for a whole
  operation, so an operation is one function of the state; the clock is an argument.
\<close>

section \<open>State\<close>

record EnvResult =
  er_Env :: string
  er_ContentChanged :: bool
  er_Published :: bool
  er_Generation :: int64
  er_PreviousGeneration :: int64
  er_Rejected :: Findings
  er_Quarantined :: Findings
  er_Warnings :: Findings
  er_QuarantinedFlags :: "string list"
  er_BuiltAt :: "time option"

record BuildReport =
  br_Global :: Findings
  br_PerEnv :: "(string, EnvResult) gomap"

definition envsSorted :: "BuildReport \<Rightarrow> string list" where
  "envsSorted r = gm_keys (br_PerEnv r)"

text \<open>The report as a text: a line for the layer shared by all, and one for each environment in the order of the names.\<close>

definition fmt_bool :: "bool \<Rightarrow> string" where
  "fmt_bool b = (if b then ''true'' else ''false'')"

definition report_line :: "string \<Rightarrow> EnvResult \<Rightarrow> string" where
  "report_line env e =
     [CHR 0x0A] @ ''  '' @ env @ '': published='' @ fmt_bool (er_Published e) @
     '' gen='' @ strconv_FormatInt (sint (er_Generation e)) @
     '' (was '' @ strconv_FormatInt (sint (er_PreviousGeneration e)) @
     '') rejected='' @ strconv_FormatInt (int (length (er_Rejected e))) @
     '' quarantined='' @ strconv_FormatInt (int (length (er_Quarantined e))) @
     '' warnings='' @ strconv_FormatInt (int (length (er_Warnings e)))"

definition BuildReport_String :: "BuildReport \<Rightarrow> string" where
  "BuildReport_String r =
     ''build report: '' @ strconv_FormatInt (int (length (br_Global r))) @ '' global finding(s)'' @
     concat (map (\<lambda>env. case gm_get (br_PerEnv r) env of None \<Rightarrow> [] | Some e \<Rightarrow> report_line env e) (envsSorted r))"

lemma report_names_every_env:
  "gm_get (br_PerEnv r) env = Some e \<Longrightarrow> \<exists>a b. BuildReport_String r = a @ report_line env e @ b"
proof -
  assume e: "gm_get (br_PerEnv r) env = Some e"
  then have "env \<in> set (envsSorted r)" by (simp add: envsSorted_def gm_keys_iff)
  then obtain xs ys where "envsSorted r = xs @ env # ys" by (meson split_list)
  then have "BuildReport_String r =
      (''build report: '' @ strconv_FormatInt (int (length (br_Global r))) @ '' global finding(s)'' @
        concat (map (\<lambda>env. case gm_get (br_PerEnv r) env of None \<Rightarrow> [] | Some e \<Rightarrow> report_line env e) xs))
      @ report_line env e @
      concat (map (\<lambda>env. case gm_get (br_PerEnv r) env of None \<Rightarrow> [] | Some e \<Rightarrow> report_line env e) ys)"
    using e by (simp add: BuildReport_String_def)
  then show ?thesis by blast
qed

definition BuildReport_Findings :: "BuildReport \<Rightarrow> Findings" where
  "BuildReport_Findings r =
     br_Global r @ concat (map (\<lambda>(env, e). er_Rejected e @ er_Quarantined e @ er_Warnings e) (br_PerEnv r))"

definition BuildReport_Err :: "BuildReport \<Rightarrow> Findings option" where
  "BuildReport_Err r = Findings_Err (BuildReport_Findings r)"

definition PublishedIn :: "BuildReport \<Rightarrow> string \<Rightarrow> bool" where
  "PublishedIn r env = (case gm_get (br_PerEnv r) env of None \<Rightarrow> False | Some e \<Rightarrow> er_Published e)"

text \<open>A subscriber's channel is the list of its buffered snapshots; its capacity is one.\<close>

record envState =
  es_cur :: "ResolvedSnapshot option"
  es_gen :: int64
  es_subs :: "(int64, ResolvedSnapshot list) gomap"
  es_nextID :: int64

definition empty_env :: envState where
  "empty_env = \<lparr>es_cur = None, es_gen = 0, es_subs = [], es_nextID = 0\<rparr>"

record Store =
  st_base :: "BaseLayer option"
  st_overlays :: "(string, OverlayLayer) gomap"
  st_ops :: "(string, OpsLayer) gomap"
  st_lastRejected :: "(string, Layer) gomap"
  st_envs :: "(string, envState) gomap"

definition DefaultEnvironments :: "string list" where
  "DefaultEnvironments = [''dev'', ''staging'', ''prod'']"

definition WithEnvironments :: "string list \<Rightarrow> Store \<Rightarrow> Store" where
  "WithEnvironments envs s =
     s\<lparr>st_envs := foldl (\<lambda>tbl e. if e = [] then tbl else gm_set e empty_env tbl) [] envs\<rparr>"

definition Store_New :: "(Store \<Rightarrow> Store) list \<Rightarrow> Store" where
  "Store_New opts =
     foldl (\<lambda>s f. f s)
       (WithEnvironments DefaultEnvironments
         \<lparr>st_base = None, st_overlays = [], st_ops = [], st_lastRejected = [], st_envs = []\<rparr>) opts"

section \<open>The read path\<close>

definition store_Snapshot :: "Store \<Rightarrow> string \<Rightarrow> ResolvedSnapshot option" where
  "store_Snapshot s env =
     (case gm_get (st_envs s) env of None \<Rightarrow> None | Some st \<Rightarrow> es_cur st)"

definition store_Get :: "Store \<Rightarrow> string \<Rightarrow> string \<Rightarrow> Flag option" where
  "store_Get s flagName env =
     (case gm_get (st_envs s) env of
        None \<Rightarrow> None
      | Some st \<Rightarrow> (case es_cur st of None \<Rightarrow> None | Some snap \<Rightarrow> rs_Flag snap flagName))"

definition store_Provenance :: "Store \<Rightarrow> string \<Rightarrow> string \<Rightarrow> FlagProvenance option" where
  "store_Provenance s flagName env =
     (case store_Snapshot s env of None \<Rightarrow> None | Some snap \<Rightarrow> rs_Provenance snap flagName)"

definition Environments :: "Store \<Rightarrow> string list" where
  "Environments s = gm_keys (st_envs s)"

definition RawLayers ::
    "Store \<Rightarrow> BaseLayer option \<times> (string, OverlayLayer) gomap \<times> (string, OpsLayer) gomap" where
  "RawLayers s =
     (BaseLayer_Clone (st_base s), map (\<lambda>(k, v). (k, OverlayLayer_Clone v)) (st_overlays s),
      map (\<lambda>(k, v). (k, OpsLayer_Clone v)) (st_ops s))"

definition LastRejected :: "Store \<Rightarrow> string \<Rightarrow> Layer option" where
  "LastRejected s key =
     (case gm_get (st_lastRejected s) key of None \<Rightarrow> None | Some l \<Rightarrow> Some (CloneLayer l))"

section \<open>Subscriptions\<close>

text \<open>\<^verbatim>\<open>ch <- snap\<close> without blocking: only when the buffer has room.\<close>

definition try_send :: "ResolvedSnapshot \<Rightarrow> ResolvedSnapshot list \<Rightarrow> ResolvedSnapshot list option" where
  "try_send snap buf = (if length buf < 1 then Some (buf @ [snap]) else None)"

definition offer :: "ResolvedSnapshot \<Rightarrow> ResolvedSnapshot list \<Rightarrow> ResolvedSnapshot list" where
  "offer snap buf =
     (case try_send snap buf of
        Some b \<Rightarrow> b
      | None \<Rightarrow>
          (let drained = tl buf
           in case try_send snap drained of Some b \<Rightarrow> b | None \<Rightarrow> drained))"

definition notify :: "ResolvedSnapshot \<Rightarrow> envState \<Rightarrow> envState" where
  "notify snap e = e\<lparr>es_subs := map (\<lambda>(i, buf). (i, offer snap buf)) (es_subs e)\<rparr>"

definition env_subscribe :: "envState \<Rightarrow> int64 \<times> envState" where
  "env_subscribe e =
     (let i = es_nextID e; ch = (case es_cur e of None \<Rightarrow> [] | Some cur \<Rightarrow> [cur])
      in (i, e\<lparr>es_nextID := i + 1, es_subs := gm_set i ch (es_subs e)\<rparr>))"

definition env_cancel :: "int64 \<Rightarrow> envState \<Rightarrow> envState" where
  "env_cancel i e = (if gm_has (es_subs e) i then e\<lparr>es_subs := gm_del i (es_subs e)\<rparr> else e)"

text \<open>A receive by the holder of the channel.\<close>

definition env_receive :: "int64 \<Rightarrow> envState \<Rightarrow> ResolvedSnapshot option \<times> envState" where
  "env_receive i e =
     (case gm_get (es_subs e) i of
        Some (snap # buf) \<Rightarrow> (Some snap, e\<lparr>es_subs := gm_set i buf (es_subs e)\<rparr>)
      | _ \<Rightarrow> (None, e))"

section \<open>The build\<close>

definition ensureEnv :: "string \<Rightarrow> Store \<Rightarrow> Store" where
  "ensureEnv env s =
     (if gm_has (st_envs s) env then s else s\<lparr>st_envs := gm_set env empty_env (st_envs s)\<rparr>)"

definition env_state :: "Store \<Rightarrow> string \<Rightarrow> envState" where
  "env_state s env = (case gm_get (st_envs s) env of None \<Rightarrow> empty_env | Some st \<Rightarrow> st)"

definition mk_EnvResult :: "string \<Rightarrow> time option \<Rightarrow> EnvResult" where
  "mk_EnvResult env at =
     \<lparr>er_Env = env, er_ContentChanged = False, er_Published = False, er_Generation = 0,
      er_PreviousGeneration = 0, er_Rejected = [], er_Quarantined = [], er_Warnings = [],
      er_QuarantinedFlags = [], er_BuiltAt = at\<rparr>"

definition envStatus :: "string \<Rightarrow> Findings \<Rightarrow> Store \<Rightarrow> EnvResult \<times> Store" where
  "envStatus env warns s =
     (let s = ensureEnv env s; res = (mk_EnvResult env None)\<lparr>er_Warnings := warns\<rparr>
      in case es_cur (env_state s env) of
           None \<Rightarrow> (res, s)
         | Some cur \<Rightarrow>
             (res\<lparr>er_Generation := rs_generation cur, er_PreviousGeneration := rs_generation cur,
                  er_BuiltAt := Some (rs_builtAt cur)\<rparr>, s))"

definition overlay_by_key :: "OverlayLayer option \<Rightarrow> (string, OverlayFlag) gomap" where
  "overlay_by_key l =
     (case l of None \<Rightarrow> [] | Some l \<Rightarrow> foldl (\<lambda>m f. gm_set (of_Key f) f m) [] (ol_Flags l))"

definition ops_by_key :: "OpsLayer option \<Rightarrow> time \<Rightarrow> (string, OpsOverride) gomap" where
  "ops_by_key l now =
     (case l of
        None \<Rightarrow> []
      | Some l \<Rightarrow>
          foldl (\<lambda>m x. gm_set (op_Key x) x m) [] (filter (\<lambda>x. \<not> opsExpired x now) (opl_Overrides l)))"

definition env_rejections :: "Findings \<Rightarrow> Findings" where
  "env_rejections fs = filter (\<lambda>f. fd_Severity f \<ge> SeverityRejectEnv) (Rejections fs)"

text \<open>The closure \<^verbatim>\<open>carry\<close>: the last-known-good version of a quarantined flag.\<close>

definition carry :: "ResolvedSnapshot option \<Rightarrow> string \<Rightarrow> snapshotBuilder \<Rightarrow> snapshotBuilder" where
  "carry prev key b =
     (case prev of
        None \<Rightarrow> markQuarantined key b
      | Some s \<Rightarrow>
          (case cloneFlag (rs_Flag s key) of
             None \<Rightarrow> markQuarantined key b
           | Some f \<Rightarrow>
               addQuarantined f
                 (case rs_Provenance s key of None \<Rightarrow> \<lparr>fp_Key = [], fp_Fields = []\<rparr> | Some p \<Rightarrow> p) b))"

text \<open>The inputs of one environment's build.\<close>

record build_env =
  be_env :: string
  be_prev :: "ResolvedSnapshot option"
  be_ovFindings :: Findings
  be_opsFindings :: Findings
  be_ovByKey :: "(string, OverlayFlag) gomap"
  be_opsByKey :: "(string, OpsOverride) gomap"

record building =
  bu_b :: snapshotBuilder
  bu_quarantined :: Findings
  bu_warnings :: Findings

definition pre_findings :: "build_env \<Rightarrow> string \<Rightarrow> Findings" where
  "pre_findings be key =
     Rejections (ForFlag (be_ovFindings be) key) @ Rejections (ForFlag (be_opsFindings be) key)"

definition quarantine :: "build_env \<Rightarrow> string \<Rightarrow> Findings \<Rightarrow> building \<Rightarrow> building" where
  "quarantine be key fs st =
     st\<lparr>bu_quarantined := bu_quarantined st @ fs, bu_b := carry (be_prev be) key (bu_b st)\<rparr>"

text \<open>One turn of the loop over the base flags.\<close>

definition build_flag :: "build_env \<Rightarrow> BaseFlag \<Rightarrow> building \<Rightarrow> building" where
  "build_flag be bf st =
     (let key = bf_Key bf; pre = pre_findings be key
      in if pre \<noteq> [] then quarantine be key pre st
         else (let ov = gm_get (be_ovByKey be) key; ops = gm_get (be_opsByKey be) key;
                   (flag, prov) = mergeFlag bf ov ops;
                   post = validateResolved (be_env be) flag bf ov ops prov;
                   st = st\<lparr>bu_warnings := bu_warnings st @ Warns post\<rparr>;
                   rej = Rejections post
               in if rej \<noteq> [] then quarantine be key rej st
                  else st\<lparr>bu_b := sb_add flag prov (bu_b st)\<rparr>))"

definition orphans :: "build_env \<Rightarrow> BaseFlag list \<Rightarrow> (string, LayerID) gomap" where
  "orphans be base =
     (let known = set (map bf_Key base);
          ov = foldl (\<lambda>m k. if k \<in> known then m else gm_set k LayerOverlay m) [] (gm_keys (be_ovByKey be))
      in foldl (\<lambda>m k. if k \<in> known \<or> gm_has m k then m else gm_set k LayerOps m) ov
           (gm_keys (be_opsByKey be)))"

definition build_orphan :: "build_env \<Rightarrow> building \<Rightarrow> string \<times> LayerID \<Rightarrow> building" where
  "build_orphan be st p = quarantine be (fst p) [orphanFinding (be_env be) (fst p) (snd p)] st"

definition build_content :: "build_env \<Rightarrow> BaseFlag list \<Rightarrow> building" where
  "build_content be base =
     (let start = \<lparr>bu_b = newSnapshotBuilder (be_env be), bu_quarantined = [],
            bu_warnings = Warns (be_ovFindings be) @ Warns (be_opsFindings be)\<rparr>;
          st = foldl (\<lambda>st bf. build_flag be bf st) start base
      in foldl (build_orphan be) st (orphans be base))"

definition guards :: "string \<Rightarrow> nat \<Rightarrow> snapshotBuilder \<Rightarrow> Findings" where
  "guards env nbase b =
     (if length (sb_flags b) > MaxFlagsPerEnv
      then [finding ''M13'' [] env LayerBase [] SeverityRejectEnv] else []) @
     (if quarantineCount b > QuarantineBudget nbase
      then [finding ''M15'' [] env LayerNone [] SeverityRejectEnv] else [])"

definition sameKeys :: "string list \<Rightarrow> string list \<Rightarrow> bool" where
  "sameKeys a b \<longleftrightarrow> length a = length b \<and> list_all (\<lambda>p. fst p = snd p) (zip a b)"

text \<open>The two parameters of the fingerprint, the digest and the text of a JSON document.\<close>

type_synonym hashing = "(string \<Rightarrow> string) \<times> (json \<Rightarrow> string)"

definition content_unchanged :: "hashing \<Rightarrow> ResolvedSnapshot option \<Rightarrow> ResolvedSnapshot \<Rightarrow> bool" where
  "content_unchanged h prev snap =
     (case prev of
        None \<Rightarrow> False
      | Some p \<Rightarrow>
          Fingerprint (fst h) (snd h) p = Fingerprint (fst h) (snd h) snap
          \<and> sameKeys (QuarantinedKeys p) (QuarantinedKeys snap))"

text \<open>Publication: the generation advances, the pointer is swapped, and the subscribers are woken if the
  content changed.\<close>

definition publish :: "hashing \<Rightarrow> string \<Rightarrow> time \<Rightarrow> snapshotBuilder \<Rightarrow> EnvResult \<Rightarrow> Store \<Rightarrow> EnvResult \<times> Store" where
  "publish h env now b res s =
     (let st = env_state s env; prevSnap = es_cur st;
          st = st\<lparr>es_gen := es_gen st + 1\<rparr>;
          snap = sb_build (es_gen st) now b;
          st = st\<lparr>es_cur := Some snap\<rparr>;
          unchanged = content_unchanged h prevSnap snap;
          res = res\<lparr>er_Published := True, er_Generation := rs_generation snap,
            er_QuarantinedFlags := QuarantinedKeys snap, er_ContentChanged := \<not> unchanged\<rparr>;
          st = (if unchanged then st else notify snap st)
      in (res, s\<lparr>st_envs := gm_set env st (st_envs s)\<rparr>))"

definition build_inputs :: "string \<Rightarrow> time \<Rightarrow> Store \<Rightarrow> build_env" where
  "build_inputs env now s =
     (let overlay = gm_get (st_overlays s) env; opsLayer = gm_get (st_ops s) env
      in \<lparr>be_env = env, be_prev = es_cur (env_state s env), be_ovFindings = ValidateOverlay overlay,
          be_opsFindings = ValidateOps opsLayer now, be_ovByKey = overlay_by_key overlay,
          be_opsByKey = ops_by_key opsLayer now\<rparr>)"

definition buildEnv :: "hashing \<Rightarrow> string \<Rightarrow> time \<Rightarrow> Store \<Rightarrow> EnvResult \<times> Store" where
  "buildEnv h env now s =
     (let s = ensureEnv env s;
          prev = es_cur (env_state s env);
          res = mk_EnvResult env (Some now);
          res = (case prev of
                   None \<Rightarrow> res
                 | Some p \<Rightarrow> res\<lparr>er_PreviousGeneration := rs_generation p, er_Generation := rs_generation p\<rparr>)
      in case st_base s of
           None \<Rightarrow> (res\<lparr>er_Rejected := [finding ''E01'' [] env LayerBase [] SeverityRejectEnv]\<rparr>, s)
         | Some base \<Rightarrow>
             (let be = build_inputs env now s;
                  rejected = env_rejections (be_ovFindings be) @ env_rejections (be_opsFindings be)
              in if rejected \<noteq> [] then (res\<lparr>er_Rejected := rejected\<rparr>, s)
                 else (let st = build_content be (bl_Flags base);
                           b = sb_warn (bu_warnings st) (bu_b st);
                           rej = guards env (length (bl_Flags base)) b;
                           res = res\<lparr>er_Rejected := rej, er_Quarantined := bu_quarantined st,
                                 er_Warnings := bu_warnings st\<rparr>
                       in if rej \<noteq> [] then (res, s) else publish h env now b res s)))"

section \<open>Writes\<close>

text \<open>The loop over the environments, filling the report.\<close>

definition for_envs :: "(string \<Rightarrow> Store \<Rightarrow> EnvResult \<times> Store) \<Rightarrow> string list \<Rightarrow>
    BuildReport \<times> Store \<Rightarrow> BuildReport \<times> Store" where
  "for_envs f envs rs =
     foldl (\<lambda>(r, s) env. let (e, s') = f env s in (r\<lparr>br_PerEnv := gm_set env e (br_PerEnv r)\<rparr>, s')) rs envs"

definition empty_report :: BuildReport where
  "empty_report = \<lparr>br_Global = [], br_PerEnv = []\<rparr>"

definition store_Set :: "hashing \<Rightarrow> time \<Rightarrow> Layer \<Rightarrow> Store \<Rightarrow> BuildReport \<times> Store" where
  "store_Set h now layer s =
     (case layer of
        LBase l \<Rightarrow>
          (let findings = ValidateBase l
           in if HasRejections findings
              then for_envs (\<lambda>env. envStatus env (Warns findings)) (Environments s)
                     (empty_report\<lparr>br_Global := findings\<rparr>,
                      s\<lparr>st_lastRejected := gm_set ''base'' (CloneLayer layer) (st_lastRejected s)\<rparr>)
              else for_envs (\<lambda>env. buildEnv h env now) (Environments s)
                     (empty_report\<lparr>br_Global := Warns findings\<rparr>, s\<lparr>st_base := BaseLayer_Clone l\<rparr>))
      | LOverlay l \<Rightarrow>
          if ol_Environment l = []
          then (empty_report\<lparr>br_Global := Rejections (ValidateOverlay (Some l))\<rparr>,
                s\<lparr>st_lastRejected := gm_set ''overlay:'' (CloneLayer layer) (st_lastRejected s)\<rparr>)
          else for_envs (\<lambda>env. buildEnv h env now) [ol_Environment l]
                 (empty_report,
                  ensureEnv (ol_Environment l)
                    (s\<lparr>st_overlays := gm_set (ol_Environment l) (OverlayLayer_Clone l) (st_overlays s)\<rparr>))
      | LOps l \<Rightarrow>
          if opl_Environment l = []
          then (empty_report\<lparr>br_Global := Rejections (ValidateOps (Some l) now)\<rparr>,
                s\<lparr>st_lastRejected := gm_set ''ops:'' (CloneLayer layer) (st_lastRejected s)\<rparr>)
          else for_envs (\<lambda>env. buildEnv h env now) [opl_Environment l]
                 (empty_report,
                  ensureEnv (opl_Environment l)
                    (s\<lparr>st_ops := gm_set (opl_Environment l) (OpsLayer_Clone l) (st_ops s)\<rparr>))
      | LOther \<Rightarrow>
          (empty_report\<lparr>br_Global := [finding ''E00'' [] [] LayerNone [] SeverityRejectGlobal]\<rparr>, s))"

definition store_Rebuild :: "hashing \<Rightarrow> time \<Rightarrow> Store \<Rightarrow> BuildReport \<times> Store" where
  "store_Rebuild h now s =
     for_envs (\<lambda>env. buildEnv h env now) (Environments s) (empty_report, s)"

text \<open>An operation on one environment's slot, as \<^verbatim>\<open>Subscribe\<close>, its cancel and a receive are.\<close>

definition on_env :: "string \<Rightarrow> (envState \<Rightarrow> envState) \<Rightarrow> Store \<Rightarrow> Store" where
  "on_env env f s = s\<lparr>st_envs := gm_set env (f (env_state s env)) (st_envs s)\<rparr>"

definition store_Subscribe :: "string \<Rightarrow> Store \<Rightarrow> int64 \<times> Store" where
  "store_Subscribe env s =
     (let s = ensureEnv env s
      in (fst (env_subscribe (env_state s env)), on_env env (\<lambda>e. snd (env_subscribe e)) s))"

section \<open>The content of a build\<close>

text \<open>The decision about one base flag: its resolved form, or \<^const>\<open>None\<close> for quarantine.\<close>

definition flag_outcome :: "build_env \<Rightarrow> BaseFlag \<Rightarrow> Flag option" where
  "flag_outcome be bf =
     (let ov = gm_get (be_ovByKey be) (bf_Key bf); ops = gm_get (be_opsByKey be) (bf_Key bf);
          (flag, prov) = mergeFlag bf ov ops
      in if pre_findings be (bf_Key bf) = [] \<and> validateResolved (be_env be) flag bf ov ops prov = []
         then Some flag else None)"

definition prev_flag :: "build_env \<Rightarrow> string \<Rightarrow> Flag option" where
  "prev_flag be k = (case be_prev be of None \<Rightarrow> None | Some s \<Rightarrow> rs_Flag s k)"

text \<open>The previous snapshot files every flag under its own key.\<close>

definition keyed :: "ResolvedSnapshot option \<Rightarrow> bool" where
  "keyed prev \<longleftrightarrow> (case prev of None \<Rightarrow> True | Some s \<Rightarrow> \<forall>k f. rs_Flag s k = Some f \<longrightarrow> flag_Key f = k)"

lemma Rejections_validateResolved:
  "Rejections (validateResolved env f base ov ops prov) = validateResolved env f base ov ops prov"
  using validateResolved_severity [of env f base ov ops prov]
  by (auto simp: all_severity_def Rejections_def list_all_iff intro!: filter_True)

lemma Warns_validateResolved: "Warns (validateResolved env f base ov ops prov) = []"
  using all_severity_no_warn [OF validateResolved_severity] by simp

lemma flag_outcome_Some:
  assumes "flag_outcome be bf = Some f"
  shows "flag_wt f \<and> flag_Key f = bf_Key bf
     \<and> f = fst (mergeFlag bf (gm_get (be_ovByKey be) (bf_Key bf)) (gm_get (be_opsByKey be) (bf_Key bf)))"
proof -
  obtain g p where m: "mergeFlag bf (gm_get (be_ovByKey be) (bf_Key bf)) (gm_get (be_opsByKey be) (bf_Key bf)) = (g, p)"
    by fastforce
  then have "flag_Key g = bf_Key bf" by (metis fst_conv mergeFlag_Key)
  then show ?thesis
    using assms by (auto simp: flag_outcome_def Let_def m validateResolved_Nil split: if_splits)
qed

lemma carry_flags:
  assumes "keyed prev"
  shows "gm_get (sb_flags (carry prev k b)) k' =
      (case (if k' = k then (case prev of None \<Rightarrow> None | Some s \<Rightarrow> rs_Flag s k) else None) of
         Some f \<Rightarrow> Some f | None \<Rightarrow> gm_get (sb_flags b) k')"
    and "sb_quarantined (carry prev k b) = gm_set k () (sb_quarantined b)"
  using assms by (auto simp: carry_def keyed_def split: option.splits)

lemma carry_prev:
  assumes "keyed (be_prev be)"
  shows "gm_get (sb_flags (carry (be_prev be) k b)) k' =
      (if k' = k then (case prev_flag be k of Some f \<Rightarrow> Some f | None \<Rightarrow> gm_get (sb_flags b) k)
       else gm_get (sb_flags b) k')"
  using carry_flags (1) [OF assms, of k b k'] by (auto simp: prev_flag_def split: option.split)

lemma build_flag_outcome:
  assumes "keyed (be_prev be)"
  shows "gm_get (sb_flags (bu_b (build_flag be bf st))) k =
      (if k = bf_Key bf
       then (case flag_outcome be bf of
               Some f \<Rightarrow> Some f
             | None \<Rightarrow> (case prev_flag be k of Some f \<Rightarrow> Some f | None \<Rightarrow> gm_get (sb_flags (bu_b st)) k))
       else gm_get (sb_flags (bu_b st)) k)"
    and "gm_get (sb_quarantined (bu_b (build_flag be bf st))) k =
      (if k = bf_Key bf \<and> flag_outcome be bf = None then Some () else gm_get (sb_quarantined (bu_b st)) k)"
proof -
  obtain f p where m: "mergeFlag bf (gm_get (be_ovByKey be) (bf_Key bf)) (gm_get (be_opsByKey be) (bf_Key bf)) = (f, p)"
    by fastforce
  then have key: "flag_Key f = bf_Key bf" by (metis fst_conv mergeFlag_Key)
  note defs = build_flag_def flag_outcome_def Let_def m case_prod_conv quarantine_def
    Rejections_validateResolved Warns_validateResolved
  show "gm_get (sb_flags (bu_b (build_flag be bf st))) k =
      (if k = bf_Key bf
       then (case flag_outcome be bf of
               Some f \<Rightarrow> Some f
             | None \<Rightarrow> (case prev_flag be k of Some f \<Rightarrow> Some f | None \<Rightarrow> gm_get (sb_flags (bu_b st)) k))
       else gm_get (sb_flags (bu_b st)) k)"
    unfolding defs by (auto simp: carry_prev [OF assms] key split: option.split)
  show "gm_get (sb_quarantined (bu_b (build_flag be bf st))) k =
      (if k = bf_Key bf \<and> flag_outcome be bf = None then Some () else gm_get (sb_quarantined (bu_b st)) k)"
    unfolding defs by (auto simp: carry_flags [OF assms] key)
qed

lemma build_loop_flags:
  assumes "keyed (be_prev be)" and "distinct (map bf_Key base)"
  shows "gm_get (sb_flags (bu_b (foldl (\<lambda>st bf. build_flag be bf st) st base))) k =
      (case find (\<lambda>bf. bf_Key bf = k) base of
         None \<Rightarrow> gm_get (sb_flags (bu_b st)) k
       | Some bf \<Rightarrow>
           (case flag_outcome be bf of
              Some f \<Rightarrow> Some f
            | None \<Rightarrow> (case prev_flag be k of Some f \<Rightarrow> Some f | None \<Rightarrow> gm_get (sb_flags (bu_b st)) k)))"
  using assms(2)
proof (induction base arbitrary: st)
  case (Cons bf base)
  have "find (\<lambda>x. bf_Key x = bf_Key bf) base = None"
    using Cons.prems by (simp add: find_None_iff image_iff) metis
  then show ?case
    using Cons by (cases "bf_Key bf = k") (auto simp: build_flag_outcome [OF assms(1)] split: option.split)
qed simp

lemma build_loop_quarantined:
  assumes "keyed (be_prev be)"
  shows "gm_has (sb_quarantined (bu_b (foldl (\<lambda>st bf. build_flag be bf st) st base))) k \<longleftrightarrow>
      gm_has (sb_quarantined (bu_b st)) k \<or> (\<exists>bf \<in> set base. bf_Key bf = k \<and> flag_outcome be bf = None)"
  by (induction base arbitrary: st) (auto simp: gm_has_def build_flag_outcome [OF assms])

lemma orphan_loop:
  assumes "keyed (be_prev be)"
  shows "gm_get (sb_flags (bu_b (foldl (build_orphan be) st ps))) k =
      (if k \<in> fst ` set ps then (case prev_flag be k of Some f \<Rightarrow> Some f | None \<Rightarrow> gm_get (sb_flags (bu_b st)) k)
       else gm_get (sb_flags (bu_b st)) k)"
    and "gm_has (sb_quarantined (bu_b (foldl (build_orphan be) st ps))) k \<longleftrightarrow>
      gm_has (sb_quarantined (bu_b st)) k \<or> k \<in> fst ` set ps"
  by (induction ps arbitrary: st)
    (auto simp: build_orphan_def quarantine_def carry_prev [OF assms] carry_flags [OF assms] split: option.split)

text \<open>The orphans are the keys the overlay or a live override names and the base does not.\<close>

lemma orphans_overlay:
  "set (gm_keys (foldl (\<lambda>m k. if k \<in> known then m else gm_set k v m) m ks)) =
     set (gm_keys m) \<union> (set ks - known)"
  by (induction ks arbitrary: m) (auto simp: gm.keys_assign)

lemma orphans_ops:
  "set (gm_keys (foldl (\<lambda>m k. if k \<in> known \<or> gm_has m k then m else gm_set k v m) m ks)) =
     set (gm_keys m) \<union> (set ks - known)"
  by (induction ks arbitrary: m) (auto simp: gm.keys_assign gm_has_keys)

lemma orphans_keys:
  "fst ` set (orphans be base) =
     (set (gm_keys (be_ovByKey be)) \<union> set (gm_keys (be_opsByKey be))) - bf_Key ` set base"
proof -
  have "fst ` set m = set (gm_keys m)" for m :: "(string, LayerID) gomap" by (simp add: gm_keys_def)
  then show ?thesis
    by (simp only: orphans_def Let_def orphans_ops orphans_overlay) (auto simp: gm_keys_def)
qed

definition orphan_keys :: "build_env \<Rightarrow> BaseFlag list \<Rightarrow> string set" where
  "orphan_keys be base =
     {k. (gm_has (be_ovByKey be) k \<or> gm_has (be_opsByKey be) k) \<and> k \<notin> bf_Key ` set base}"

text \<open>What a build serves under a key, and which keys it quarantines.\<close>

definition resolved_flag :: "build_env \<Rightarrow> BaseFlag list \<Rightarrow> string \<Rightarrow> Flag option" where
  "resolved_flag be base k =
     (case find (\<lambda>bf. bf_Key bf = k) base of
        Some bf \<Rightarrow> (case flag_outcome be bf of Some f \<Rightarrow> Some f | None \<Rightarrow> prev_flag be k)
      | None \<Rightarrow> if k \<in> orphan_keys be base then prev_flag be k else None)"

definition resolved_quarantine :: "build_env \<Rightarrow> BaseFlag list \<Rightarrow> string \<Rightarrow> bool" where
  "resolved_quarantine be base k \<longleftrightarrow>
     k \<in> orphan_keys be base \<or> (\<exists>bf \<in> set base. bf_Key bf = k \<and> flag_outcome be bf = None)"

lemma orphan_keys_orphans: "k \<in> fst ` set (orphans be base) \<longleftrightarrow> k \<in> orphan_keys be base"
  by (auto simp: orphans_keys orphan_keys_def gm_has_keys)

lemma newSnapshotBuilder_sel [simp]:
  "sb_flags (newSnapshotBuilder env) = []" "sb_quarantined (newSnapshotBuilder env) = []"
  "sb_env (newSnapshotBuilder env) = env"
  by (simp_all add: newSnapshotBuilder_def)

lemma build_content_flags:
  assumes "keyed (be_prev be)" and "distinct (map bf_Key base)"
  shows "gm_get (sb_flags (bu_b (build_content be base))) k = resolved_flag be base k"
proof -
  have "find (\<lambda>bf. bf_Key bf = k) base = None" if "k \<in> orphan_keys be base"
    using that by (auto simp: orphan_keys_def find_None_iff)
  then show ?thesis
    unfolding build_content_def Let_def orphan_loop (1) [OF assms(1)] orphan_keys_orphans
      build_loop_flags [OF assms]
    by (auto simp: resolved_flag_def split: option.split)
qed

lemma build_content_quarantined:
  assumes "keyed (be_prev be)"
  shows "gm_has (sb_quarantined (bu_b (build_content be base))) k \<longleftrightarrow> resolved_quarantine be base k"
  unfolding build_content_def Let_def orphan_loop (2) [OF assms] orphan_keys_orphans
    build_loop_quarantined [OF assms]
  by (auto simp: resolved_quarantine_def gm_has_def)

text \<open>The maps of the builder stay in their normal form, and the environment's name is the build's.\<close>

definition builder_ok :: "string \<Rightarrow> snapshotBuilder \<Rightarrow> bool" where
  "builder_ok env b \<longleftrightarrow> sb_env b = env \<and> gm_ok (sb_flags b) \<and> gm_ok (sb_quarantined b)"

lemma builder_ok_add [simp]: "builder_ok env b \<Longrightarrow> builder_ok env (sb_add f p b)"
  by (simp add: builder_ok_def gm_ok_set)

lemma builder_ok_mark [simp]: "builder_ok env b \<Longrightarrow> builder_ok env (markQuarantined k b)"
  by (simp add: builder_ok_def gm_ok_set)

lemma builder_ok_carry [simp]: "builder_ok env b \<Longrightarrow> builder_ok env (carry prev k b)"
  by (auto simp: carry_def addQuarantined_def split: option.split)

lemma builder_ok_build_flag: "builder_ok env (bu_b st) \<Longrightarrow> builder_ok env (bu_b (build_flag be bf st))"
  by (auto simp: build_flag_def quarantine_def Let_def split: prod.split)

lemma builder_ok_build_content: "builder_ok (be_env be) (bu_b (build_content be base))"
proof -
  have loop: "builder_ok env (bu_b st) \<Longrightarrow>
      builder_ok env (bu_b (foldl (\<lambda>st bf. build_flag be bf st) st fs))" for env st fs
    by (induction fs arbitrary: st) (simp_all add: builder_ok_build_flag)
  have orph: "builder_ok env (bu_b st) \<Longrightarrow> builder_ok env (bu_b (foldl (build_orphan be) st ps))" for env st ps
    by (induction ps arbitrary: st) (simp_all add: build_orphan_def quarantine_def)
  have "builder_ok (be_env be) (newSnapshotBuilder (be_env be))" by (simp add: builder_ok_def)
  then show ?thesis unfolding build_content_def Let_def by (intro orph loop) simp
qed

section \<open>The invariant of the store\<close>

definition snapshot_ok :: "string \<Rightarrow> ResolvedSnapshot \<Rightarrow> bool" where
  "snapshot_ok env s \<longleftrightarrow>
     rs_env s = env \<and> gm_ok (rs_flags s) \<and> gm_ok (rs_quarantined s) \<and> rs_keys s = gm_keys (rs_flags s)
     \<and> list_all flagKeyRE (rs_keys s) \<and> rs_Len s \<le> MaxFlagsPerEnv \<and> (\<forall>k f. rs_Flag s k = Some f \<longrightarrow> flag_Key f = k \<and> flag_wt f)"

definition env_ok :: "string \<Rightarrow> envState \<Rightarrow> bool" where
  "env_ok env e \<longleftrightarrow>
     (case es_cur e of None \<Rightarrow> es_gen e = 0 | Some s \<Rightarrow> snapshot_ok env s \<and> rs_generation s = es_gen e)
     \<and> gm_ok (es_subs e)
     \<and> (\<forall>i buf. gm_get (es_subs e) i = Some buf \<longrightarrow> length buf \<le> 1 \<and> list_all (snapshot_ok env) buf)"

definition store_ok :: "Store \<Rightarrow> bool" where
  "store_ok s \<longleftrightarrow>
     gm_ok (st_envs s) \<and> (\<forall>env e. gm_get (st_envs s) env = Some e \<longrightarrow> env_ok env e)
     \<and> \<not> HasRejections (ValidateBase (st_base s))
     \<and> gm_ok (st_overlays s) \<and> gm_ok (st_ops s)
     \<and> (\<forall>env l. gm_get (st_overlays s) env = Some l \<longrightarrow> ol_Environment l = env \<and> env \<noteq> [])
     \<and> (\<forall>env l. gm_get (st_ops s) env = Some l \<longrightarrow> opl_Environment l = env \<and> env \<noteq> [])"

lemma env_ok_empty [simp]: "env_ok env empty_env"
  by (simp add: env_ok_def empty_env_def)

lemma env_ok_state: "store_ok s \<Longrightarrow> env_ok env (env_state s env)"
  by (auto simp: store_ok_def env_state_def split: option.split)

lemma snapshot_ok_keyed: "store_ok s \<Longrightarrow> keyed (es_cur (env_state s env))"
  using env_ok_state [of s env] by (auto simp: env_ok_def keyed_def snapshot_ok_def split: option.splits)

lemma env_state_ensure [simp]: "env_state (ensureEnv env s) env' = env_state s env'"
  by (auto simp: env_state_def ensureEnv_def gm_has_def split: option.split)

lemma ensureEnv_sel [simp]:
  "st_base (ensureEnv env s) = st_base s" "st_overlays (ensureEnv env s) = st_overlays s"
  "st_ops (ensureEnv env s) = st_ops s" "st_lastRejected (ensureEnv env s) = st_lastRejected s"
  by (simp_all add: ensureEnv_def)

lemma store_ok_ensure: "store_ok s \<Longrightarrow> store_ok (ensureEnv env s)"
  by (auto simp: store_ok_def ensureEnv_def gm_ok_set)

lemma store_ok_set_env:
  "store_ok s \<Longrightarrow> env_ok env e \<Longrightarrow> store_ok (s\<lparr>st_envs := gm_set env e (st_envs s)\<rparr>)"
  by (auto simp: store_ok_def gm_ok_set)

lemma resolved_flag_wt:
  assumes "resolved_flag be base k = Some f"
    and prev: "\<And>k f. prev_flag be k = Some f \<Longrightarrow> flag_Key f = k \<and> flag_wt f"
  shows "flag_Key f = k \<and> flag_wt f"
proof (cases "find (\<lambda>bf. bf_Key bf = k) base")
  case None
  then have "prev_flag be k = Some f" using assms(1) by (simp add: resolved_flag_def split: if_splits)
  then show ?thesis by (rule prev)
next
  case (Some bf)
  then have key: "bf_Key bf = k" by (auto simp: find_Some_iff)
  show ?thesis
  proof (cases "flag_outcome be bf")
    case None
    then have "prev_flag be k = Some f" using assms(1) Some by (simp add: resolved_flag_def)
    then show ?thesis by (rule prev)
  next
    case (Some g)
    then have "g = f" using assms(1) \<open>find _ base = Some bf\<close> by (simp add: resolved_flag_def)
    then show ?thesis using flag_outcome_Some [OF Some] key by metis
  qed
qed

lemma offer_ok: "length buf \<le> 1 \<Longrightarrow> offer snap buf = [snap]"
  by (cases buf) (simp_all add: offer_def try_send_def Let_def)

lemma notify_subs:
  "gm_get (es_subs (notify snap e)) i = map_option (offer snap) (gm_get (es_subs e) i)"
proof -
  have "map_of (map (\<lambda>(i, buf). (i, offer snap buf)) m) i = map_option (offer snap) (map_of m i)"
    for m :: "(int64 \<times> ResolvedSnapshot list) list" by (induction m) auto
  then show ?thesis by (simp add: notify_def gm_get_def)
qed

lemma notify_sel [simp]:
  "es_cur (notify snap e) = es_cur e" "es_gen (notify snap e) = es_gen e"
  "es_nextID (notify snap e) = es_nextID e"
  by (simp_all add: notify_def)

lemma gm_ok_notify [simp]: "gm_ok (es_subs (notify snap e)) \<longleftrightarrow> gm_ok (es_subs e)"
proof -
  have "fst \<circ> (\<lambda>(i, buf). (i, offer snap buf)) = (fst :: int64 \<times> ResolvedSnapshot list \<Rightarrow> int64)" by auto
  then show ?thesis by (simp add: notify_def gm_ok_def)
qed

section \<open>What a build does to the store\<close>

lemma build_inputs_ensure [simp]: "build_inputs env now (ensureEnv env' s) = build_inputs env now s"
  by (simp add: build_inputs_def)

lemma build_inputs_sel [simp]:
  "be_env (build_inputs env now s) = env" "be_prev (build_inputs env now s) = es_cur (env_state s env)"
  by (simp_all add: build_inputs_def Let_def)

text \<open>The snapshot an accepted build publishes.\<close>

definition next_snapshot :: "string \<Rightarrow> time \<Rightarrow> Store \<Rightarrow> BaseLayer \<Rightarrow> ResolvedSnapshot" where
  "next_snapshot env now s base =
     (let st = build_content (build_inputs env now s) (bl_Flags base)
      in sb_build (es_gen (env_state s env) + 1) now (sb_warn (bu_warnings st) (bu_b st)))"

definition published_env :: "hashing \<Rightarrow> envState \<Rightarrow> ResolvedSnapshot \<Rightarrow> envState" where
  "published_env h e snap =
     (let e' = e\<lparr>es_gen := es_gen e + 1, es_cur := Some snap\<rparr>
      in if content_unchanged h (es_cur e) snap then e' else notify snap e')"

lemma published_env_sel [simp]:
  "es_cur (published_env h e snap) = Some snap" "es_gen (published_env h e snap) = es_gen e + 1"
  by (simp_all add: published_env_def Let_def)

lemma publish_eq:
  "publish h env now b res s =
     (let e = env_state s env; snap = sb_build (es_gen e + 1) now b
      in (res\<lparr>er_Published := True, er_Generation := es_gen e + 1, er_QuarantinedFlags := QuarantinedKeys snap,
            er_ContentChanged := \<not> content_unchanged h (es_cur e) snap\<rparr>,
          s\<lparr>st_envs := gm_set env (published_env h e snap) (st_envs s)\<rparr>))"
  by (simp add: publish_def published_env_def Let_def)

definition accepted :: "string \<Rightarrow> time \<Rightarrow> Store \<Rightarrow> BaseLayer \<Rightarrow> bool" where
  "accepted env now s base \<longleftrightarrow>
     st_base s = Some base
     \<and> env_rejections (be_ovFindings (build_inputs env now s)) = []
     \<and> env_rejections (be_opsFindings (build_inputs env now s)) = []
     \<and> rs_Len (next_snapshot env now s base) \<le> MaxFlagsPerEnv
     \<and> length (QuarantinedKeys (next_snapshot env now s base)) \<le> QuarantineBudget (length (bl_Flags base))"

lemma guards_Nil:
  "guards env n b = [] \<longleftrightarrow> length (sb_flags b) \<le> MaxFlagsPerEnv \<and> quarantineCount b \<le> QuarantineBudget n"
  by (auto simp: guards_def)

lemma next_snapshot_counts:
  "rs_Len (next_snapshot env now s base) =
     length (sb_flags (bu_b (build_content (build_inputs env now s) (bl_Flags base))))"
  "length (QuarantinedKeys (next_snapshot env now s base)) =
     quarantineCount (bu_b (build_content (build_inputs env now s) (bl_Flags base)))"
  by (simp_all add: next_snapshot_def Let_def rs_Len_def QuarantinedKeys_def quarantineCount_def gm_keys_def)

lemma quarantineCount_warn [simp]: "quarantineCount (sb_warn fs b) = quarantineCount b"
  by (simp add: quarantineCount_def)

lemma buildEnv_accepted:
  assumes "accepted env now s base"
  shows "\<exists>res. er_Rejected res = [] \<and>
     buildEnv h env now s =
       (let st = build_content (build_inputs env now s) (bl_Flags base)
        in publish h env now (sb_warn (bu_warnings st) (bu_b st)) res (ensureEnv env s))"
proof -
  let ?st = "build_content (build_inputs env now s) (bl_Flags base)"
  let ?r = "case es_cur (env_state s env) of
      None \<Rightarrow> mk_EnvResult env (Some now)
    | Some p \<Rightarrow> (mk_EnvResult env (Some now))
        \<lparr>er_PreviousGeneration := rs_generation p, er_Generation := rs_generation p\<rparr>"
  have g: "guards env (length (bl_Flags base)) (sb_warn (bu_warnings ?st) (bu_b ?st)) = []"
    using assms by (simp add: accepted_def guards_Nil next_snapshot_counts)
  have "buildEnv h env now s = publish h env now (sb_warn (bu_warnings ?st) (bu_b ?st))
      (?r\<lparr>er_Rejected := [], er_Quarantined := bu_quarantined ?st, er_Warnings := bu_warnings ?st\<rparr>)
      (ensureEnv env s)"
    using assms by (simp add: accepted_def buildEnv_def Let_def g)
  then show ?thesis
    by (intro exI [of _ "?r\<lparr>er_Rejected := [], er_Quarantined := bu_quarantined ?st, er_Warnings := bu_warnings ?st\<rparr>"])
      (simp add: Let_def)
qed

text \<open>A build either publishes the next snapshot in its own slot, or changes nothing but to make the slot.\<close>

lemma buildEnv_published:
  assumes "accepted env now s base"
  shows "snd (buildEnv h env now s) = (ensureEnv env s)\<lparr>st_envs :=
           gm_set env (published_env h (env_state s env) (next_snapshot env now s base)) (st_envs (ensureEnv env s))\<rparr>"
    and "er_Published (fst (buildEnv h env now s))"
    and "er_Generation (fst (buildEnv h env now s)) = es_gen (env_state s env) + 1"
    and "er_Rejected (fst (buildEnv h env now s)) = []"
    and "er_ContentChanged (fst (buildEnv h env now s)) \<longleftrightarrow>
           \<not> content_unchanged h (es_cur (env_state s env)) (next_snapshot env now s base)"
  using buildEnv_accepted [OF assms, of h]
  by (auto simp: Let_def publish_eq next_snapshot_def)

lemma buildEnv_rejected:
  assumes "\<And>base. \<not> accepted env now s base"
  shows "snd (buildEnv h env now s) = ensureEnv env s"
    and "\<not> er_Published (fst (buildEnv h env now s))"
    and "er_Rejected (fst (buildEnv h env now s)) \<noteq> []"
  using assms
  by (auto simp: accepted_def buildEnv_def Let_def guards_Nil next_snapshot_counts mk_EnvResult_def
      split: option.split)

lemma env_state_set [simp]:
  "env_state (s\<lparr>st_envs := gm_set env e envs\<rparr>) env' =
     (if env' = env then e else env_state (s\<lparr>st_envs := envs\<rparr>) env')"
  by (simp add: env_state_def)

lemma env_state_same [simp]: "env_state (s\<lparr>st_envs := st_envs s'\<rparr>) env = env_state s' env"
  by (simp add: env_state_def)

lemma env_state_other_fields [simp]:
  "env_state (s\<lparr>st_base := b\<rparr>) env = env_state s env"
  "env_state (s\<lparr>st_overlays := ovs\<rparr>) env = env_state s env"
  "env_state (s\<lparr>st_ops := ops\<rparr>) env = env_state s env"
  "env_state (s\<lparr>st_lastRejected := r\<rparr>) env = env_state s env"
  by (simp_all add: env_state_def)

lemma buildEnv_env_state:
  "env_state (snd (buildEnv h env now s)) env' =
     (if env' = env \<and> er_Published (fst (buildEnv h env now s))
      then published_env h (env_state s env) (next_snapshot env now s (the (st_base s)))
      else env_state s env')"
proof (cases "\<exists>base. accepted env now s base")
  case True
  then obtain base where a: "accepted env now s base" by blast
  then have "st_base s = Some base" by (simp add: accepted_def)
  then show ?thesis using buildEnv_published [OF a] by simp
next
  case False
  then have "\<And>base. \<not> accepted env now s base" by blast
  from buildEnv_rejected [OF this] show ?thesis by simp
qed

lemma buildEnv_layers [simp]:
  "st_base (snd (buildEnv h env now s)) = st_base s"
  "st_overlays (snd (buildEnv h env now s)) = st_overlays s"
  "st_ops (snd (buildEnv h env now s)) = st_ops s"
  "st_lastRejected (snd (buildEnv h env now s)) = st_lastRejected s"
proof -
  have "st_base (snd (buildEnv h env now s)) = st_base s \<and> st_overlays (snd (buildEnv h env now s)) = st_overlays s
    \<and> st_ops (snd (buildEnv h env now s)) = st_ops s \<and> st_lastRejected (snd (buildEnv h env now s)) = st_lastRejected s"
  proof (cases "\<exists>base. accepted env now s base")
    case True
    then obtain base where "accepted env now s base" by blast
    then show ?thesis by (simp add: buildEnv_published(1))
  next
    case False
    then show ?thesis by (simp add: buildEnv_rejected(1))
  qed
  then show "st_base (snd (buildEnv h env now s)) = st_base s"
    "st_overlays (snd (buildEnv h env now s)) = st_overlays s"
    "st_ops (snd (buildEnv h env now s)) = st_ops s"
    "st_lastRejected (snd (buildEnv h env now s)) = st_lastRejected s"
    by blast+
qed

lemma accepted_published:
  "er_Published (fst (buildEnv h env now s)) \<longleftrightarrow> (\<exists>base. accepted env now s base)"
  using buildEnv_published [of env now s _ h] buildEnv_rejected [of env now s h] by blast

lemma base_distinct:
  "store_ok s \<Longrightarrow> st_base s = Some base \<Longrightarrow> distinct (map bf_Key (bl_Flags base))"
  by (simp add: store_ok_def ValidateBase_def validate_base_flags_rejects)

lemma prev_flag_ok:
  assumes "store_ok s" and "prev_flag (build_inputs env now s) k = Some f"
  shows "flag_Key f = k \<and> flag_wt f"
proof -
  obtain snap where cur: "es_cur (env_state s env) = Some snap" and f: "rs_Flag snap k = Some f"
    using assms(2) by (auto simp: prev_flag_def split: option.splits)
  have "snapshot_ok env snap" using env_ok_state [OF assms(1), of env] cur by (simp add: env_ok_def)
  then show ?thesis using f by (simp add: snapshot_ok_def)
qed

lemma prev_flag_key:
  assumes "store_ok s" and "prev_flag (build_inputs env now s) k = Some f"
  shows "flagKeyRE k"
proof -
  obtain snap where cur: "es_cur (env_state s env) = Some snap" and f: "rs_Flag snap k = Some f"
    using assms(2) by (auto simp: prev_flag_def split: option.splits)
  have "snapshot_ok env snap" using env_ok_state [OF assms(1), of env] cur by (simp add: env_ok_def)
  moreover then have "k \<in> set (rs_keys snap)" using f by (simp add: snapshot_ok_def rs_Flag_def gm_keys_iff)
  ultimately show ?thesis by (auto simp: snapshot_ok_def list_all_iff)
qed

lemma base_keys:
  "store_ok s \<Longrightarrow> st_base s = Some base \<Longrightarrow> find (\<lambda>bf. bf_Key bf = k) (bl_Flags base) = Some bf \<Longrightarrow> flagKeyRE k"
  by (auto simp: store_ok_def ValidateBase_def validate_base_flags_rejects list_all_iff base_flag_ok_def find_Some_iff)

lemma resolved_flag_key:
  assumes "store_ok s" and "st_base s = Some base"
    and "resolved_flag (build_inputs env now s) (bl_Flags base) k = Some f"
  shows "flagKeyRE k"
  using assms(3) prev_flag_key [OF assms(1)] base_keys [OF assms(1,2)]
  by (cases "find (\<lambda>bf. bf_Key bf = k) (bl_Flags base)") (auto simp: resolved_flag_def split: if_splits)

lemma next_snapshot_flag:
  assumes "store_ok s" and "st_base s = Some base"
  shows "rs_Flag (next_snapshot env now s base) k = resolved_flag (build_inputs env now s) (bl_Flags base) k"
    and "IsQuarantined (next_snapshot env now s base) k \<longleftrightarrow>
      resolved_quarantine (build_inputs env now s) (bl_Flags base) k"
  using build_content_flags [of "build_inputs env now s" "bl_Flags base" k]
    build_content_quarantined [of "build_inputs env now s" "bl_Flags base" k]
    base_distinct [OF assms] snapshot_ok_keyed [OF assms(1), of env]
  by (simp_all add: next_snapshot_def Let_def)

lemma next_snapshot_ok:
  assumes "store_ok s" and "accepted env now s base"
  shows "snapshot_ok env (next_snapshot env now s base)"
proof -
  have base: "st_base s = Some base" using assms(2) by (simp add: accepted_def)
  have "flag_Key f = k \<and> flag_wt f" if "rs_Flag (next_snapshot env now s base) k = Some f" for k f
  proof (rule resolved_flag_wt)
    show "resolved_flag (build_inputs env now s) (bl_Flags base) k = Some f"
      using that unfolding next_snapshot_flag [OF assms(1) base] .
  qed (rule prev_flag_ok [OF assms(1)])
  moreover have "builder_ok env (bu_b (build_content (build_inputs env now s) (bl_Flags base)))"
    using builder_ok_build_content [of "build_inputs env now s" "bl_Flags base"] by simp
  moreover have "flagKeyRE k" if "k \<in> set (rs_keys (next_snapshot env now s base))" for k
  proof -
    have "rs_Flag (next_snapshot env now s base) k \<noteq> None"
      using that by (simp add: next_snapshot_def Let_def rs_Flag_def gm_keys_iff)
    then show ?thesis
      using resolved_flag_key [OF assms(1) base] by (auto simp: next_snapshot_flag [OF assms(1) base])
  qed
  then have "list_all flagKeyRE (rs_keys (next_snapshot env now s base))" by (simp add: list_all_iff)
  ultimately show ?thesis
    using assms(2) unfolding snapshot_ok_def accepted_def
    by (simp add: next_snapshot_def Let_def builder_ok_def)
qed

lemma env_ok_published:
  assumes "env_ok env e" and "snapshot_ok env snap" and "rs_generation snap = es_gen e + 1"
  shows "env_ok env (published_env h e snap)"
proof (cases "content_unchanged h (es_cur e) snap")
  case True
  then show ?thesis using assms by (simp add: published_env_def Let_def env_ok_def)
next
  case False
  have "length buf \<le> 1 \<and> list_all (snapshot_ok env) buf"
    if sub: "gm_get (es_subs (notify snap (e\<lparr>es_gen := es_gen e + 1, es_cur := Some snap\<rparr>))) i = Some buf" for i buf
  proof -
    obtain old where "gm_get (es_subs e) i = Some old" "buf = offer snap old"
      using sub unfolding notify_subs by auto
    moreover then have "length old \<le> 1" using assms(1) by (auto simp: env_ok_def)
    ultimately show ?thesis using assms(2) by (simp add: offer_ok)
  qed
  then show ?thesis
    using False assms by (simp add: published_env_def Let_def env_ok_def)
qed

lemma rs_generation_next [simp]:
  "rs_generation (next_snapshot env now s base) = es_gen (env_state s env) + 1"
  by (simp add: next_snapshot_def Let_def)

lemma store_ok_buildEnv:
  assumes "store_ok s"
  shows "store_ok (snd (buildEnv h env now s))"
proof (cases "\<exists>base. accepted env now s base")
  case True
  then obtain base where a: "accepted env now s base" by blast
  have "env_ok env (published_env h (env_state s env) (next_snapshot env now s base))"
    by (rule env_ok_published [OF env_ok_state [OF assms] next_snapshot_ok [OF assms a]]) simp
  then show ?thesis
    unfolding buildEnv_published (1) [OF a] by (intro store_ok_set_env store_ok_ensure assms)
next
  case False
  then have "\<And>base. \<not> accepted env now s base" by blast
  from buildEnv_rejected (1) [OF this] show ?thesis using assms by (simp add: store_ok_ensure)
qed

section \<open>Whole writes\<close>

lemma for_envs_Nil [simp]: "for_envs f [] rs = rs"
  by (simp add: for_envs_def)

lemma for_envs_Cons:
  "for_envs f (env # envs) (r, s) =
     for_envs f envs (r\<lparr>br_PerEnv := gm_set env (fst (f env s)) (br_PerEnv r)\<rparr>, snd (f env s))"
  by (simp add: for_envs_def split: prod.split)

lemma for_envs_invariant:
  assumes "\<And>env s. P s \<Longrightarrow> P (snd (f env s))" and "P s"
  shows "P (snd (for_envs f envs (r, s)))"
  using assms(2) by (induction envs arbitrary: r s) (simp_all add: for_envs_Cons assms(1))

lemma store_ok_status: "store_ok s \<Longrightarrow> store_ok (snd (envStatus env w s))"
  by (simp add: envStatus_def Let_def store_ok_ensure split: option.split)

lemma store_ok_layer_fields:
  "store_ok s \<Longrightarrow> store_ok (s\<lparr>st_lastRejected := r\<rparr>)"
  "store_ok s \<Longrightarrow> \<not> HasRejections (ValidateBase b) \<Longrightarrow> store_ok (s\<lparr>st_base := b\<rparr>)"
  "store_ok s \<Longrightarrow> ol_Environment l \<noteq> [] \<Longrightarrow>
     store_ok (s\<lparr>st_overlays := gm_set (ol_Environment l) l (st_overlays s)\<rparr>)"
  "store_ok s \<Longrightarrow> opl_Environment p \<noteq> [] \<Longrightarrow>
     store_ok (s\<lparr>st_ops := gm_set (opl_Environment p) p (st_ops s)\<rparr>)"
  by (auto simp: store_ok_def gm_ok_set)

lemma store_ok_Set:
  assumes "store_ok s"
  shows "store_ok (snd (store_Set h now layer s))"
proof (cases layer)
  case (LBase l)
  then show ?thesis using assms
    by (auto simp: store_Set_def Let_def intro!: for_envs_invariant [where P = store_ok]
        store_ok_status store_ok_buildEnv store_ok_layer_fields)
next
  case (LOverlay l)
  then show ?thesis using assms
    by (auto simp: store_Set_def for_envs_Cons intro!: store_ok_buildEnv store_ok_layer_fields store_ok_ensure)
next
  case (LOps l)
  then show ?thesis using assms
    by (auto simp: store_Set_def for_envs_Cons intro!: store_ok_buildEnv store_ok_layer_fields store_ok_ensure)
qed (use assms in \<open>simp add: store_Set_def\<close>)

lemma store_ok_Rebuild: "store_ok s \<Longrightarrow> store_ok (snd (store_Rebuild h now s))"
  unfolding store_Rebuild_def by (rule for_envs_invariant [where P = store_ok]) (simp_all add: store_ok_buildEnv)

end
