(* ===== verification/Config_Publish.thy ===== *)
theory Config_Publish
  imports Config_Store
begin

text \<open>
  Publication, end to end: what a write does to every environment's slot, the store as a
  transition system with its invariant, and the properties of what is served: validity,
  fail-safe rejection, isolation of the environments, quarantine, and waking of subscribers.
\<close>

section \<open>The effect of a write on one environment\<close>

text \<open>A build reads its own slot and the layers only.\<close>

lemma accepted_cong:
  assumes "st_base s = st_base s'" "st_overlays s = st_overlays s'" "st_ops s = st_ops s'"
    and "env_state s env = env_state s' env"
  shows "accepted env now s base \<longleftrightarrow> accepted env now s' base"
    and "next_snapshot env now s base = next_snapshot env now s' base"
proof -
  have "build_inputs env now s = build_inputs env now s'"
    using assms by (simp add: build_inputs_def)
  then show "accepted env now s base \<longleftrightarrow> accepted env now s' base"
    and "next_snapshot env now s base = next_snapshot env now s' base"
    using assms by (simp_all add: accepted_def next_snapshot_def)
qed

definition publishes :: "string \<Rightarrow> time \<Rightarrow> Store \<Rightarrow> bool" where
  "publishes env now s \<longleftrightarrow> (\<exists>base. accepted env now s base)"

text \<open>The slot after a build of its environment.\<close>

definition built_env :: "hashing \<Rightarrow> string \<Rightarrow> time \<Rightarrow> Store \<Rightarrow> envState" where
  "built_env h env now s =
     (if publishes env now s
      then published_env h (env_state s env) (next_snapshot env now s (the (st_base s)))
      else env_state s env)"

lemma built_env_cong:
  assumes "st_base s = st_base s'" "st_overlays s = st_overlays s'" "st_ops s = st_ops s'"
    and "env_state s env = env_state s' env"
  shows "built_env h env now s = built_env h env now s'" "publishes env now s = publishes env now s'"
  using accepted_cong [OF assms] assms by (simp_all add: built_env_def publishes_def)

lemma buildEnv_built:
  "env_state (snd (buildEnv h env now s)) env' = (if env' = env then built_env h env now s else env_state s env')"
  "er_Published (fst (buildEnv h env now s)) \<longleftrightarrow> publishes env now s"
  by (auto simp: buildEnv_env_state built_env_def publishes_def accepted_published)

lemma for_envs_build:
  fixes h now
  assumes "distinct envs"
  defines "b \<equiv> \<lambda>env. buildEnv h env now"
  shows "env_state (snd (for_envs b envs (r, s))) env =
      (if env \<in> set envs then built_env h env now s else env_state s env)"
    and "env \<in> set envs \<Longrightarrow>
      \<exists>e. gm_get (br_PerEnv (fst (for_envs b envs (r, s)))) env = Some e
        \<and> (er_Published e \<longleftrightarrow> publishes env now s)"
    and "env \<notin> set envs \<Longrightarrow>
      gm_get (br_PerEnv (fst (for_envs b envs (r, s)))) env = gm_get (br_PerEnv r) env"
  using assms(1)
proof (induction envs arbitrary: r s)
  case (Cons e envs)
  have same: "built_env h env now (snd (buildEnv h e now t)) = built_env h env now t"
    "publishes env now (snd (buildEnv h e now t)) = publishes env now t" if "env \<noteq> e" for t
    using built_env_cong [of "snd (buildEnv h e now t)" t env] that by (simp_all add: buildEnv_built)
  {
    case (1 r s)
    then have "distinct envs" "e \<notin> set envs" by simp_all
    then show ?case
      using Cons.IH (1) [of "r\<lparr>br_PerEnv := gm_set e (fst (buildEnv h e now s)) (br_PerEnv r)\<rparr>" "snd (buildEnv h e now s)"]
        same [of s]
      by (auto simp: for_envs_Cons b_def buildEnv_built)
  next
    case (2 r s)
    let ?s = "snd (buildEnv h e now s)" and ?r = "r\<lparr>br_PerEnv := gm_set e (fst (buildEnv h e now s)) (br_PerEnv r)\<rparr>"
    show ?case
    proof (cases "env = e")
      case True
      then show ?thesis using 2 Cons.IH (3) [of ?r ?s] by (simp add: for_envs_Cons b_def buildEnv_built)
    next
      case False
      then show ?thesis using 2 Cons.IH (2) [of ?r ?s] same [of s] by (simp add: for_envs_Cons b_def)
    qed
  next
    case (3 r s)
    then show ?case
      using Cons.IH (3) [of "r\<lparr>br_PerEnv := gm_set e (fst (buildEnv h e now s)) (br_PerEnv r)\<rparr>" "snd (buildEnv h e now s)"]
      by (simp add: for_envs_Cons b_def)
  }
qed simp_all

lemma for_envs_layers:
  "st_base (snd (for_envs (\<lambda>env. buildEnv h env now) envs (r, s))) = st_base s"
  "st_overlays (snd (for_envs (\<lambda>env. buildEnv h env now) envs (r, s))) = st_overlays s"
  "st_ops (snd (for_envs (\<lambda>env. buildEnv h env now) envs (r, s))) = st_ops s"
  by (induction envs arbitrary: r s) (simp_all add: for_envs_Cons)

lemma envStatus_env_state: "env_state (snd (envStatus env w s)) env' = env_state s env'"
  by (simp add: envStatus_def Let_def split: option.split)

lemma envStatus_layers:
  "st_base (snd (envStatus env w s)) = st_base s" "st_overlays (snd (envStatus env w s)) = st_overlays s"
  "st_ops (snd (envStatus env w s)) = st_ops s" "\<not> er_Published (fst (envStatus env w s))"
  by (simp_all add: envStatus_def Let_def mk_EnvResult_def split: option.split)

lemma for_envs_status:
  "env_state (snd (for_envs (\<lambda>env. envStatus env w) envs (r, s))) env = env_state s env"
  "st_base (snd (for_envs (\<lambda>env. envStatus env w) envs (r, s))) = st_base s"
  "st_overlays (snd (for_envs (\<lambda>env. envStatus env w) envs (r, s))) = st_overlays s"
  "st_ops (snd (for_envs (\<lambda>env. envStatus env w) envs (r, s))) = st_ops s"
  by (induction envs arbitrary: r s) (simp_all add: for_envs_Cons envStatus_env_state envStatus_layers)

lemma for_envs_status_unpublished:
  "\<not> PublishedIn r env \<Longrightarrow> \<not> PublishedIn (fst (for_envs (\<lambda>env. envStatus env w) envs (r, s))) env"
proof (induction envs arbitrary: r s)
  case (Cons e envs)
  have "\<not> PublishedIn (r\<lparr>br_PerEnv := gm_set e (fst (envStatus e w s)) (br_PerEnv r)\<rparr>) env"
    using Cons.prems by (simp add: PublishedIn_def envStatus_layers)
  then show ?case unfolding for_envs_Cons by (rule Cons.IH)
qed simp

text \<open>The layers after a write, and the environments it rebuilds.\<close>

definition installed :: "Layer \<Rightarrow> Store \<Rightarrow> Store" where
  "installed layer s =
     (case layer of
        LBase l \<Rightarrow> if HasRejections (ValidateBase l) then s else s\<lparr>st_base := l\<rparr>
      | LOverlay l \<Rightarrow>
          if ol_Environment l = [] then s
          else s\<lparr>st_overlays := gm_set (ol_Environment l) l (st_overlays s)\<rparr>
      | LOps l \<Rightarrow>
          if opl_Environment l = [] then s
          else s\<lparr>st_ops := gm_set (opl_Environment l) l (st_ops s)\<rparr>
      | LOther \<Rightarrow> s)"

definition targets :: "Layer \<Rightarrow> Store \<Rightarrow> string list" where
  "targets layer s =
     (case layer of
        LBase l \<Rightarrow> if HasRejections (ValidateBase l) then [] else Environments s
      | LOverlay l \<Rightarrow> if ol_Environment l = [] then [] else [ol_Environment l]
      | LOps l \<Rightarrow> if opl_Environment l = [] then [] else [opl_Environment l]
      | LOther \<Rightarrow> [])"

lemma PublishedIn_empty [simp]:
  "\<not> PublishedIn empty_report env" "\<not> PublishedIn (empty_report\<lparr>br_Global := fs\<rparr>) env"
  by (simp_all add: PublishedIn_def empty_report_def)

lemma distinct_Environments: "store_ok s \<Longrightarrow> distinct (Environments s)"
  by (simp add: store_ok_def Environments_def gm.keys_distinct)

text \<open>A write is the builds of its targets on the layers it installs.\<close>

lemma for_envs_effect:
  assumes "distinct envs" and "\<not> PublishedIn r env"
  shows "env_state (snd (for_envs (\<lambda>env. buildEnv h env now) envs (r, s))) env =
      (if env \<in> set envs then built_env h env now s else env_state s env)"
    and "PublishedIn (fst (for_envs (\<lambda>env. buildEnv h env now) envs (r, s))) env \<longleftrightarrow>
      env \<in> set envs \<and> publishes env now s"
proof -
  note b = for_envs_build [OF assms(1), where h = h and now = now and r = r and s = s and env = env]
  show "env_state (snd (for_envs (\<lambda>env. buildEnv h env now) envs (r, s))) env =
      (if env \<in> set envs then built_env h env now s else env_state s env)"
    by (rule b (1))
  show "PublishedIn (fst (for_envs (\<lambda>env. buildEnv h env now) envs (r, s))) env \<longleftrightarrow>
      env \<in> set envs \<and> publishes env now s"
  proof (cases "env \<in> set envs")
    case True
    with b (2) obtain e where "gm_get (br_PerEnv (fst (for_envs (\<lambda>env. buildEnv h env now) envs (r, s)))) env = Some e"
      "er_Published e \<longleftrightarrow> publishes env now s" by blast
    then show ?thesis using True by (simp add: PublishedIn_def)
  next
    case False
    then show ?thesis using b (3) assms(2) by (simp add: PublishedIn_def)
  qed
qed

lemma store_Set_targets:
  "(\<exists>r s'. store_Set h now layer s = for_envs (\<lambda>env. buildEnv h env now) (targets layer s) (r, s')
      \<and> br_PerEnv r = [] \<and> (\<forall>env. env_state s' env = env_state s env)
      \<and> st_base s' = st_base (installed layer s) \<and> st_overlays s' = st_overlays (installed layer s)
      \<and> st_ops s' = st_ops (installed layer s))
   \<or> (\<exists>r w s'. store_Set h now layer s = for_envs (\<lambda>env. envStatus env w) (Environments s) (r, s')
      \<and> br_PerEnv r = [] \<and> (\<forall>env. env_state s' env = env_state s env) \<and> targets layer s = []
      \<and> st_base s' = st_base (installed layer s) \<and> st_overlays s' = st_overlays (installed layer s)
      \<and> st_ops s' = st_ops (installed layer s))"
proof (cases layer)
  case (LBase l)
  show ?thesis
  proof (cases "HasRejections (ValidateBase l)")
    case True
    show ?thesis
      by (rule disjI2) (auto simp: LBase True store_Set_def Let_def targets_def installed_def empty_report_def
          intro!: exI)
  next
    case False
    show ?thesis
      by (rule disjI1) (auto simp: LBase False store_Set_def Let_def targets_def installed_def empty_report_def
          intro!: exI)
  qed
next
  case (LOverlay l)
  show ?thesis
    by (rule disjI1, cases "ol_Environment l = []")
      (auto simp: LOverlay store_Set_def targets_def installed_def empty_report_def intro!: exI)
next
  case (LOps l)
  show ?thesis
    by (rule disjI1, cases "opl_Environment l = []")
      (auto simp: LOps store_Set_def targets_def installed_def empty_report_def intro!: exI)
next
  case LOther
  show ?thesis
    by (rule disjI1) (auto simp: LOther store_Set_def targets_def installed_def empty_report_def intro!: exI)
qed

lemma store_Set_effect:
  assumes "store_ok s"
  shows "env_state (snd (store_Set h now layer s)) env =
      (if env \<in> set (targets layer s) then built_env h env now (installed layer s) else env_state s env)"
    and "PublishedIn (fst (store_Set h now layer s)) env \<longleftrightarrow>
      env \<in> set (targets layer s) \<and> publishes env now (installed layer s)"
    and "st_base (snd (store_Set h now layer s)) = st_base (installed layer s)"
    and "st_overlays (snd (store_Set h now layer s)) = st_overlays (installed layer s)"
    and "st_ops (snd (store_Set h now layer s)) = st_ops (installed layer s)"
proof -
  have inst: "env_state (installed layer s) env = env_state s env"
    by (simp add: installed_def split: Layer.split)
  have d: "distinct (targets layer s)"
    using distinct_Environments [OF assms] by (simp add: targets_def split: Layer.split)
  have unpub: "\<not> PublishedIn r env" if "br_PerEnv r = []" for r using that by (simp add: PublishedIn_def)
  from store_Set_targets [of h now layer s]
  have "env_state (snd (store_Set h now layer s)) env =
      (if env \<in> set (targets layer s) then built_env h env now (installed layer s) else env_state s env)
    \<and> (PublishedIn (fst (store_Set h now layer s)) env \<longleftrightarrow>
        env \<in> set (targets layer s) \<and> publishes env now (installed layer s))
    \<and> st_base (snd (store_Set h now layer s)) = st_base (installed layer s)
    \<and> st_overlays (snd (store_Set h now layer s)) = st_overlays (installed layer s)
    \<and> st_ops (snd (store_Set h now layer s)) = st_ops (installed layer s)"
  proof (elim disjE exE conjE)
    fix r s' assume "store_Set h now layer s = for_envs (\<lambda>env. buildEnv h env now) (targets layer s) (r, s')"
      and r: "br_PerEnv r = []" and st: "\<forall>env. env_state s' env = env_state s env"
        "st_base s' = st_base (installed layer s)" "st_overlays s' = st_overlays (installed layer s)"
        "st_ops s' = st_ops (installed layer s)"
    moreover have "built_env h env now s' = built_env h env now (installed layer s)"
      "publishes env now s' = publishes env now (installed layer s)"
      using built_env_cong [of s' "installed layer s" env] st inst by simp_all
    ultimately show ?thesis
      using for_envs_effect [OF d unpub [OF r], where h = h and now = now and s = s'] for_envs_layers
      by (simp cong: if_cong)
  next
    fix r w s' assume "store_Set h now layer s = for_envs (\<lambda>env. envStatus env w) (Environments s) (r, s')"
      and "br_PerEnv r = []" "\<forall>env. env_state s' env = env_state s env" "targets layer s = []"
        "st_base s' = st_base (installed layer s)" "st_overlays s' = st_overlays (installed layer s)"
        "st_ops s' = st_ops (installed layer s)"
    then show ?thesis
      using for_envs_status for_envs_status_unpublished [OF unpub, of r] by simp
  qed
  then show "env_state (snd (store_Set h now layer s)) env =
      (if env \<in> set (targets layer s) then built_env h env now (installed layer s) else env_state s env)"
    and "PublishedIn (fst (store_Set h now layer s)) env \<longleftrightarrow>
      env \<in> set (targets layer s) \<and> publishes env now (installed layer s)"
    and "st_base (snd (store_Set h now layer s)) = st_base (installed layer s)"
    and "st_overlays (snd (store_Set h now layer s)) = st_overlays (installed layer s)"
    and "st_ops (snd (store_Set h now layer s)) = st_ops (installed layer s)"
    by blast+
qed

text \<open>A timed rebuild is the builds of all environments on the layers as they are. A write and a rebuild are the two
  events that build: \<open>store_build\<close> is either of them, and \<open>built_from\<close> the store whose layers it builds from.\<close>

definition store_build :: "hashing \<Rightarrow> time \<Rightarrow> Layer option \<Rightarrow> Store \<Rightarrow> BuildReport \<times> Store" where
  "store_build h now w s = (case w of Some layer \<Rightarrow> store_Set h now layer s | None \<Rightarrow> store_Rebuild h now s)"

definition built_from :: "Layer option \<Rightarrow> Store \<Rightarrow> Store" where
  "built_from w s = (case w of Some layer \<Rightarrow> installed layer s | None \<Rightarrow> s)"

lemma env_state_installed [simp]: "env_state (installed layer s) env = env_state s env"
  by (simp add: installed_def split: Layer.split)

lemma store_build_effect:
  fixes h :: hashing and now :: time and w :: "Layer option" and s :: Store
  assumes "store_ok s"
  defines "envs \<equiv> set (case w of Some layer \<Rightarrow> targets layer s | None \<Rightarrow> Environments s)"
    and "r \<equiv> store_build h now w s"
  shows "env_state (snd r) env = (if env \<in> envs then built_env h env now (built_from w s) else env_state s env)"
    and "PublishedIn (fst r) env \<longleftrightarrow> env \<in> envs \<and> publishes env now (built_from w s)"
    and "st_base (snd r) = st_base (built_from w s)" and "st_overlays (snd r) = st_overlays (built_from w s)"
    and "st_ops (snd r) = st_ops (built_from w s)"
proof -
  note d = distinct_Environments [OF assms(1)]
  show "env_state (snd r) env = (if env \<in> envs then built_env h env now (built_from w s) else env_state s env)"
    "PublishedIn (fst r) env \<longleftrightarrow> env \<in> envs \<and> publishes env now (built_from w s)"
    "st_base (snd r) = st_base (built_from w s)" "st_overlays (snd r) = st_overlays (built_from w s)"
    "st_ops (snd r) = st_ops (built_from w s)"
    using for_envs_effect [OF d PublishedIn_empty(1), where h = h and now = now and s = s and env = env] for_envs_layers [where h = h and now = now]
      store_Set_effect(3-5) [OF assms(1), where h = h and now = now]
      store_Set_effect(1,2) [OF assms(1), where h = h and now = now and env = env]
    by (simp_all add: r_def envs_def store_build_def built_from_def store_Rebuild_def split: option.split)
qed

lemma store_ok_built_from: "store_ok s \<Longrightarrow> PublishedIn (fst (store_build h now w s)) env \<Longrightarrow> store_ok (built_from w s)"
  using store_build_effect(2) [of s h now w env]
  by (auto simp: built_from_def installed_def targets_def store_ok_layer_fields split: option.splits Layer.splits if_splits)

section \<open>The store as a transition system\<close>

inductive store_step :: "hashing \<Rightarrow> Store \<Rightarrow> Store \<Rightarrow> bool" for h where
  step_Set: "store_step h s (snd (store_Set h now layer s))"
| step_Rebuild: "store_step h s (snd (store_Rebuild h now s))"
| step_Subscribe: "store_step h s (snd (store_Subscribe env s))"
| step_cancel: "gm_has (st_envs s) env \<Longrightarrow> store_step h s (on_env env (env_cancel i) s)"
| step_receive: "gm_has (st_envs s) env \<Longrightarrow> store_step h s (on_env env (\<lambda>e. snd (env_receive i e)) s)"

inductive store_reachable :: "hashing \<Rightarrow> Store \<Rightarrow> bool" for h where
  start: "store_reachable h (Store_New (map WithEnvironments envss))"
| step: "store_reachable h s \<Longrightarrow> store_step h s s' \<Longrightarrow> store_reachable h s'"

definition table_ok :: "(string, envState) gomap \<Rightarrow> bool" where
  "table_ok m \<longleftrightarrow> gm_ok m \<and> (\<forall>env e. gm_get m env = Some e \<longrightarrow> env_ok env e)"

lemma table_ok_set: "table_ok m \<Longrightarrow> table_ok (gm_set e empty_env m)"
  by (simp add: table_ok_def gm_ok_set)

lemma table_ok_fold:
  "table_ok m \<Longrightarrow> table_ok (foldl (\<lambda>tbl e. if e = [] then tbl else gm_set e empty_env tbl) m envs)"
  by (induction envs arbitrary: m) (simp_all add: table_ok_set)

lemma store_ok_New: "store_ok (Store_New (map WithEnvironments envss))"
proof -
  have opt: "store_ok (WithEnvironments envs s)"
    if "st_base s = None" "st_overlays s = []" "st_ops s = []" for envs s
    using table_ok_fold [of "[]" envs] that
    by (simp add: store_ok_def WithEnvironments_def ValidateBase_def table_ok_def)
  have "st_base (foldl (\<lambda>s f. f s) s (map WithEnvironments envss)) = None
      \<and> st_overlays (foldl (\<lambda>s f. f s) s (map WithEnvironments envss)) = []
      \<and> st_ops (foldl (\<lambda>s f. f s) s (map WithEnvironments envss)) = []
      \<and> store_ok (foldl (\<lambda>s f. f s) s (map WithEnvironments envss))"
    if "store_ok s" "st_base s = None" "st_overlays s = []" "st_ops s = []" for s
    using that
  proof (induction envss arbitrary: s)
    case (Cons envs envss)
    have "store_ok (WithEnvironments envs s)" by (rule opt) (use Cons.prems in auto)
    then show ?case using Cons by (simp add: WithEnvironments_def)
  qed simp
  moreover have "store_ok (WithEnvironments DefaultEnvironments z)
      \<and> st_base (WithEnvironments DefaultEnvironments z) = None
      \<and> st_overlays (WithEnvironments DefaultEnvironments z) = [] \<and> st_ops (WithEnvironments DefaultEnvironments z) = []"
    if "st_base z = None" "st_overlays z = []" "st_ops z = []" for z
    using opt [OF that, of DefaultEnvironments] that by (simp add: WithEnvironments_def)
  ultimately show ?thesis unfolding Store_New_def by simp
qed

lemma env_ok_subscribe: "env_ok env e \<Longrightarrow> env_ok env (snd (env_subscribe e))"
  by (auto simp: env_ok_def env_subscribe_def Let_def gm_ok_set split: option.splits if_splits)

lemma env_ok_cancel: "env_ok env e \<Longrightarrow> env_ok env (env_cancel i e)"
  by (auto simp: env_ok_def env_cancel_def gm_ok_del split: if_splits option.splits)

lemma env_ok_receive: "env_ok env e \<Longrightarrow> env_ok env (snd (env_receive i e))"
  by (fastforce simp: env_ok_def env_receive_def gm_ok_set split: option.splits list.splits if_splits)

lemma store_ok_on_env: "store_ok s \<Longrightarrow> (\<And>e. env_ok env e \<Longrightarrow> env_ok env (f e)) \<Longrightarrow> store_ok (on_env env f s)"
  unfolding on_env_def by (intro store_ok_set_env) (simp_all add: env_ok_state)

lemma store_ok_step: "store_step h s s' \<Longrightarrow> store_ok s \<Longrightarrow> store_ok s'"
  by (induction rule: store_step.induct)
    (simp_all add: store_ok_Set store_ok_Rebuild store_Subscribe_def Let_def store_ok_on_env store_ok_ensure
      env_ok_subscribe env_ok_cancel env_ok_receive)

lemma reachable_store_ok: "store_reachable h s \<Longrightarrow> store_ok s"
  by (induction rule: store_reachable.induct) (simp_all add: store_ok_New store_ok_step)

lemma store_Get_state: "store_Get s k env = prev_flag (build_inputs env now s) k"
  by (auto simp: store_Get_def prev_flag_def env_state_def empty_env_def split: option.split)

lemma store_Snapshot_state: "store_Snapshot s env = es_cur (env_state s env)"
  by (auto simp: store_Snapshot_def env_state_def empty_env_def split: option.split)

end
