(* ===== verification/Core_Contract.thy ===== *)
theory Core_Contract
  imports Core_Evaluator
begin

text \<open>
  What the evaluator may rely on when a snapshot comes from a validating provider. The interface
  \<^verbatim>\<open>core.Snapshot\<close> promises little; a provider of \<open>typed_snapshots\<close> promises that its accessors
  return and that every flag it serves is filed under its key with values of its type. Under that
  contract the shipped evaluator has no error path left.
\<close>

definition answers_typed :: "Flag \<Rightarrow> bool" where
  "answers_typed f \<longleftrightarrow>
     Value_Type (flag_DefaultValue f) = flag_Type f \<and> Value_Type (flag_OffValue f) = flag_Type f
     \<and> list_all (\<lambda>r. Value_Type (rule_Value r) = flag_Type f) (flag_Rules f)
     \<and> (case flag_Rollout f of
          None \<Rightarrow> True
        | Some r \<Rightarrow> Value_Type (roll_OnValue r) = flag_Type f \<and> Value_Type (roll_OffValue r) = flag_Type f)"

abbreviation shipped :: "(string \<Rightarrow> uint64) \<Rightarrow> observer \<Rightarrow> evaluator" where
  "shipped sum64 ob \<equiv> core_New sum64 [Some (WithConditionObserver ob)]"

abbreviation shipped_decision :: "(string \<Rightarrow> uint64) \<Rightarrow> Flag \<Rightarrow> EvalContext \<Rightarrow> decision" where
  "shipped_decision sum64 \<equiv> decide (\<lambda>f. NamespaceStrategy_Key (Some f)) (XXHasher_Bucket sum64)"

lemma shipped_decision_bucket: "shipped_decision sum64 f c \<noteq> DecideBadBucket"
proof -
  have "sint (XXHasher_Bucket sum64 k) \<in> {0 .. 9999}" for k
    using xxhasher.in_space [of sum64 k] by simp
  then show ?thesis by (auto simp: decide_def split: option.split)
qed

lemma typed_decision:
  assumes "answers_typed f"
  shows "typed_result f cd (decision_result f (shipped_decision sum64 f c) cd gen)
     = decision_result f (shipped_decision sum64 f c) cd gen"
proof (cases "shipped_decision sum64 f c")
  case (DecideRule r)
  then have "find (\<lambda>r. rule_matches r c) (flag_Rules f) = Some r"
    by (auto simp: decide_def split: if_splits option.splits)
  then have "r \<in> set (flag_Rules f)" by (auto simp: find_Some_iff)
  then have "Value_Type (rule_Value r) = flag_Type f"
    using assms by (simp add: answers_typed_def list_all_iff)
  then show ?thesis by (simp add: DecideRule typed_result_def)
qed (use assms in \<open>auto simp: typed_result_def answers_typed_def Result_IsFallback_def split: option.splits\<close>)

lemma decision_reason:
  assumes "shipped_decision sum64 f c = d" and "d \<noteq> DecideBadBucket"
  shows "res_Reason (decision_result f d cd gen) \<in>
     {ReasonDisabled, ReasonRuleMatch, ReasonMissingSubject, ReasonRolloutIn, ReasonRolloutOut, ReasonFallthrough}"
proof -
  have "flag_Rollout f \<noteq> None" if "d = DecideRollout on b" for on b
    using that assms(1) by (auto simp: decide_def split: if_splits option.splits)
  then show ?thesis using assms(2) by (cases d) auto
qed

locale typed_snapshots =
  fixes view :: "'s \<Rightarrow> snapshot_view" and ok :: "'s \<Rightarrow> bool" and gen :: "'s \<Rightarrow> int64"
    and flag_at :: "'s \<Rightarrow> string \<Rightarrow> Flag option"
  assumes generation_returns: "ok s \<Longrightarrow> snap_Generation (view s) = Some (gen s)"
    and lookup_returns: "ok s \<Longrightarrow> snap_Flag (view s) k =
        Some (case flag_at s k of None \<Rightarrow> (None, False) | Some f \<Rightarrow> (Some f, True))"
    and typed: "ok s \<Longrightarrow> flag_at s k = Some f \<Longrightarrow> answers_typed f"
begin

lemma serves: "ok s \<Longrightarrow> flag_at s k = Some f \<Longrightarrow> serves (view s) (gen s) k f"
  by (simp add: serves_def generation_returns lookup_returns)

text \<open>Every evaluation is one of three: no such flag, the wrong type asked for, or the flag's decision.\<close>

lemma evaluation:
  assumes "ok s" and "well_behaved ob"
  shows "fst (Evaluate (shipped sum64 ob) (Some (view s)) key c want cd) =
     (case flag_at s key of
        None \<Rightarrow> mk_result cd ReasonFlagNotFound NoBucket (gen s)
      | Some f \<Rightarrow>
          if want \<noteq> TypeUnknown \<and> want \<noteq> flag_Type f then mk_result cd ReasonTypeMismatch NoBucket (gen s)
          else decision_result f (shipped_decision sum64 f c) cd (gen s))"
proof (cases "flag_at s key")
  case None
  then show ?thesis
    by (simp add: fst_Evaluate [OF generation_returns [OF assms(1)]] eval_at_def lookup_returns [OF assms(1)]
        recovered_known)
next
  case (Some f)
  show ?thesis
  proof (cases "want \<noteq> TypeUnknown \<and> want \<noteq> flag_Type f")
    case True
    then show ?thesis using Some
      by (simp add: fst_Evaluate [OF generation_returns [OF assms(1)]] eval_at_def lookup_returns [OF assms(1)]
          recovered_known)
  next
    case False
    then have "fst (Evaluate (shipped sum64 ob) (Some (view s)) key c want cd) =
        typed_result f cd (decision_result f (shipped_decision sum64 f c) cd (gen s))"
      using Evaluate_decides [OF returning_New [OF assms(2)] serves [OF assms(1) Some]] by blast
    moreover have "\<not> (want \<noteq> TypeUnknown \<and> want \<noteq> flag_Type f)" using False .
    ultimately show ?thesis
      using Some by (simp only: typed_decision [OF typed [OF assms(1) Some]] option.case if_False)
  qed
qed

lemma never_error:
  assumes "ok s" and "well_behaved ob"
  shows "res_Reason (fst (Evaluate (shipped sum64 ob) (Some (view s)) key c want cd)) \<noteq> ReasonError"
proof (cases "flag_at s key")
  case (Some f)
  then show ?thesis
    using decision_reason [OF refl shipped_decision_bucket, of f sum64 c cd "gen s"]
    by (auto simp: evaluation [OF assms])
qed (simp add: evaluation [OF assms])

end

end
