(* ===== verification/Config_Serve.thy ===== *)
theory Config_Serve
  imports Config_Publish Core_Contract
begin

text \<open>
  The properties of the configuration store: what readers see after any sequence of writes, what
  a rejected write leaves alone, which flag an environment serves and why, who is woken, and
  how the store and the evaluator fit together.
\<close>

section \<open>Examples\<close>

definition demo_hash :: hashing where
  "demo_hash = (id, \<lambda>_. [])"

definition demo_base :: "int32 \<Rightarrow> BaseLayer" where
  "demo_base bp = \<lparr>bl_SchemaVersion = 1, bl_Flags = [plain_base ''checkout'' (Some (plain_rollout bp))]\<rparr>"

definition demo_start :: Store where
  "demo_start = Store_New (map WithEnvironments [[''prod'']])"

definition demo_store :: Store where
  "demo_store = snd (store_Set demo_hash 0 (LBase (Some (demo_base 500))) demo_start)"

lemma demo_start_reachable: "store_reachable demo_hash demo_start"
  unfolding demo_start_def by (rule start)

lemma demo_reachable: "store_reachable demo_hash demo_store"
  unfolding demo_store_def by (rule step [OF demo_start_reachable step_Set])

lemma demo_base_ok: "\<not> HasRejections (ValidateBase (Some (demo_base 500)))"
  by code_simp

lemma demo_published: "PublishedIn (fst (store_Set demo_hash 0 (LBase (Some (demo_base 500))) demo_start)) ''prod''"
  by code_simp

section \<open>Properties\<close>

text \<open>C10. A store only ever serves valid flags. After any sequence of writes (accepted or rejected), rebuilds,
  subscriptions, cancels and receives, in any interleaving, a snapshot a reader loads is of its own
  environment, files every flag under the flag's key in key order, holds at most the permitted number, and every
  flag in it is servable: all its values have its type, its rollout is in range and its evaluation
  order is declared.\<close>

theorem store_serves_valid_flags:
  assumes "store_reachable h s" and "store_Snapshot s env = Some snap"
  shows "rs_env snap = env \<and> rs_keys snap = gm_keys (rs_flags snap) \<and> sorted_wrt (<) (rs_keys snap)
    \<and> rs_Len snap \<le> MaxFlagsPerEnv \<and> rs_generation snap = es_gen (env_state s env)
    \<and> (store_Get s k env = Some f \<longrightarrow> flag_Key f = k \<and> flag_wt f)"
proof -
  have ok: "store_ok s" by (rule reachable_store_ok [OF assms(1)])
  then have "snapshot_ok env snap \<and> rs_generation snap = es_gen (env_state s env)"
    using env_ok_state [OF ok, of env] assms(2) by (simp add: store_Snapshot_state env_ok_def)
  moreover have "store_Get s k env = rs_Flag snap k"
    using assms(2) by (simp add: store_Get_state [of _ _ _ 0] prev_flag_def store_Snapshot_state)
  ultimately show ?thesis by (auto simp: snapshot_ok_def gm_keys_sorted)
qed

text \<open>C12. Writes fail safe and stay in their lane. After a write an environment either has published, and then
  serves a snapshot one generation on, or its slot is exactly what it was, snapshot, generation and
  subscribers; an overlay or ops write touches no other environment's slot; and a rejected base publishes
  nowhere and leaves the accepted base in force.\<close>

theorem writes_fail_safe:
  assumes "store_reachable h s" and "store_Set h now layer s = (rep, s')"
  shows "(PublishedIn rep env \<longrightarrow>
            (\<exists>snap. store_Snapshot s' env = Some snap \<and> rs_generation snap = es_gen (env_state s env) + 1))
    \<and> (\<not> PublishedIn rep env \<longrightarrow> env_state s' env = env_state s env)
    \<and> (layer = LOverlay ov \<and> ol_Environment ov \<noteq> env \<or> layer = LOps ops \<and> opl_Environment ops \<noteq> env \<longrightarrow>
         env_state s' env = env_state s env \<and> \<not> PublishedIn rep env)
    \<and> (layer = LBase l \<and> HasRejections (ValidateBase l) \<longrightarrow>
         \<not> PublishedIn rep env \<and> st_base s' = st_base s)"
proof -
  note ok = reachable_store_ok [OF assms(1)]
  note eff = store_Set_effect (1,2) [OF ok, of h now layer env] store_Set_effect (3) [OF ok, of h now layer]
  have inst: "env_state (installed layer s) env = env_state s env"
    by (simp add: installed_def split: Layer.split)
  show ?thesis
    using eff inst
    by (auto simp: assms(2) built_env_def store_Snapshot_state targets_def installed_def)
qed

theorem writes_fail_safe_witness:
  "\<exists>snap. store_Snapshot demo_store ''prod'' = Some snap \<and> rs_generation snap = 1"
proof -
  have "es_gen (env_state demo_start ''prod'') = 0" by code_simp
  then show ?thesis
    using writes_fail_safe [OF demo_start_reachable prod.collapse [symmetric],
        where layer = "LBase (Some (demo_base 500))" and now = 0 and env = "''prod''"] demo_published
    by (simp add: demo_store_def)
qed

lemma demo_snapshot: "\<exists>snap. store_Snapshot demo_store ''prod'' = Some snap"
proof -
  have "es_cur (env_state demo_store ''prod'') \<noteq> None"
    using store_Set_effect (1,2) [OF reachable_store_ok [OF demo_start_reachable],
        of demo_hash 0 "LBase (Some (demo_base 500))" "''prod''"] demo_published
    by (simp add: demo_store_def built_env_def)
  then show ?thesis by (simp add: store_Snapshot_state)
qed

theorem store_serves_valid_flags_witness:
  "\<exists>snap. store_Snapshot demo_store ''prod'' = Some snap \<and> sorted_wrt (<) (rs_keys snap)
     \<and> rs_env snap = ''prod''"
proof -
  obtain snap where "store_Snapshot demo_store ''prod'' = Some snap" using demo_snapshot by blast
  with store_serves_valid_flags [OF demo_reachable this] show ?thesis by blast
qed

text \<open>The inputs of a build of one environment: its overlay's last entry and last live override per key.\<close>

definition overlay_entry :: "Store \<Rightarrow> string \<Rightarrow> string \<Rightarrow> OverlayFlag option" where
  "overlay_entry s env k = gm_get (overlay_by_key (gm_get (st_overlays s) env)) k"

definition live_override :: "Store \<Rightarrow> string \<Rightarrow> time \<Rightarrow> string \<Rightarrow> OpsOverride option" where
  "live_override s env now k = gm_get (ops_by_key (gm_get (st_ops s) env) now) k"

text \<open>The rejections that quarantine a base flag in an environment, before and after the merge.\<close>

definition flag_rejections :: "Store \<Rightarrow> string \<Rightarrow> time \<Rightarrow> BaseFlag \<Rightarrow> Findings" where
  "flag_rejections s env now bf =
     (let pre = Rejections (ForFlag (ValidateOverlay (gm_get (st_overlays s) env)) (bf_Key bf)) @
            Rejections (ForFlag (ValidateOps (gm_get (st_ops s) env) now) (bf_Key bf));
          ov = overlay_entry s env (bf_Key bf); ops = live_override s env now (bf_Key bf);
          (flag, prov) = mergeFlag bf ov ops
      in if pre \<noteq> [] then pre else Rejections (validateResolved env flag bf ov ops prov))"

lemma flag_outcome_rejections:
  "flag_outcome (build_inputs env now s) bf =
     (if flag_rejections s env now bf = []
      then Some (fst (mergeFlag bf (overlay_entry s env (bf_Key bf)) (live_override s env now (bf_Key bf))))
      else None)"
  by (auto simp: flag_outcome_def flag_rejections_def Let_def build_inputs_def pre_findings_def
      overlay_entry_def live_override_def Rejections_validateResolved Rejections_Nil split: prod.split)

lemma store_build_write: "store_build h now (Some layer) s = store_Set h now layer s"
  by (simp add: store_build_def)

lemma build_lookup:
  fixes h :: hashing and now :: time and w :: "Layer option" and s :: Store
  assumes "store_ok s" and "PublishedIn (fst (store_build h now w s)) env"
  defines "t \<equiv> built_from w s" and "s' \<equiv> snd (store_build h now w s)"
  shows "\<exists>base. accepted env now t base \<and> st_base s' = Some base
    \<and> env_state s' env = published_env h (env_state s env) (next_snapshot env now t base)
    \<and> distinct (map bf_Key (bl_Flags base))
    \<and> (\<forall>k. rs_Flag (next_snapshot env now t base) k = resolved_flag (build_inputs env now t) (bl_Flags base) k)"
proof -
  note eff = store_build_effect [OF assms(1), where h = h and now = now and w = w]
  have pub: "publishes env now t" using eff(2) assms(2) by (simp add: t_def)
  then obtain base where a: "accepted env now t base" by (auto simp: publishes_def)
  then have b: "st_base t = Some base" by (simp add: accepted_def)
  have ok: "store_ok t" unfolding t_def by (rule store_ok_built_from [OF assms(1,2)])
  have inst: "env_state t env = env_state s env" by (simp add: t_def built_from_def split: option.split)
  have "env_state s' env = built_env h env now t" using eff(1,2) assms(2) by (simp add: s'_def t_def)
  then have "env_state s' env = published_env h (env_state s env) (next_snapshot env now t base)"
    using pub by (simp add: built_env_def b inst)
  moreover have "st_base s' = Some base" using eff(3) b by (simp add: s'_def t_def)
  ultimately show ?thesis
    using a base_distinct [OF ok b] next_snapshot_flag [OF ok b] by blast
qed

lemma find_distinct:
  "distinct (map f xs) \<Longrightarrow> x \<in> set xs \<Longrightarrow> find (\<lambda>y. f y = f x) xs = Some x"
  by (induction xs) (auto simp: image_iff)

lemma build_content_served:
  fixes h :: hashing and now :: time and w :: "Layer option" and s :: Store
  assumes "store_reachable h s" and "store_build h now w s = (rep, s')" and "PublishedIn rep env"
    and "st_base s' = Some base"
  defines "t \<equiv> built_from w s"
  shows "(bf \<in> set (bl_Flags base) \<longrightarrow>
      store_Get s' (bf_Key bf) env =
        (if flag_rejections t env now bf = []
         then Some (fst (mergeFlag bf (overlay_entry t env (bf_Key bf)) (live_override t env now (bf_Key bf))))
         else store_Get s (bf_Key bf) env))
    \<and> (k \<notin> bf_Key ` set (bl_Flags base) \<longrightarrow>
      store_Get s' k env =
        (if overlay_entry t env k \<noteq> None \<or> live_override t env now k \<noteq> None then store_Get s k env else None))
    \<and> (case store_Snapshot s' env of
         None \<Rightarrow> False
       | Some snap \<Rightarrow> length (QuarantinedKeys snap) \<le> QuarantineBudget (length (bl_Flags base)))"
proof -
  have ok: "store_ok s" by (rule reachable_store_ok [OF assms(1)])
  have "PublishedIn (fst (store_build h now w s)) env" using assms(2,3) by simp
  from build_lookup [OF ok this]
  have a: "accepted env now t base"
    and st: "env_state s' env = published_env h (env_state s env) (next_snapshot env now t base)"
    and d: "distinct (map bf_Key (bl_Flags base))"
    and look: "\<And>k. rs_Flag (next_snapshot env now t base) k = resolved_flag (build_inputs env now t) (bl_Flags base) k"
    using assms(2,4) by (auto simp: t_def)
  have inst: "env_state t env = env_state s env" by (simp add: t_def built_from_def split: option.split)
  have get: "store_Get s' k env = resolved_flag (build_inputs env now t) (bl_Flags base) k" for k
    using look [of k] st by (simp add: store_Get_state [of _ _ _ now] prev_flag_def)
  have old: "prev_flag (build_inputs env now t) k = store_Get s k env" for k
    using inst by (simp add: store_Get_state [of _ _ _ now] prev_flag_def)
  have found: "find (\<lambda>x. bf_Key x = bf_Key bf) (bl_Flags base) = Some bf" if "bf \<in> set (bl_Flags base)"
    using find_distinct [OF d that] .
  have none: "find (\<lambda>x. bf_Key x = k) (bl_Flags base) = None" if "k \<notin> bf_Key ` set (bl_Flags base)"
    using that by (auto simp: find_None_iff)
  have orphan: "k \<in> orphan_keys (build_inputs env now t) (bl_Flags base) \<longleftrightarrow>
      overlay_entry t env k \<noteq> None \<or> live_override t env now k \<noteq> None" if "k \<notin> bf_Key ` set (bl_Flags base)"
    using that by (simp add: orphan_keys_def overlay_entry_def live_override_def gm_has_def build_inputs_def Let_def)
  have snap: "store_Snapshot s' env = Some (next_snapshot env now t base)"
    using st by (simp add: store_Snapshot_state)
  show ?thesis
    using a found none orphan
    by (auto simp: get old resolved_flag_def flag_outcome_rejections snap accepted_def split: option.split)
qed

lemmas published_content_lemma =
  build_content_served [where w = "Some layer" for layer, unfolded store_build_def built_from_def option.case]

text \<open>C11. What a published environment serves. For a flag of the accepted base the new snapshot serves the merge of the base
  record with the environment's overlay entry and live override when neither pass of the validator rejects it;
  otherwise the flag is quarantined and keeps exactly what the environment served before (nothing, if nothing);
  a key that only an overlay or a live override names keeps what was served before, and any other
  key is gone. The quarantine stays within the budget.\<close>

theorem published_content:
  assumes "store_reachable h s" and "store_Set h now layer s = (rep, s')" and "PublishedIn rep env"
    and "st_base s' = Some base"
  defines "t \<equiv> installed layer s"
  shows "(bf \<in> set (bl_Flags base) \<longrightarrow>
      store_Get s' (bf_Key bf) env =
        (if flag_rejections t env now bf = []
         then Some (fst (mergeFlag bf (overlay_entry t env (bf_Key bf)) (live_override t env now (bf_Key bf))))
         else store_Get s (bf_Key bf) env))
    \<and> (k \<notin> bf_Key ` set (bl_Flags base) \<longrightarrow>
      store_Get s' k env =
        (if overlay_entry t env k \<noteq> None \<or> live_override t env now k \<noteq> None then store_Get s k env else None))
    \<and> (case store_Snapshot s' env of
         None \<Rightarrow> False
       | Some snap \<Rightarrow> length (QuarantinedKeys snap) \<le> QuarantineBudget (length (bl_Flags base)))"
  unfolding t_def by (rule published_content_lemma [OF assms(1-4)])

lemma demo_set: "store_Set demo_hash 0 (LBase (Some (demo_base 500))) demo_start =
    (fst (store_Set demo_hash 0 (LBase (Some (demo_base 500))) demo_start), demo_store)"
  by (simp add: demo_store_def)

lemma demo_store_base: "st_base demo_store = Some (demo_base 500)"
  using store_Set_effect(3) [OF reachable_store_ok [OF demo_start_reachable],
      of demo_hash 0 "LBase (Some (demo_base 500))"] demo_base_ok
  by (simp add: demo_store_def installed_def)

lemma demo_no_rejections:
  "flag_rejections (installed (LBase (Some (demo_base 500))) demo_start) ''prod'' 0
     (plain_base ''checkout'' (Some (plain_rollout 500))) = []"
  by code_simp

theorem published_content_witness:
  "store_Get demo_store ''checkout'' ''prod'' \<noteq> None"
  using published_content [OF demo_start_reachable demo_set demo_published demo_store_base,
      of "plain_base ''checkout'' (Some (plain_rollout 500))" "''other''"]
  by (simp add: demo_no_rejections) (simp add: demo_base_def plain_base_def)

section \<open>The store and the evaluator\<close>

lemma flag_wt_answers_typed: "flag_wt f \<Longrightarrow> answers_typed f"
  by (auto simp: flag_wt_def answers_typed_def rollout_wt_def split: option.splits)

text \<open>A snapshot of a store meets the evaluator's contract.\<close>

interpretation published: typed_snapshots view_of "snapshot_ok env" rs_generation rs_Flag for env
  by unfold_locales (auto simp: view_of_def snapshot_ok_def flag_wt_answers_typed)

text \<open>C14. The store and the evaluator together never err. Whatever was written before, the shipped evaluator on
  the snapshot an environment serves answers \<^verbatim>\<open>ERROR\<close> for no key, context, requested type or hash
  function; \<^verbatim>\<open>FLAG_NOT_FOUND\<close> exactly for keys the store does not serve; \<^verbatim>\<open>TYPE_MISMATCH\<close> exactly when the
  caller asserts another type than the flag's; otherwise what the flag decides, and the generation reported is the
  snapshot's.\<close>

theorem served_evaluation:
  fixes sum64 key c want cd
  assumes "store_reachable h s" and "store_Snapshot s env = Some snap" and "well_behaved ob"
  defines "r \<equiv> fst (Evaluate (shipped sum64 ob) (Some (view_of snap)) key c want cd)"
  shows "res_Reason r \<noteq> ReasonError \<and> res_Generation r = rs_generation snap
    \<and> (res_Reason r = ReasonFlagNotFound \<longleftrightarrow> store_Get s key env = None)
    \<and> (res_Reason r = ReasonTypeMismatch \<longleftrightarrow>
         (\<exists>f. store_Get s key env = Some f \<and> want \<noteq> TypeUnknown \<and> want \<noteq> flag_Type f))
    \<and> (\<forall>f. store_Get s key env = Some f \<and> (want = TypeUnknown \<or> want = flag_Type f) \<longrightarrow>
         r = decision_result f (shipped_decision sum64 f c) cd (rs_generation snap))"
proof -
  have ok: "snapshot_ok env snap"
    using env_ok_state [OF reachable_store_ok [OF assms(1)], of env] assms(2)
    by (simp add: store_Snapshot_state env_ok_def)
  have get: "store_Get s key env = rs_Flag snap key"
    using assms(2) by (simp add: store_Get_state [of _ _ _ 0] prev_flag_def store_Snapshot_state)
  note r = published.evaluation [OF ok assms(3), of sum64 key c want cd, folded r_def]
  have gen: "res_Generation (decision_result f d cd (rs_generation snap)) = rs_generation snap" for f d
    by (cases d) (simp_all split: option.split)
  show ?thesis
  proof (cases "rs_Flag snap key")
    case None
    then show ?thesis by (simp add: r get)
  next
    case (Some f)
    have "res_Reason (decision_result f (shipped_decision sum64 f c) cd (rs_generation snap))
        \<notin> {ReasonError, ReasonFlagNotFound, ReasonTypeMismatch}"
      using decision_reason [OF refl shipped_decision_bucket, of f sum64 c cd "rs_generation snap"] by auto
    then show ?thesis
      using Some by (cases "want \<noteq> TypeUnknown \<and> want \<noteq> flag_Type f") (auto simp: r get gen)
  qed
qed

theorem served_evaluation_witness:
  "\<exists>snap. store_Snapshot demo_store ''prod'' = Some snap
     \<and> res_Reason (fst (Evaluate (shipped (\<lambda>_. 0) None) (Some (view_of snap)) ''checkout'' (user_ctx ''u'')
         TypeBool (VBool False))) \<noteq> ReasonError"
proof -
  obtain snap where "store_Snapshot demo_store ''prod'' = Some snap" using demo_snapshot by blast
  with served_evaluation [OF demo_reachable this, of None] show ?thesis by (auto simp: well_behaved_def)
qed

section \<open>Waking the subscribers\<close>

lemma published_env_subs:
  assumes "env_ok env e" and "gm_get (es_subs e) i = Some buf"
  shows "gm_get (es_subs (published_env h e snap)) i =
     Some (if content_unchanged h (es_cur e) snap then buf else [snap])"
proof -
  have "length buf \<le> 1" using assms by (auto simp: env_ok_def)
  then show ?thesis using assms(2) by (simp add: published_env_def Let_def notify_subs offer_ok)
qed

lemma flagKeyRE_no_NUL: "flagKeyRE k \<Longrightarrow> CHR 0x00 \<notin> set k"
  by (cases k) (auto simp: flagKeyRE_def key_char_def list_all_iff is_digit_def is_lower_def)

lemma sameKeys_iff: "sameKeys a b \<longleftrightarrow> a = b"
  unfolding sameKeys_def by (induction a b rule: list_induct2') auto

lemma content_unchanged_same:
  assumes "snapshot_ok env a" and "snapshot_ok env b" and "same_content a b"
  shows "content_unchanged h (Some a) b"
proof -
  have "rs_keys a = rs_keys b" "rs_Flag a = rs_Flag b"
    using assms by (simp_all add: same_content_def snapshot_ok_def rs_Flag_def fun_eq_iff)
  then show ?thesis
    using assms(3) by (simp add: same_content_def content_unchanged_def Fingerprint_def QuarantinedKeys_def
        sameKeys_iff)
qed

lemma content_unchanged_told_apart:
  assumes a: "snapshot_ok env a" and b: "snapshot_ok env b" and told: "told_apart h a b"
    and same: "content_unchanged h (Some a) b"
  shows "same_content a b"
proof -
  have "rs_flags a = rs_flags b"
  proof (rule Fingerprint_told_apart [OF _ told])
    show "Fingerprint (fst h) (snd h) a = Fingerprint (fst h) (snd h) b"
      using same by (simp add: content_unchanged_def)
    show "CHR 0x00 \<notin> set k" if "k \<in> set (rs_keys a) \<union> set (rs_keys b)" for k
      using that a b by (auto simp: snapshot_ok_def list_all_iff intro!: flagKeyRE_no_NUL)
  qed (use a b in \<open>auto simp: snapshot_ok_def\<close>)
  moreover have keys: "gm_keys (rs_quarantined a) = gm_keys (rs_quarantined b)"
    using same by (simp add: content_unchanged_def sameKeys_iff QuarantinedKeys_def)
  have "rs_quarantined a = rs_quarantined b"
  proof (rule gm_eqI)
    show "gm_get (rs_quarantined a) k = gm_get (rs_quarantined b) k" for k
      using gm_keys_iff [of "rs_quarantined a"] gm_keys_iff [of "rs_quarantined b"] keys
      by (metis (mono_tags, lifting) mem_Collect_eq not_None_eq old.unit.exhaust)
  qed (use a b in \<open>auto simp: snapshot_ok_def\<close>)
  ultimately show ?thesis by (simp add: same_content_def)
qed

text \<open>C13. Subscribers converge and are not churned. When a write publishes, a live subscriber of the environment
  is woken, its one-slot channel then holding exactly the new snapshot however far behind it was, if this is the
  first snapshot, or if any served flag or the set of quarantined flags differs from what was served before; and
  when neither differs its channel is not touched, whatever else changed (generation, build time, provenance,
  warnings). That a difference is seen rests on the digest and on the text of a document telling these two
  snapshots apart, and on the keys of served flags, which hold no NUL byte.\<close>

theorem subscribers_woken:
  assumes "store_reachable h s" and "store_Set h now layer s = (rep, s')" and "PublishedIn rep env"
    and "gm_get (es_subs (env_state s env)) i = Some buf"
    and "\<And>old snap. store_Snapshot s env = Some old \<Longrightarrow> store_Snapshot s' env = Some snap \<Longrightarrow>
      \<not> same_content old snap \<Longrightarrow> told_apart h old snap"
  shows "\<exists>snap. store_Snapshot s' env = Some snap
    \<and> gm_get (es_subs (env_state s' env)) i =
        Some (case store_Snapshot s env of
                None \<Rightarrow> [snap]
              | Some old \<Rightarrow> if same_content old snap then buf else [snap])"
proof -
  have ok: "store_ok s" by (rule reachable_store_ok [OF assms(1)])
  have "PublishedIn (fst (store_Set h now layer s)) env" using assms(2,3) by simp
  from build_lookup [OF ok this [folded store_build_write]] obtain snap
    where st: "env_state s' env = published_env h (env_state s env) snap"
    using assms(2) by (auto simp: store_build_write)
  have snap: "store_Snapshot s' env = Some snap" by (simp add: store_Snapshot_state st)
  have new: "snapshot_ok env snap"
    using env_ok_state [OF store_ok_Set [OF ok, of h now layer], of env] st assms(2) by (simp add: env_ok_def)
  have "content_unchanged h (Some old) snap \<longleftrightarrow> same_content old snap" if old: "store_Snapshot s env = Some old" for old
  proof -
    have "snapshot_ok env old"
      using env_ok_state [OF ok, of env] old by (simp add: store_Snapshot_state env_ok_def)
    then show ?thesis
      using content_unchanged_same [OF _ new] content_unchanged_told_apart [OF _ new] assms(5) [OF old snap] by blast
  qed
  then show ?thesis
    using published_env_subs [OF env_ok_state [OF ok] assms(4), of h snap] snap
    by (auto simp: st store_Snapshot_state content_unchanged_def [of _ None] split: option.splits)
qed

text \<open>A rendering of documents for the example, and a subscriber that has been behind since the first publish.\<close>

fun plain_text :: "json \<Rightarrow> string" where
  "plain_text JNull = ''null''"
| "plain_text (JBool b) = (if b then ''true'' else ''false'')"
| "plain_text (JNum t) = t"
| "plain_text (JStr s) = ''~'' @ s @ ''~''"
| "plain_text (JArr js) = ''['' @ concat (map (\<lambda>j. plain_text j @ '','') js) @ '']''"
| "plain_text (JObj ps) = ''{'' @ concat (map (\<lambda>p. fst p @ '':'' @ plain_text (snd p) @ '','') ps) @ ''}''"

definition plain_hash :: hashing where
  "plain_hash = (id, plain_text)"

definition demo_subscribed :: Store where
  "demo_subscribed = snd (store_Set plain_hash 0 (LBase (Some (demo_base 500))) (snd (store_Subscribe ''prod'' demo_start)))"

lemma demo_subscribed_reachable: "store_reachable plain_hash demo_subscribed"
proof -
  have "store_reachable plain_hash demo_start" unfolding demo_start_def by (rule start)
  then have "store_reachable plain_hash (snd (store_Subscribe ''prod'' demo_start))" by (rule step [OF _ step_Subscribe])
  then show ?thesis unfolding demo_subscribed_def by (rule step [OF _ step_Set])
qed

theorem subscribers_woken_witness:
  "\<exists>old snap. store_Snapshot demo_subscribed ''prod'' = Some old
     \<and> gm_get (es_subs (env_state demo_subscribed ''prod'')) 0 = Some [old] \<and> old \<noteq> snap
     \<and> gm_get (es_subs (env_state (snd (store_Set plain_hash 1 (LBase (Some (demo_base 600))) demo_subscribed)) ''prod'')) 0
         = Some [snap]"
proof -
  let ?s' = "snd (store_Set plain_hash 1 (LBase (Some (demo_base 600))) demo_subscribed)"
  have pub: "PublishedIn (fst (store_Set plain_hash 1 (LBase (Some (demo_base 600))) demo_subscribed)) ''prod''"
    by code_simp
  have two: "case (store_Snapshot demo_subscribed ''prod'', store_Snapshot ?s' ''prod'') of
      (Some old, Some snap) \<Rightarrow> told_apart plain_hash old snap \<and> \<not> same_content old snap
    | _ \<Rightarrow> False" by code_simp
  have "(case gm_get (es_subs (env_state demo_subscribed ''prod'')) 0 of
      Some [old] \<Rightarrow> store_Snapshot demo_subscribed ''prod'' = Some old | _ \<Rightarrow> False)" by code_simp
  then obtain old where old: "gm_get (es_subs (env_state demo_subscribed ''prod'')) 0 = Some [old]"
      "store_Snapshot demo_subscribed ''prod'' = Some old"
    by (auto split: option.splits list.splits)
  from subscribers_woken [OF demo_subscribed_reachable prod.collapse [symmetric] pub old(1)] two old(2)
  obtain snap where "gm_get (es_subs (env_state ?s' ''prod'')) 0 = Some [snap]" "\<not> same_content old snap"
    by (auto split: option.splits)
  moreover then have "old \<noteq> snap" by (auto simp: same_content_def)
  ultimately show ?thesis using old by blast
qed

end
