(* ===== verification/Client_Eval.thy ===== *)
theory Client_Eval
  imports Client_Updater Config_Serve
begin

text \<open>
  The read path of the client, the second half of \<^verbatim>\<open>pkg/client/client.go\<close>: one evaluation against the loaded entry, its panic
  boundary, and the batch. The evaluator and the metrics hook are caller-supplied and may panic: the
  evaluator returns an option, \<^const>\<open>None\<close> being a panic, and the hook is the predicate of the calls on which it
  panics. The signals list the calls made to the hooks; a log line is a signal with its sample size.
\<close>

section \<open>The evaluating client\<close>

datatype read_signal = ReadEvaluation string Reason | ReadUninitialized string
  | ReadFallbackLogged string Reason int64 | ReadPanicLogged string int64

type_synonym client_evaluator = "snapshot_view \<Rightarrow> string \<Rightarrow> EvalContext \<Rightarrow> ValueType \<Rightarrow> Value \<Rightarrow> Result option"

record reader =
  rd_ev :: client_evaluator
  rd_emitEval :: bool
  rd_hookPanics :: "string \<Rightarrow> Reason \<Rightarrow> bool"
  rd_logger :: bool

text \<open>What a read changes: the limiter, and the hooks called.\<close>

type_synonym read_state = "logLimiter \<times> read_signal list"

definition read_emit :: "read_signal \<Rightarrow> read_state \<Rightarrow> read_state" where
  "read_emit sig st = (fst st, snd st @ [sig])"

definition read_allow :: "string \<Rightarrow> Reason \<Rightarrow> int64 \<Rightarrow> (int64 \<Rightarrow> read_signal) \<Rightarrow> bool \<Rightarrow> read_state \<Rightarrow> read_state" where
  "read_allow flag reason now line logger st =
     (case allow flag reason now (fst st) of
        ((n, ok), l) \<Rightarrow>
          let st = (l, snd st) in if ok \<and> logger then read_emit (line n) st else st)"

definition default_result :: "Value \<Rightarrow> Result" where
  "default_result def = mk_result def ReasonError NoBucket 0"

text \<open>\<^const>\<open>None\<close> is a panic of the evaluator.\<close>

definition client_evaluate :: "reader \<Rightarrow> entry option \<Rightarrow> string \<Rightarrow> Value \<Rightarrow> ValueType \<Rightarrow> EvalContext \<Rightarrow> read_state \<Rightarrow>
    Result option \<times> read_state" where
  "client_evaluate rd e flag def want ec st =
     (case e of
        None \<Rightarrow> (Some (default_result def), read_emit (ReadUninitialized flag) st)
      | Some e \<Rightarrow>
          (case rd_ev rd (snapshot_of (en_snap e)) flag ec want def of
             None \<Rightarrow> (None, st)
           | Some res \<Rightarrow>
               (let res = (if res_Generation res = 0 then res\<lparr>res_Generation := en_gen e\<rparr> else res)
                in (Some (if res_Reason res = ReasonUnknown
                          then mk_result def ReasonError (res_Bucket res) (res_Generation res)
                          else res), st))))"

text \<open>The signals of an evaluation, and whether the hook panicked.\<close>

definition client_record :: "reader \<Rightarrow> int64 \<Rightarrow> string \<Rightarrow> Result \<Rightarrow> read_state \<Rightarrow> bool \<times> read_state" where
  "client_record rd now flag res st =
     (let st = (if rd_emitEval rd then read_emit (ReadEvaluation flag (res_Reason res)) st else st)
      in if rd_emitEval rd \<and> rd_hookPanics rd flag (res_Reason res) then (True, st)
         else if \<not> rd_logger rd \<or> \<not> Reason_IsFallback (res_Reason res) then (False, st)
         else (False, read_allow flag (res_Reason res) now
                 (ReadFallbackLogged flag (res_Reason res)) (rd_logger rd) st))"

text \<open>The hook is behind its guard here, so its panic goes no further.\<close>

definition onPanic :: "reader \<Rightarrow> int64 \<Rightarrow> string \<Rightarrow> read_state \<Rightarrow> read_state" where
  "onPanic rd now flag st =
     read_allow flag ReasonError now (ReadPanicLogged flag) (rd_logger rd)
       (read_emit (ReadEvaluation flag ReasonError) st)"

text \<open>One guarded evaluation: the body of \<^verbatim>\<open>detail\<close> and of \<^verbatim>\<open>evalGuarded\<close>, whose deferred functions are the same.\<close>

definition guarded :: "reader \<Rightarrow> int64 \<Rightarrow> entry option \<Rightarrow> string \<Rightarrow> Value \<Rightarrow> ValueType \<Rightarrow> EvalContext \<Rightarrow> read_state \<Rightarrow>
    Result \<times> read_state" where
  "guarded rd now e flag def want ec st =
     (case client_evaluate rd e flag def want ec st of
        (None, st) \<Rightarrow> (default_result def, onPanic rd now flag st)
      | (Some res, st) \<Rightarrow>
          (case client_record rd now flag res st of
             (True, st) \<Rightarrow> (if res_Reason res = ReasonUnknown then default_result def else res, onPanic rd now flag st)
           | (False, st) \<Rightarrow> (res, st)))"

definition detail :: "reader \<Rightarrow> int64 \<Rightarrow> cache \<Rightarrow> string \<Rightarrow> Value \<Rightarrow> ValueType \<Rightarrow> EvalContext \<Rightarrow> read_state \<Rightarrow>
    Result \<times> read_state" where
  "detail rd now ca flag def want ec st = guarded rd now (cache_load ca) flag def want ec st"

definition BoolDetail :: "reader \<Rightarrow> int64 \<Rightarrow> cache \<Rightarrow> string \<Rightarrow> bool \<Rightarrow> EvalContext \<Rightarrow> read_state \<Rightarrow> Result \<times> read_state" where
  "BoolDetail rd now ca flag def ec st = detail rd now ca flag (VBool def) TypeBool ec st"

definition StringDetail :: "reader \<Rightarrow> int64 \<Rightarrow> cache \<Rightarrow> string \<Rightarrow> string \<Rightarrow> EvalContext \<Rightarrow> read_state \<Rightarrow> Result \<times> read_state" where
  "StringDetail rd now ca flag def ec st = detail rd now ca flag (VString def) TypeString ec st"

definition IntDetail :: "reader \<Rightarrow> int64 \<Rightarrow> cache \<Rightarrow> string \<Rightarrow> int64 \<Rightarrow> EvalContext \<Rightarrow> read_state \<Rightarrow> Result \<times> read_state" where
  "IntDetail rd now ca flag def ec st = detail rd now ca flag (VInt def) TypeInt ec st"

definition BoolValue :: "reader \<Rightarrow> int64 \<Rightarrow> cache \<Rightarrow> string \<Rightarrow> bool \<Rightarrow> EvalContext \<Rightarrow> read_state \<Rightarrow> bool \<times> read_state" where
  "BoolValue rd now ca flag def ec st =
     (case BoolDetail rd now ca flag def ec st of
        (r, st) \<Rightarrow> (case AsBool (res_Value r) of (v, ok) \<Rightarrow> if ok then v else def, st))"

definition StringValue :: "reader \<Rightarrow> int64 \<Rightarrow> cache \<Rightarrow> string \<Rightarrow> string \<Rightarrow> EvalContext \<Rightarrow> read_state \<Rightarrow> string \<times> read_state" where
  "StringValue rd now ca flag def ec st =
     (case StringDetail rd now ca flag def ec st of
        (r, st) \<Rightarrow> (case AsString (res_Value r) of (v, ok) \<Rightarrow> if ok then v else def, st))"

definition IntValue :: "reader \<Rightarrow> int64 \<Rightarrow> cache \<Rightarrow> string \<Rightarrow> int64 \<Rightarrow> EvalContext \<Rightarrow> read_state \<Rightarrow> int64 \<times> read_state" where
  "IntValue rd now ca flag def ec st =
     (case IntDetail rd now ca flag def ec st of
        (r, st) \<Rightarrow> (case AsInt (res_Value r) of (v, ok) \<Rightarrow> if ok then v else def, st))"

record Request =
  rq_Flag :: string
  rq_Default :: Value
  rq_EvalContext :: EvalContext

definition evalGuarded :: "reader \<Rightarrow> int64 \<Rightarrow> entry option \<Rightarrow> Request \<Rightarrow> read_state \<Rightarrow> Result \<times> read_state" where
  "evalGuarded rd now e req st =
     guarded rd now e (rq_Flag req) (rq_Default req) (Value_Type (rq_Default req)) (rq_EvalContext req) st"

text \<open>
  The cache under a running updater: the cache as the successive atomic loads of one call find it, an update or a
  restore being free to land between any two. A load gives the entry it finds, and is counted.
\<close>

type_synonym shared_cache = "nat \<Rightarrow> cache"

definition shared_load :: "shared_cache \<Rightarrow> nat \<Rightarrow> entry option \<times> nat" where
  "shared_load ca n = (cache_load (ca n), n + 1)"

text \<open>
  The batch: the results are filled with the defaults, the entry is loaded once, and each element is then
  replaced. The slice that is reused or allocated only decides where the results are stored.
\<close>

fun batch_loop :: "reader \<Rightarrow> int64 \<Rightarrow> entry option \<Rightarrow> Request list \<Rightarrow> nat \<Rightarrow> Result list \<Rightarrow> read_state \<Rightarrow>
    Result list \<times> read_state" where
  "batch_loop rd now e [] i out st = (out, st)"
| "batch_loop rd now e (req # reqs) i out st =
     (case evalGuarded rd now e req st of (r, st) \<Rightarrow> batch_loop rd now e reqs (i + 1) (out[i := r]) st)"

definition BatchAppend :: "reader \<Rightarrow> int64 \<Rightarrow> shared_cache \<Rightarrow> Request list \<Rightarrow> read_state \<times> nat \<Rightarrow>
    Result list \<times> (read_state \<times> nat)" where
  "BatchAppend rd now ca reqs st =
     (let out = map (\<lambda>r. default_result (rq_Default r)) reqs;
          (e, n) = shared_load ca (snd st);
          (out, st) = batch_loop rd now e reqs 0 out (fst st)
      in (out, (st, n)))"

definition Batch :: "reader \<Rightarrow> int64 \<Rightarrow> shared_cache \<Rightarrow> Request list \<Rightarrow> read_state \<times> nat \<Rightarrow>
    Result list \<times> (read_state \<times> nat)" where
  "Batch rd now ca reqs st = BatchAppend rd now ca reqs st"

section \<open>What a read answers\<close>

text \<open>The answer as a function of the entry and the evaluator alone.\<close>

definition answer :: "client_evaluator \<Rightarrow> entry option \<Rightarrow> string \<Rightarrow> Value \<Rightarrow> ValueType \<Rightarrow> EvalContext \<Rightarrow> Result" where
  "answer ev e flag def want ec =
     (case e of
        None \<Rightarrow> default_result def
      | Some e \<Rightarrow>
          (case ev (snapshot_of (en_snap e)) flag ec want def of
             None \<Rightarrow> default_result def
           | Some r \<Rightarrow>
               (let g = (if res_Generation r = 0 then en_gen e else res_Generation r)
                in if res_Reason r = ReasonUnknown then mk_result def ReasonError (res_Bucket r) g
                   else r\<lparr>res_Generation := g\<rparr>)))"

lemma default_result_sel [simp]:
  "res_Reason (default_result d) = ReasonError" "res_Value (default_result d) = d"
  by (simp_all add: default_result_def)

lemma fst_client_evaluate:
  "fst (client_evaluate rd e flag def want ec st) = None \<Longrightarrow> answer (rd_ev rd) e flag def want ec = default_result def"
  "fst (client_evaluate rd e flag def want ec st) = Some r \<Longrightarrow>
     answer (rd_ev rd) e flag def want ec = r \<and> res_Reason r \<noteq> ReasonUnknown"
  by (auto simp: client_evaluate_def answer_def Let_def split: option.splits if_splits)

lemma fst_guarded: "fst (guarded rd now e flag def want ec st) = answer (rd_ev rd) e flag def want ec"
proof -
  obtain out st' where p: "client_evaluate rd e flag def want ec st = (out, st')" by (rule prod.exhaust)
  show ?thesis
  proof (cases out)
    case None
    then show ?thesis using p fst_client_evaluate(1) [of rd e flag def want ec st] by (simp add: guarded_def)
  next
    case (Some r)
    then have "answer (rd_ev rd) e flag def want ec = r \<and> res_Reason r \<noteq> ReasonUnknown"
      using p fst_client_evaluate(2) [of rd e flag def want ec st] by simp
    then show ?thesis using p Some by (auto simp: guarded_def split: prod.split bool.split)
  qed
qed

lemma answer_known: "res_Reason (answer ev e flag def want ec) \<noteq> ReasonUnknown"
  by (auto simp: answer_def Let_def split: option.split)

lemma batch_loop_results:
  "length rest = length reqs \<Longrightarrow>
     fst (batch_loop rd now e reqs (length pre) (pre @ rest) st) =
       pre @ map (\<lambda>r. answer (rd_ev rd) e (rq_Flag r) (rq_Default r) (Value_Type (rq_Default r)) (rq_EvalContext r)) reqs"
proof (induction reqs arbitrary: pre rest st)
  case (Cons req reqs)
  then obtain x rest' where rest: "rest = x # rest'" by (cases rest) auto
  obtain r st' where g: "evalGuarded rd now e req st = (r, st')" by (rule prod.exhaust)
  have r: "r = answer (rd_ev rd) e (rq_Flag req) (rq_Default req) (Value_Type (rq_Default req)) (rq_EvalContext req)"
    using arg_cong [OF g, of fst] by (simp add: evalGuarded_def fst_guarded)
  have "(pre @ rest)[length pre := r] = (pre @ [r]) @ rest'" by (simp add: rest)
  then show ?case using Cons.IH [of rest' "pre @ [r]" st'] Cons.prems g by (simp add: rest r)
qed simp

text \<open>C20. Nothing around an evaluation can change its answer, and a batch is one snapshot's. Whatever evaluator is
  installed, panicking or not, whatever the metrics hook does, panicking or not, with or without a logger and in any
  state of the limiter, a read returns what the entry and the evaluator determine: the caller's default with
  \<^verbatim>\<open>ERROR\<close> before there is config and after a panic of the evaluator, otherwise the evaluator's result with a
  generation stamped where it has none and an \<^verbatim>\<open>ERROR\<close> default where it has no reason. And while the updater swaps
  the cache at will under it, a batch loads the pointer exactly once and is, in order and in number, the reads of
  its requests against what that one load found: whatever a second load would have found does not show.\<close>

theorem reads_are_contained:
  fixes ca :: shared_cache
  shows "fst (detail rd now c0 flag def want ec st) = answer (rd_ev rd) (cache_load c0) flag def want ec
   \<and> res_Reason (fst (detail rd now c0 flag def want ec st)) \<noteq> ReasonUnknown
   \<and> snd (snd (Batch rd now ca reqs (st, n))) = Suc n
   \<and> fst (Batch rd now ca reqs (st, n)) =
       map (\<lambda>r. fst (detail rd now (ca n) (rq_Flag r) (rq_Default r) (Value_Type (rq_Default r)) (rq_EvalContext r) st)) reqs"
  using batch_loop_results [of "map (\<lambda>r. default_result (rq_Default r)) reqs" reqs rd now "cache_load (ca n)" "[]" st]
    answer_known
  by (simp add: detail_def fst_guarded Batch_def BatchAppend_def shared_load_def Let_def case_prod_beta)

section \<open>The shipped evaluator in the client\<close>

definition core_evaluator :: "evaluator \<Rightarrow> client_evaluator" where
  "core_evaluator e s key ec want def = Some (fst (Evaluate e (Some s) key ec want def))"

definition stamp :: "int64 \<Rightarrow> Result \<Rightarrow> Result" where
  "stamp g r = (if res_Generation r = 0 then r\<lparr>res_Generation := g\<rparr> else r)"

lemma stamp_sel [simp]: "res_Reason (stamp g r) = res_Reason r" "res_Value (stamp g r) = res_Value r"
  by (simp_all add: stamp_def)

lemma answer_core:
  "answer (core_evaluator e) (Some h) flag def want ec =
     stamp (en_gen h) (fst (Evaluate e (Some (snapshot_of (en_snap h))) flag ec want def))"
  using evaluate_known [of e "Some (snapshot_of (en_snap h))" flag ec want def]
  by (simp add: answer_def core_evaluator_def stamp_def Let_def)
lemma evaluate_value_type:
  assumes "want \<noteq> TypeUnknown" and "Value_Type cd = want"
  shows "Value_Type (res_Value (fst (Evaluate e s key c want cd))) = want"
  using evaluate_typed [of e s key c want cd] assms
  by (cases "Result_IsFallback (fst (Evaluate e s key c want cd))") auto

lemma Result_IsFallback_stamp [simp]: "Result_IsFallback (stamp g r) = Result_IsFallback r"
  by (simp add: Result_IsFallback_def)

lemma answer_core_typed:
  fixes ec flag h e
  assumes "want \<noteq> TypeUnknown" and "Value_Type def = want"
  defines "r \<equiv> answer (core_evaluator e) h flag def want ec"
  shows "Value_Type (res_Value r) = want \<and> (Result_IsFallback r \<longrightarrow> res_Value r = def)"
proof (cases h)
  case None
  then show ?thesis using assms(2) by (simp add: r_def answer_def)
next
  case (Some x)
  then show ?thesis
    using evaluate_value_type [OF assms(1,2), of e "Some (snapshot_of (en_snap x))" flag ec]
      evaluate_typed [of e "Some (snapshot_of (en_snap x))" flag ec want def]
    by (simp add: r_def answer_core)
qed

text \<open>C21. The typed accessors keep their promise. With the core evaluator, over any snapshot and with any strategy, hasher and
  observer, \<^verbatim>\<open>BoolDetail\<close> returns a bool, \<^verbatim>\<open>StringDetail\<close> a string and \<^verbatim>\<open>IntDetail\<close> an integer, a
  fallback being the caller's default; so \<^verbatim>\<open>BoolValue\<close> and its siblings return the value of the
  detail and their own last resort is never taken.\<close>

theorem typed_accessors:
  assumes "rd_ev rd = core_evaluator e"
  shows "(\<exists>b. res_Value (fst (BoolDetail rd now ca flag bdef ec st)) = VBool b
            \<and> fst (BoolValue rd now ca flag bdef ec st) = b
            \<and> (Result_IsFallback (fst (BoolDetail rd now ca flag bdef ec st)) \<longrightarrow> b = bdef))
    \<and> (\<exists>s. res_Value (fst (StringDetail rd now ca flag sdef ec st)) = VString s
            \<and> fst (StringValue rd now ca flag sdef ec st) = s
            \<and> (Result_IsFallback (fst (StringDetail rd now ca flag sdef ec st)) \<longrightarrow> s = sdef))
    \<and> (\<exists>i. res_Value (fst (IntDetail rd now ca flag idef ec st)) = VInt i
            \<and> fst (IntValue rd now ca flag idef ec st) = i
            \<and> (Result_IsFallback (fst (IntDetail rd now ca flag idef ec st)) \<longrightarrow> i = idef))"
proof -
  have bool: "\<exists>b. v = VBool b" if "Value_Type v = TypeBool" for v using that by (cases v) auto
  have string: "\<exists>s. v = VString s" if "Value_Type v = TypeString" for v using that by (cases v) auto
  have int: "\<exists>i. v = VInt i" if "Value_Type v = TypeInt" for v using that by (cases v) auto
  note typed = answer_core_typed [of _ _ e "cache_load ca" flag ec]
  from bool typed [of TypeBool "VBool bdef"]
  obtain b where "res_Value (fst (BoolDetail rd now ca flag bdef ec st)) = VBool b"
      "Result_IsFallback (fst (BoolDetail rd now ca flag bdef ec st)) \<longrightarrow> b = bdef"
    by (force simp: BoolDetail_def detail_def fst_guarded assms)
  moreover from string typed [of TypeString "VString sdef"]
  obtain s where "res_Value (fst (StringDetail rd now ca flag sdef ec st)) = VString s"
      "Result_IsFallback (fst (StringDetail rd now ca flag sdef ec st)) \<longrightarrow> s = sdef"
    by (force simp: StringDetail_def detail_def fst_guarded assms)
  moreover from int typed [of TypeInt "VInt idef"]
  obtain i where "res_Value (fst (IntDetail rd now ca flag idef ec st)) = VInt i"
      "Result_IsFallback (fst (IntDetail rd now ca flag idef ec st)) \<longrightarrow> i = idef"
    by (force simp: IntDetail_def detail_def fst_guarded assms)
  ultimately show ?thesis
    by (simp add: BoolValue_def StringValue_def IntValue_def case_prod_beta)
qed

text \<open>A reader with the shipped evaluator, a hook that always panics and a logger.\<close>

definition demo_reader :: reader where
  "demo_reader = \<lparr>rd_ev = core_evaluator (core_New (\<lambda>_. 0) []), rd_emitEval = True, rd_hookPanics = (\<lambda>_ _. True),
     rd_logger = True\<rparr>"

theorem typed_accessors_witness:
  "fst (IntValue demo_reader 0 (newCache False) ''f'' 42 (user_ctx ''u'') (newLogLimiter 1, [])) = 42"
proof -
  have "Result_IsFallback (fst (IntDetail demo_reader 0 (newCache False) ''f'' 42 (user_ctx ''u'') (newLogLimiter 1, [])))"
    by (simp add: IntDetail_def detail_def fst_guarded answer_def cache_load_New Result_IsFallback_def)
  then show ?thesis
    using typed_accessors [of demo_reader "core_New (\<lambda>_. 0) []" 0 "newCache False" "''f''" _ "user_ctx ''u''" "(newLogLimiter 1, [])" _ 42]
    by (auto simp: demo_reader_def)
qed

section \<open>From the store to the client\<close>

text \<open>A published snapshot as the update a source makes of it, its flags listed in some order.\<close>

definition published_update :: "ResolvedSnapshot \<Rightarrow> string list \<Rightarrow> string \<Rightarrow> Update" where
  "published_update snap order i =
     \<lparr>up_Snapshot = Some (SnapMem (NewMemSnapshot (rs_env snap) (rs_generation snap)
        (List.map_filter (rs_Flag snap) order))),
      up_Generation = rs_generation snap, up_InstanceID = i\<rparr>"

lemma published_view:
  assumes "snapshot_ok env snap" and "distinct order" and "set order = set (rs_keys snap)"
  shows "mem_view (NewMemSnapshot (rs_env snap) (rs_generation snap) (List.map_filter (rs_Flag snap) order)) = view_of snap"
proof -
  let ?m = "\<lparr>mem_env = rs_env snap, mem_gen = rs_generation snap, mem_flags = rs_flags snap\<rparr>"
  have f: "mem_Flag ?m = rs_Flag snap" by (simp add: fun_eq_iff mem_Flag_def rs_Flag_def)
  have "NewMemSnapshot (mem_env ?m) (mem_gen ?m) (List.map_filter (mem_Flag ?m) order) = ?m"
    by (rule NewMemSnapshot_rebuild) (use assms in \<open>auto simp: snapshot_ok_def f\<close>)
  then have "NewMemSnapshot (rs_env snap) (rs_generation snap) (List.map_filter (rs_Flag snap) order) = ?m"
    by (simp add: f)
  then show ?thesis by (simp add: mem_view_def view_of_def f rs_Len_def)
qed

lemma published_generation:
  assumes "snapshot_ok env snap" and "well_behaved ob"
  shows "res_Generation (fst (Evaluate (shipped sum64 ob) (Some (view_of snap)) key c want cd)) = rs_generation snap"
proof -
  have "res_Generation (decision_result f d cd (rs_generation snap)) = rs_generation snap" for f d
    by (cases d) (simp_all split: option.split)
  then show ?thesis by (simp add: published.evaluation [OF assms] split: option.split)
qed

text \<open>C22. Client and server give one answer. Take any environment of a store after any writes; hand its flags, in any order,
  to a client that holds nothing, or a lower generation, or the data of another source instance. Then every read of the client,
  with the shipped evaluator and whatever its hooks do, is the result the server's evaluator gives on the
  published snapshot, generation included, and never \<^verbatim>\<open>ERROR\<close>.\<close>

theorem client_agrees_with_server:
  fixes sum64 ob now i
  assumes "store_reachable h s" and "store_Snapshot s env = Some snap" and "rs_generation snap \<noteq> 0"
    and "distinct order" and "set order = set (rs_keys snap)" and "well_behaved ob"
    and "rd_ev rd = core_evaluator (shipped sum64 ob)"
    and "case cache_load (cl_cache c) of
           None \<Rightarrow> True
         | Some e \<Rightarrow> slt (en_gen e) (rs_generation snap) \<or> instance_changed (Some e) i"
  defines "c' \<equiv> applyUpdate now (published_update snap order i) c"
  shows "fst (detail rd t (cl_cache c') flag def want ec st) =
       fst (Evaluate (shipped sum64 ob) (Some (view_of snap)) flag ec want def)
    \<and> res_Reason (fst (detail rd t (cl_cache c') flag def want ec st)) \<noteq> ReasonError"
proof -
  have ok: "snapshot_ok env snap"
    using env_ok_state [OF reachable_store_ok [OF assms(1)], of env] assms(2)
    by (simp add: store_Snapshot_state env_ok_def)
  let ?m = "NewMemSnapshot (rs_env snap) (rs_generation snap) (List.map_filter (rs_Flag snap) order)"
  have "cache_load (cl_cache c') = Some (update_entry now (published_update snap order i) (SnapMem ?m))"
    using applyUpdate_entry [THEN conjunct1, of now "published_update snap order i" c] assms(8)
    by (auto simp: c'_def published_update_def split: option.splits)
  then obtain e where e: "cache_load (cl_cache c') = Some e" "en_snap e = SnapMem ?m" "en_gen e = rs_generation snap"
    by (simp add: update_entry_def)
  let ?r = "fst (Evaluate (shipped sum64 ob) (Some (view_of snap)) flag ec want def)"
  have r: "fst (detail rd t (cl_cache c') flag def want ec st) = stamp (rs_generation snap) ?r"
    by (simp add: detail_def fst_guarded assms(7) e answer_core published_view [OF ok assms(4,5)])
  have gen: "res_Generation ?r = rs_generation snap" and ne: "res_Reason ?r \<noteq> ReasonError"
    using published.never_error [OF ok assms(6)] published_generation [OF ok assms(6)] by blast+
  show ?thesis using gen ne assms(3) by (simp add: r stamp_def)
qed

lemma demo_generation: "\<exists>snap. store_Snapshot demo_store ''prod'' = Some snap \<and> rs_generation snap = 1"
proof -
  obtain snap where s: "store_Snapshot demo_store ''prod'' = Some snap" using demo_snapshot by blast
  then have "rs_generation snap = es_gen (env_state demo_store ''prod'')"
    using env_ok_state [OF reachable_store_ok [OF demo_reachable], of "''prod''"]
    by (simp add: store_Snapshot_state env_ok_def)
  moreover have "es_gen (env_state demo_store ''prod'') = 1" by code_simp
  ultimately show ?thesis using s by auto
qed

theorem client_agrees_with_server_witness:
  "\<exists>snap. store_Snapshot demo_store ''prod'' = Some snap
     \<and> fst (detail demo_reader 0
            (cl_cache (applyUpdate 0 (published_update snap (rs_keys snap) ''i1'') (fresh_client ''prod'' 0 False)))
            ''checkout'' (VBool False) TypeBool (user_ctx ''u'') (newLogLimiter 1, []))
         = fst (Evaluate (core_New (\<lambda>_. 0) []) (Some (view_of snap)) ''checkout'' (user_ctx ''u'') TypeBool (VBool False))"
proof -
  obtain snap where s: "store_Snapshot demo_store ''prod'' = Some snap" "rs_generation snap = 1"
    using demo_generation by blast
  have ok: "snapshot_ok ''prod'' snap"
    using env_ok_state [OF reachable_store_ok [OF demo_reachable], of "''prod''"] s(1)
    by (simp add: store_Snapshot_state env_ok_def)
  have shipped: "shipped (\<lambda>_. 0) None = core_New (\<lambda>_. 0) []" by (simp add: core_New_def WithConditionObserver_def)
  have d: "distinct (rs_keys snap)" using ok gm.keys_distinct by (auto simp: snapshot_ok_def)
  have wb: "well_behaved None" by (simp add: well_behaved_def)
  have rd: "rd_ev demo_reader = core_evaluator (shipped (\<lambda>_. 0) None)" by (simp add: demo_reader_def shipped)
  show ?thesis
    using client_agrees_with_server [OF demo_reachable s(1) _ d refl wb rd, where c = "fresh_client ''prod'' 0 False" and i = "''i1''" and now = 0 and t = 0]
    by (simp add: s shipped fresh_client_def)
qed

end
