(* ===== verification/Client_File.thy ===== *)
theory Client_File
  imports Client_Codec
begin

text \<open>
  The disk cache of the client, \<^verbatim>\<open>FileStore\<close> of \<^verbatim>\<open>pkg/client/cache.go\<close>: the encoding of an environment name, the path
  of its file, and the load and the save. \<^verbatim>\<open>filepath.Clean\<close>, \<^verbatim>\<open>Dir\<close> and \<^verbatim>\<open>Join\<close> are those of a Unix system. A
  file system is a map from paths to contents; every system call takes its outcome from outside, and the save
  yields the list of the file systems between its calls, so that a crash is a place in the list.
\<close>

section \<open>Encoding an environment name\<close>

definition envEscape :: char where "envEscape = CHR ''~''"

definition hex_digit :: "nat \<Rightarrow> char" where
  "hex_digit n = ''0123456789ABCDEF'' ! n"

definition plain_char :: "char \<Rightarrow> bool" where
  "plain_char c \<longleftrightarrow> is_lower c \<or> is_digit c \<or> c = CHR ''-'' \<or> c = CHR ''_''"

definition encode_char :: "char \<Rightarrow> string" where
  "encode_char c =
     (if plain_char c then [c] else [envEscape, hex_digit (byte c div 16), hex_digit (byte c mod 16)])"

definition encodeEnvName :: "string \<Rightarrow> string" where
  "encodeEnvName env = (if env = [] then ''~empty'' else concat (map encode_char env))"

lemma byte_less: "byte c < 256"
  by (cases c) (simp add: of_char_Char horner_sum_simps)

lemma byte_high: "byte c div 16 < 16"
  using byte_less [of c] by (intro less_mult_imp_div_less) simp

lemma hex_digit_mem: "n < 16 \<Longrightarrow> hex_digit n \<in> set ''0123456789ABCDEF''"
  unfolding hex_digit_def by (rule nth_mem) simp

lemma hex_digit_inj: "m < 16 \<Longrightarrow> n < 16 \<Longrightarrow> hex_digit m = hex_digit n \<Longrightarrow> m = n"
proof -
  have "distinct ''0123456789ABCDEF''" by simp
  then show "m < 16 \<Longrightarrow> n < 16 \<Longrightarrow> hex_digit m = hex_digit n \<Longrightarrow> m = n"
    unfolding hex_digit_def by (subst (asm) nth_eq_iff_index_eq) simp_all
qed

lemma plain_not_escape: "plain_char c \<Longrightarrow> c \<noteq> envEscape"
  by (auto simp: plain_char_def envEscape_def is_lower_def is_digit_def)

lemma byte_inj: "byte c = byte d \<Longrightarrow> c = d"
  by simp

lemma encode_char_prefix:
  assumes "encode_char c @ s = encode_char d @ t"
  shows "c = d \<and> s = t"
proof (cases "plain_char c"; cases "plain_char d")
  assume c: "\<not> plain_char c" and d: "\<not> plain_char d"
  then have h: "hex_digit (byte c div 16) = hex_digit (byte d div 16)"
    "hex_digit (byte c mod 16) = hex_digit (byte d mod 16)" "s = t"
    using assms by (simp_all add: encode_char_def)
  have "byte c div 16 = byte d div 16"
    by (rule hex_digit_inj [OF byte_high byte_high h(1)])
  moreover have "byte c mod 16 = byte d mod 16" by (intro hex_digit_inj h(2)) simp_all
  ultimately have "byte c = byte d" by (metis div_mult_mod_eq)
  then show ?thesis using h(3) byte_inj by blast
qed (use assms plain_not_escape in \<open>auto simp: encode_char_def\<close>)

lemma encode_chars_inj: "concat (map encode_char s) = concat (map encode_char t) \<Longrightarrow> s = t"
proof (induction s arbitrary: t)
  case Nil
  then show ?case by (cases t) (auto simp: encode_char_def split: if_splits)
next
  case (Cons c s)
  then obtain d t' where t: "t = d # t'" by (cases t) (auto simp: encode_char_def split: if_splits)
  with Cons.prems have "encode_char c @ concat (map encode_char s) = encode_char d @ concat (map encode_char t')"
    by simp
  from encode_char_prefix [OF this] show ?case using Cons.IH t by blast
qed

lemma encode_chars_not_empty_name: "s \<noteq> [] \<Longrightarrow> concat (map encode_char s) \<noteq> ''~empty''"
proof -
  assume "s \<noteq> []"
  then obtain c t where s: "s = c # t" by (cases s) auto
  have "plain_char CHR ''~'' = False" by (simp add: plain_char_def is_lower_def is_digit_def)
  moreover have "hex_digit (byte c mod 16) \<noteq> CHR ''m''" using hex_digit_mem [of "byte c mod 16"] by auto
  ultimately show ?thesis by (auto simp: s encode_char_def)
qed

lemma encodeEnvName_inj: "encodeEnvName s = encodeEnvName t \<Longrightarrow> s = t"
  using encode_chars_inj [of s t] encode_chars_not_empty_name [of s] encode_chars_not_empty_name [of t]
  by (auto simp: encodeEnvName_def split: if_splits)
section \<open>Paths\<close>

fun split_slash :: "string \<Rightarrow> string list" where
  "split_slash [] = [[]]"
| "split_slash (c # s) =
     (if c = CHR ''/'' then [] # split_slash s
      else (c # hd (split_slash s)) # tl (split_slash s))"

fun join_slash :: "string list \<Rightarrow> string" where
  "join_slash [] = []"
| "join_slash [e] = e"
| "join_slash (e # es) = e @ ''/'' @ join_slash es"

definition rooted :: "string \<Rightarrow> bool" where
  "rooted p \<longleftrightarrow> (case p of [] \<Rightarrow> False | c # _ \<Rightarrow> c = CHR ''/'')"

definition clean_step :: "bool \<Rightarrow> string list \<Rightarrow> string \<Rightarrow> string list" where
  "clean_step r es e =
     (if e = [] \<or> e = ''.'' then es
      else if e = ''..'' then
        (if es \<noteq> [] \<and> last es \<noteq> ''..'' then butlast es else if r then es else es @ [e])
      else es @ [e])"

definition render_path :: "bool \<Rightarrow> string list \<Rightarrow> string" where
  "render_path r es =
     (if r then ''/'' @ join_slash es else if es = [] then ''.'' else join_slash es)"

definition elements :: "string \<Rightarrow> string list" where
  "elements p = foldl (clean_step (rooted p)) [] (split_slash p)"

definition filepath_Clean :: "string \<Rightarrow> string" where
  "filepath_Clean p = render_path (rooted p) (elements p)"

definition filepath_Dir :: "string \<Rightarrow> string" where
  "filepath_Dir p = filepath_Clean (rev (dropWhile (\<lambda>c. c \<noteq> CHR ''/'') (rev p)))"

fun filepath_Join :: "string list \<Rightarrow> string" where
  "filepath_Join [] = []"
| "filepath_Join (e # es) = (if e = [] then filepath_Join es else filepath_Clean (join_slash (e # es)))"

definition file_name :: "string \<Rightarrow> string" where
  "file_name env = ''flags-'' @ encodeEnvName env @ ''.json''"

text \<open>The path of an environment's file, or the error that it leaves the cache directory.\<close>

definition file_path :: "string \<Rightarrow> string \<Rightarrow> string option" where
  "file_path dir env =
     (let p = filepath_Clean (filepath_Join [dir, file_name env])
      in if filepath_Dir p \<noteq> filepath_Clean dir then None else Some p)"

text \<open>A cleaned list of elements: the parent steps come first, and there are none below the root.\<close>

definition clean_elements :: "bool \<Rightarrow> string list \<Rightarrow> bool" where
  "clean_elements r es \<longleftrightarrow>
     list_all (\<lambda>e. e \<noteq> [] \<and> e \<noteq> ''.'' \<and> CHR ''/'' \<notin> set e \<and> (r \<longrightarrow> e \<noteq> ''..'')) es
     \<and> sorted_wrt (\<lambda>a b. b = ''..'' \<longrightarrow> a = ''..'') es"

lemma clean_elements_Nil [simp]: "clean_elements r []"
  by (simp add: clean_elements_def)

lemma clean_elements_snoc:
  "clean_elements r (es @ [e]) \<longleftrightarrow>
     clean_elements r es \<and> e \<noteq> [] \<and> e \<noteq> ''.'' \<and> CHR ''/'' \<notin> set e
     \<and> (e = ''..'' \<longrightarrow> \<not> r \<and> list_all (\<lambda>a. a = ''..'') es)"
  by (auto simp: clean_elements_def sorted_wrt_append list_all_iff)

lemma clean_elements_parents:
  "clean_elements r es \<Longrightarrow> es = [] \<or> last es = ''..'' \<Longrightarrow> list_all (\<lambda>a. a = ''..'') es"
  by (cases es rule: rev_cases) (auto simp: clean_elements_snoc clean_elements_def sorted_wrt_append list_all_iff)

lemma clean_step_ok:
  assumes "clean_elements r es" and "CHR ''/'' \<notin> set e"
  shows "clean_elements r (clean_step r es e)"
proof (cases "e = ''..''")
  case False
  then show ?thesis using assms by (auto simp: clean_step_def clean_elements_snoc)
next
  case True
  show ?thesis
  proof (cases "es \<noteq> [] \<and> last es \<noteq> ''..''")
    case True
    then have "es = butlast es @ [last es]" by simp
    then have "clean_elements r (butlast es)" using assms(1) clean_elements_snoc by metis
    then show ?thesis using True \<open>e = ''..''\<close> by (simp add: clean_step_def)
  next
    case False
    then have "list_all (\<lambda>a. a = ''..'') es" using clean_elements_parents [OF assms(1)] by blast
    then show ?thesis using False True assms by (auto simp: clean_step_def clean_elements_snoc)
  qed
qed

lemma clean_fold_ok:
  "clean_elements r es \<Longrightarrow> list_all (\<lambda>e. CHR ''/'' \<notin> set e) xs \<Longrightarrow>
     clean_elements r (foldl (clean_step r) es xs)"
  by (induction xs arbitrary: es) (simp_all add: clean_step_ok)

text \<open>Cleaning again changes nothing.\<close>

lemma clean_fold_id: "clean_elements r es \<Longrightarrow> foldl (clean_step r) [] es = es"
proof (induction es rule: rev_induct)
  case (snoc e es)
  then have c: "clean_elements r es" "e \<noteq> []" "e \<noteq> ''.''" "e = ''..'' \<longrightarrow> \<not> r \<and> list_all (\<lambda>a. a = ''..'') es"
    by (simp_all add: clean_elements_snoc)
  have "es = [] \<or> last es = ''..''" if "e = ''..''" using that c(4) by (cases es rule: rev_cases) auto
  then show ?case using c snoc.IH by (auto simp: clean_step_def)
qed simp

lemma split_slash_nonempty [simp]: "split_slash s \<noteq> []"
  by (cases s) simp_all

lemma split_slash_parts: "list_all (\<lambda>e. CHR ''/'' \<notin> set e) (split_slash s)"
proof (induction s)
  case (Cons c s)
  then show ?case by (cases "split_slash s") auto
qed simp

lemma split_slash_append: "split_slash (s @ ''/'' @ t) = split_slash s @ split_slash t"
proof (induction s)
  case (Cons c s)
  then show ?case by (cases "split_slash s") auto
qed simp

lemma split_slash_plain: "CHR ''/'' \<notin> set e \<Longrightarrow> split_slash e = [e]"
  by (induction e) auto

lemma split_join:
  "es \<noteq> [] \<Longrightarrow> list_all (\<lambda>e. CHR ''/'' \<notin> set e) es \<Longrightarrow> split_slash (join_slash es) = es"
  by (induction es rule: join_slash.induct)
    (simp_all add: split_slash_plain split_slash_append [of _ "join_slash (v # vs)" for v vs, simplified])

lemma elements_ok: "clean_elements (rooted p) (elements p)"
  unfolding elements_def by (rule clean_fold_ok) (simp_all add: split_slash_parts)

lemma join_slash_snoc: "es \<noteq> [] \<Longrightarrow> join_slash (es @ [e]) = join_slash es @ ''/'' @ e"
  by (induction es rule: join_slash.induct) auto
lemma rooted_append: "p \<noteq> [] \<Longrightarrow> rooted (p @ s) = rooted p"
  by (cases p) (simp_all add: rooted_def)

lemma rooted_join: "es \<noteq> [] \<Longrightarrow> hd es \<noteq> [] \<Longrightarrow> rooted (join_slash es) = rooted (hd es)"
  by (induction es rule: join_slash.induct) (simp_all add: rooted_append)

lemma rooted_plain: "CHR ''/'' \<notin> set e \<Longrightarrow> \<not> rooted e"
  by (cases e) (auto simp: rooted_def)

lemma clean_elements_parts: "clean_elements r es \<Longrightarrow> list_all (\<lambda>e. CHR ''/'' \<notin> set e) es"
  by (auto simp: clean_elements_def list_all_iff)

lemma render_path_clean:
  assumes "clean_elements r es"
  shows "rooted (render_path r es) = r" and "elements (render_path r es) = es"
    and "filepath_Clean (render_path r es) = render_path r es"
proof -
  have parts: "list_all (\<lambda>e. CHR ''/'' \<notin> set e) es" by (rule clean_elements_parts [OF assms])
  have hd: "hd es \<noteq> []" "CHR ''/'' \<notin> set (hd es)" if "es \<noteq> []"
    using that assms by (cases es; simp add: clean_elements_def)+
  show r: "rooted (render_path r es) = r"
    using hd rooted_join [of es] rooted_plain [of "hd es"]
    by (cases r; cases "es = []") (auto simp: render_path_def rooted_def)
  have "foldl (clean_step r) [] (split_slash (render_path r es)) = foldl (clean_step r) [] es"
    using split_join [OF _ parts] by (cases r; cases "es = []") (simp_all add: render_path_def clean_step_def)
  then show "elements (render_path r es) = es" using clean_fold_id [OF assms] by (simp add: elements_def r)
  then show "filepath_Clean (render_path r es) = render_path r es" by (simp add: filepath_Clean_def r)
qed

lemma dir_part:
  "CHR ''/'' \<notin> set e \<Longrightarrow> rev (dropWhile (\<lambda>c. c \<noteq> CHR ''/'') (rev (s @ ''/'' @ e))) = s @ ''/''"
  "CHR ''/'' \<notin> set e \<Longrightarrow> rev (dropWhile (\<lambda>c. c \<noteq> CHR ''/'') (rev e)) = []"
  by (auto simp: dropWhile_append dropWhile_eq_Nil_conv)

lemma clean_trailing_slash: "p \<noteq> [] \<Longrightarrow> filepath_Clean (p @ ''/'') = filepath_Clean p"
  using split_slash_append [of p "[]"]
  by (simp add: filepath_Clean_def elements_def rooted_append clean_step_def)

lemma filepath_Dir_render:
  assumes "clean_elements r es" and "CHR ''/'' \<notin> set e"
  shows "filepath_Dir (render_path r (es @ [e])) = render_path r es"
proof (cases "es = []")
  case True
  have d: "dropWhile (\<lambda>c. c \<noteq> CHR ''/'') (rev e) = []"
    "dropWhile (\<lambda>c. c \<noteq> CHR ''/'') (rev e @ ''/'') = ''/''"
    using assms(2) by (auto simp: dropWhile_eq_Nil_conv dropWhile_append)
  show ?thesis
    by (cases r) (simp_all add: True d filepath_Dir_def render_path_def filepath_Clean_def rooted_def elements_def
        clean_step_def)
next
  case False
  then have p: "render_path r (es @ [e]) = render_path r es @ ''/'' @ e"
    by (simp add: render_path_def join_slash_snoc)
  have "render_path r es \<noteq> []"
    using False assms(1) by (cases es rule: join_slash.cases) (auto simp: render_path_def clean_elements_def)
  then show ?thesis
    using clean_trailing_slash render_path_clean(3) [OF assms(1)] dir_part [OF assms(2)]
    by (simp add: filepath_Dir_def p)
qed

lemma hex_digit_not_slash: "n < 16 \<Longrightarrow> hex_digit n \<noteq> CHR ''/''"
  using hex_digit_mem [of n] by auto

lemma encode_char_not_slash: "CHR ''/'' \<notin> set (encode_char c)"
  using hex_digit_not_slash [OF byte_high, of c] hex_digit_not_slash [of "byte c mod 16"]
  by (auto simp: encode_char_def plain_char_def envEscape_def is_lower_def is_digit_def)

lemma file_name_plain: "CHR ''/'' \<notin> set (file_name env)"
  using encode_char_not_slash by (auto simp: file_name_def encodeEnvName_def)

lemma file_path_eq:
  "file_path dir env = Some (render_path (rooted dir) (elements dir @ [file_name env]))"
proof -
  let ?n = "file_name env" and ?r = "rooted dir" and ?es = "elements dir"
  have n: "?n \<noteq> []" "?n \<noteq> ''.''" "?n \<noteq> ''..''" by (simp_all add: file_name_def)
  have ok: "clean_elements ?r ?es" by (rule elements_ok)
  have ok': "clean_elements ?r (?es @ [?n])" using ok n file_name_plain by (simp add: clean_elements_snoc)
  have step: "clean_step ?r ?es ?n = ?es @ [?n]" using n by (simp add: clean_step_def)
  have "filepath_Join [dir, ?n] = render_path ?r (?es @ [?n])"
  proof (cases "dir = []")
    case True
    then have "filepath_Join [dir, ?n] = filepath_Clean ?n" using n by simp
    moreover have "\<not> rooted ?n" "elements ?n = [?n]"
      using rooted_plain [OF file_name_plain] n
      by (auto simp: elements_def split_slash_plain [OF file_name_plain] clean_step_def)
    moreover have "\<not> ?r" "?es = []" using True by (simp_all add: rooted_def elements_def clean_step_def)
    ultimately show ?thesis by (simp add: filepath_Clean_def)
  next
    case False
    then have "elements (dir @ ''/'' @ ?n) = ?es @ [?n]"
      using split_slash_append [of dir ?n] split_slash_plain [OF file_name_plain] step
      by (simp add: elements_def rooted_append)
    then show ?thesis using False by (simp add: filepath_Clean_def rooted_append)
  qed
  then show ?thesis
    using render_path_clean(3) [OF ok'] filepath_Dir_render [OF ok file_name_plain]
    by (simp add: file_path_def filepath_Clean_def [of dir])
qed

lemma render_path_snoc_inj:
  "render_path r (es @ [e]) = render_path r (es @ [f]) \<Longrightarrow> e = f"
  by (cases "es = []") (auto simp: render_path_def join_slash_snoc split: if_splits)

text \<open>One file per environment, inside the cache directory. For every directory and every environment name, even
  one made of separators and dots, the path resolves, its parent is the cache directory, and two
  different names never share a file.\<close>

theorem file_path_injective:
  "(\<exists>p. file_path dir env = Some p \<and> filepath_Dir p = filepath_Clean dir)
   \<and> (file_path dir env = file_path dir env' \<longleftrightarrow> env = env')"
proof (intro conjI iffI)
  have "filepath_Dir (render_path (rooted dir) (elements dir @ [file_name env])) = filepath_Clean dir"
    using filepath_Dir_render [OF elements_ok file_name_plain] by (simp add: filepath_Clean_def)
  then show "\<exists>p. file_path dir env = Some p \<and> filepath_Dir p = filepath_Clean dir"
    by (simp add: file_path_eq)
next
  assume "file_path dir env = file_path dir env'"
  then have "render_path (rooted dir) (elements dir @ [file_name env]) =
      render_path (rooted dir) (elements dir @ [file_name env'])"
    by (simp add: file_path_eq)
  then have "file_name env = file_name env'" by (rule render_path_snoc_inj)
  then have "encodeEnvName env = encodeEnvName env'" by (simp add: file_name_def)
  then show "env = env'" by (rule encodeEnvName_inj)
qed simp
section \<open>The store\<close>

type_synonym file_system = "(string, string) gomap"

record Codec =
  cd_Encode :: "Snapshot option \<Rightarrow> codec_error + string"
  cd_Decode :: "string \<Rightarrow> codec_error + Snapshot option"

text \<open>
  The default codec over the text of a document (its rendering and its parsing, of \<^verbatim>\<open>encoding/json\<close>) and the
  order in which a map is walked.
\<close>

definition JSONCodec :: "(json \<Rightarrow> string) \<Rightarrow> (string \<Rightarrow> json option) \<Rightarrow> (MemSnapshot \<Rightarrow> string list) \<Rightarrow> Codec" where
  "JSONCodec render parse order =
     \<lparr>cd_Encode = (\<lambda>s.
        let keys = (case s of Some (SnapMem m) \<Rightarrow> order m | _ \<Rightarrow> [])
        in rbind (Encode keys s) (\<lambda>j. Inr (render j))),
      cd_Decode = (\<lambda>b. case parse b of
          None \<Rightarrow> Inl BadDocument
        | Some j \<Rightarrow> rbind (Decode j) (\<lambda>m. Inr (Some (SnapMem m))))\<rparr>"

record FileStore =
  fs_dir :: string
  fs_codec :: Codec

definition NewFileStore :: "Codec \<Rightarrow> string \<Rightarrow> Codec option \<Rightarrow> FileStore" where
  "NewFileStore json dir codec = \<lparr>fs_dir = dir, fs_codec = (case codec of None \<Rightarrow> json | Some c \<Rightarrow> c)\<rparr>"

datatype load_error = LoadErrNoSnapshot | LoadFailed | LoadUndecodable codec_error

text \<open>The outcomes of the calls of a load: a stat error other than absence, the modification time, a read error.\<close>

record load_calls =
  lc_statFails :: bool
  lc_modTime :: time
  lc_readFails :: bool

definition file_Load :: "FileStore \<Rightarrow> string \<Rightarrow> load_calls \<Rightarrow> file_system \<Rightarrow> load_error + Snapshot option \<times> time" where
  "file_Load f env calls fs =
     (case file_path (fs_dir f) env of
        None \<Rightarrow> Inl LoadFailed
      | Some p \<Rightarrow>
          if lc_statFails calls then Inl LoadFailed
          else (case gm_get fs p of
                  None \<Rightarrow> Inl LoadErrNoSnapshot
                | Some b \<Rightarrow>
                    if lc_readFails calls then Inl LoadFailed
                    else (case cd_Decode (fs_codec f) b of
                            Inl e \<Rightarrow> Inl (LoadUndecodable e)
                          | Inr s \<Rightarrow> Inr (s, lc_modTime calls))))"

text \<open>
  The outcomes of the calls of a save: whether each succeeds, the random part of the temporary name, and
  how many bytes a failing write wrote.
\<close>

record save_calls =
  sc_mkdir :: bool
  sc_create :: "string option"
  sc_write :: "nat option"
  sc_sync :: bool
  sc_close :: bool
  sc_rename :: bool
  sc_remove :: bool

definition temp_name :: "string \<Rightarrow> string \<Rightarrow> string \<Rightarrow> string" where
  "temp_name tempDir dir random =
     (let d = (if dir = [] then tempDir else dir); sep = (if d \<noteq> [] \<and> last d = CHR ''/'' then [] else ''/'')
      in d @ sep @ ''.flags-'' @ random @ ''.tmp'')"

text \<open>
  The file systems a save goes through, one per byte written and per call that changes something, and whether it
  returns nil. The last two calls after a failure are those of the deferred function.
\<close>

definition file_Save :: "string \<Rightarrow> FileStore \<Rightarrow> string \<Rightarrow> Snapshot option \<Rightarrow> save_calls \<Rightarrow> file_system \<Rightarrow>
    file_system list \<times> bool" where
  "file_Save tempDir f env snap calls fs =
     (case file_path (fs_dir f) env of
        None \<Rightarrow> ([fs], False)
      | Some final \<Rightarrow>
          if \<not> sc_mkdir calls then ([fs], False)
          else (case cd_Encode (fs_codec f) snap of
             Inl e \<Rightarrow> ([fs], False)
           | Inr b \<Rightarrow>
               (case sc_create calls of
                  None \<Rightarrow> ([fs], False)
                | Some random \<Rightarrow>
                    (let tmp = temp_name tempDir (fs_dir f) random;
                         n = (case sc_write calls of None \<Rightarrow> length b | Some n \<Rightarrow> min n (length b));
                         writing = map (\<lambda>i. gm_set tmp (take i b) fs) [0..<Suc n];
                         written = gm_set tmp (take n b) fs;
                         cleaned = (if sc_remove calls then gm_del tmp written else written)
                     in if sc_write calls \<noteq> None \<or> \<not> sc_sync calls \<or> \<not> sc_close calls \<or> \<not> sc_rename calls
                        then (fs # writing @ [cleaned], False)
                        else (fs # writing @ [gm_set final b (gm_del tmp written)], True)))))"

lemma temp_name_last: "\<exists>p. temp_name tempDir dir random = p @ ''p''"
  by (intro exI [of _ "butlast (temp_name tempDir dir random)"]) (simp add: temp_name_def Let_def butlast_append)

lemma render_path_last: "\<exists>p. render_path r (es @ [file_name env]) = p @ ''n''"
proof -
  have f: "file_name env = (''flags-'' @ encodeEnvName env @ ''.jso'') @ ''n''" by (simp add: file_name_def)
  show ?thesis
  proof (cases "es = []")
    case True
    then show ?thesis
      by (intro exI [of _ "(if r then ''/'' else []) @ ''flags-'' @ encodeEnvName env @ ''.jso''"])
        (simp add: render_path_def f)
  next
    case False
    then show ?thesis
      by (intro exI [of _ "(if r then ''/'' else []) @ join_slash es @ ''/flags-'' @ encodeEnvName env @ ''.jso''"])
        (simp add: render_path_def join_slash_snoc f)
  qed
qed

lemma temp_name_not_final: "file_path dir env = Some p \<Longrightarrow> temp_name tempDir dir' random \<noteq> p"
  using temp_name_last [of tempDir dir' random] render_path_last [of "rooted dir" "elements dir" env]
  by (auto simp: file_path_eq)

text \<open>How a save can go: it changes nothing, it fails after the temporary file was made, or it succeeds.\<close>

lemma file_Save_cases:
  assumes "file_Save tempDir f env snap calls fs = (states, ok)" and "file_path (fs_dir f) env = Some final"
  obtains (nothing) "states = [fs]" "\<not> ok"
  | (failed) b random written where "cd_Encode (fs_codec f) snap = Inr b" "sc_create calls = Some random" "\<not> ok"
      "set states \<subseteq> {fs} \<union> range (\<lambda>c. gm_set (temp_name tempDir (fs_dir f) random) c fs) \<union> {last states}"
      "last states = (if sc_remove calls then gm_del (temp_name tempDir (fs_dir f) random) written else written)"
      "written \<in> range (\<lambda>c. gm_set (temp_name tempDir (fs_dir f) random) c fs)"
  | (saved) b random c where "cd_Encode (fs_codec f) snap = Inr b" "sc_create calls = Some random" "ok"
      "set states \<subseteq> {fs} \<union> range (\<lambda>c. gm_set (temp_name tempDir (fs_dir f) random) c fs) \<union> {last states}"
      "last states = gm_set final b (gm_del (temp_name tempDir (fs_dir f) random)
         (gm_set (temp_name tempDir (fs_dir f) random) c fs))"
proof (cases "sc_mkdir calls \<and> (\<exists>b. cd_Encode (fs_codec f) snap = Inr b) \<and> sc_create calls \<noteq> None")
  case False
  then have "states = [fs]" "\<not> ok"
    using assms by (auto simp: file_Save_def split: sum.splits option.splits if_splits)
  then show ?thesis by (rule nothing)
next
  case True
  then obtain b random where b: "cd_Encode (fs_codec f) snap = Inr b" and r: "sc_create calls = Some random" by blast
  let ?n = "case sc_write calls of None \<Rightarrow> length b | Some n \<Rightarrow> min n (length b)"
  let ?tmp = "temp_name tempDir (fs_dir f) random"
  let ?writing = "map (\<lambda>i. gm_set ?tmp (take i b) fs) [0..<Suc ?n]"
  let ?written = "gm_set ?tmp (take ?n b) fs"
  let ?fail = "sc_write calls \<noteq> None \<or> \<not> sc_sync calls \<or> \<not> sc_close calls \<or> \<not> sc_rename calls"
  have eq: "file_Save tempDir f env snap calls fs =
      (if ?fail then (fs # ?writing @ [if sc_remove calls then gm_del ?tmp ?written else ?written], False)
       else (fs # ?writing @ [gm_set final b (gm_del ?tmp ?written)], True))"
    using True b r assms(2) by (simp add: file_Save_def Let_def)
  show ?thesis
  proof (cases ?fail)
    case True
    then have "states = fs # ?writing @ [if sc_remove calls then gm_del ?tmp ?written else ?written]" "\<not> ok"
      using eq assms(1) by simp_all
    then show ?thesis by (intro failed [OF b r, of ?written]) auto
  next
    case False
    then have "states = fs # ?writing @ [gm_set final b (gm_del ?tmp ?written)]" "ok"
      using eq assms(1) by simp_all
    then show ?thesis by (intro saved [OF b r, of "take ?n b"]) auto
  qed
qed

text \<open>C27. A save is atomic and local. At every point at which the process can die the environment's file holds what it held before or
  all of the new bytes, and the file of every other environment what it held; a save that returns nil has the new bytes in place,
  one that fails the old ones; and it leaves no temporary file unless the remove itself failed.\<close>

theorem file_save_atomic:
  assumes "file_Save tempDir f env snap calls fs = (states, ok)" and "st \<in> set states"
    and "file_path (fs_dir f) env = Some final"
  shows "(gm_get st final = gm_get fs final \<or> (\<exists>b. cd_Encode (fs_codec f) snap = Inr b \<and> gm_get st final = Some b))
    \<and> (env' \<noteq> env \<longrightarrow> file_path (fs_dir f) env' = Some p' \<longrightarrow> gm_get st p' = gm_get fs p')
    \<and> (if ok then \<exists>b. cd_Encode (fs_codec f) snap = Inr b \<and> gm_get (last states) final = Some b
        else gm_get (last states) final = gm_get fs final)
    \<and> (sc_create calls = Some random \<longrightarrow> sc_remove calls \<longrightarrow> gm_get fs (temp_name tempDir (fs_dir f) random) = None \<longrightarrow>
         gm_get (last states) (temp_name tempDir (fs_dir f) random) = None)"
proof -
  have other: "p' \<noteq> final" if "env' \<noteq> env" "file_path (fs_dir f) env' = Some p'"
    using that assms(3) file_path_injective [of "fs_dir f" env' env] by auto
  have tmp: "final \<noteq> temp_name tempDir (fs_dir f) r" for r using temp_name_not_final [OF assms(3)] by blast
  have tmp': "p' \<noteq> temp_name tempDir (fs_dir f) r" if "file_path (fs_dir f) env' = Some p'" for r
    using temp_name_not_final [OF that] by blast
  show ?thesis
    using assms(1,3)
  proof (cases rule: file_Save_cases)
    case nothing
    then show ?thesis using assms(2) by auto
  next
    case (failed b r written)
    then have "st \<in> {fs} \<union> range (\<lambda>c. gm_set (temp_name tempDir (fs_dir f) r) c fs) \<union> {last states}"
      using assms(2) by blast
    then show ?thesis using failed other tmp tmp' by (auto split: if_splits)
  next
    case (saved b r c)
    then have "st \<in> {fs} \<union> range (\<lambda>c. gm_set (temp_name tempDir (fs_dir f) r) c fs) \<union> {last states}"
      using assms(2) by blast
    then show ?thesis using saved other tmp tmp' by (auto split: if_splits)
  qed
qed
text \<open>Every call succeeds.\<close>

definition all_succeed :: save_calls where
  "all_succeed = \<lparr>sc_mkdir = True, sc_create = Some ''123'', sc_write = None, sc_sync = True, sc_close = True,
     sc_rename = True, sc_remove = True\<rparr>"

definition text_store :: FileStore where
  "text_store = \<lparr>fs_dir = ''/var//cache/./'',
     fs_codec = \<lparr>cd_Encode = (\<lambda>_. Inr ''new''), cd_Decode = (\<lambda>_. Inl BadDocument)\<rparr>\<rparr>"

lemma text_store_path: "file_path (fs_dir text_store) ''../p'' = Some ''/var/cache/flags-~2E~2E~2Fp.json''"
  by (simp add: file_path_eq text_store_def elements_def rooted_def clean_step_def render_path_def file_name_def
      encodeEnvName_def encode_char_def plain_char_def is_lower_def is_digit_def envEscape_def hex_digit_def)

theorem file_save_atomic_witness:
  "gm_get (last (fst (file_Save ''/tmp'' text_store ''../p'' None all_succeed
     [(''/var/cache/flags-~2E~2E~2Fp.json'', ''old'')]))) ''/var/cache/flags-~2E~2E~2Fp.json'' = Some ''new''"
proof -
  let ?fs = "[(''/var/cache/flags-~2E~2E~2Fp.json'', ''old'')]"
  let ?r = "file_Save ''/tmp'' text_store ''../p'' None all_succeed ?fs"
  have ok: "snd ?r" and ne: "fst ?r \<noteq> []"
    by (simp_all add: file_Save_def text_store_path) (simp_all add: text_store_def all_succeed_def Let_def)
  show ?thesis
    using file_save_atomic [OF prod.collapse [symmetric] last_in_set [OF ne] text_store_path] ok
    by (simp add: text_store_def)
qed

text \<open>What was saved is what a restart loads. After a save with the default codec that returned nil, a load that meets no
  I/O error yields the very snapshot that was saved, with its environment, generation and flags, provided
  \<^verbatim>\<open>encoding/json\<close> reads back the document it wrote.\<close>

theorem saved_snapshot_loads:
  assumes "file_Save tempDir \<lparr>fs_dir = dir, fs_codec = JSONCodec render parse order\<rparr> env (Some (SnapMem m)) calls fs
      = (states, True)"
    and "mem_ok m" and "distinct (order m)" and "set (order m) = set (gm_keys (mem_flags m))"
    and "\<forall>j. Encode (order m) (Some (SnapMem m)) = Inr j \<longrightarrow> parse (render j) = Some j"
    and "\<not> lc_statFails lcalls" and "\<not> lc_readFails lcalls"
  shows "file_Load \<lparr>fs_dir = dir, fs_codec = JSONCodec render parse order\<rparr> env lcalls (last states)
    = Inr (Some (SnapMem m), lc_modTime lcalls)"
proof -
  obtain final where p: "file_path dir env = Some final" using file_path_eq by blast
  then have p': "file_path (fs_dir \<lparr>fs_dir = dir, fs_codec = JSONCodec render parse order\<rparr>) env = Some final"
    by simp
  obtain j where j: "Encode (order m) (Some (SnapMem m)) = Inr j" "Decode j = Inr m"
    using codec_roundtrip_lemma [OF assms(2,3,4)] by blast
  have e: "cd_Encode (JSONCodec render parse order) (Some (SnapMem m)) = Inr (render j)"
    by (simp add: JSONCodec_def j)
  have "gm_get (last states) final = Some (render j)"
    using assms(1) p'
  proof (cases rule: file_Save_cases)
    case (saved b r c)
    then show ?thesis using e by simp
  qed auto
  then show ?thesis
    using assms(5,6,7) j p by (simp add: file_Load_def JSONCodec_def)
qed

theorem saved_snapshot_loads_witness:
  "\<exists>j. Encode [''b'', ''a''] (Some (SnapMem two_flags)) = Inr j
     \<and> (let store = \<lparr>fs_dir = ''cache'', fs_codec = JSONCodec (\<lambda>_. ''{}'') (\<lambda>_. Some j) (\<lambda>_. [''b'', ''a''])\<rparr>
        in file_Load store ''prod'' \<lparr>lc_statFails = False, lc_modTime = 9, lc_readFails = False\<rparr>
             (last (fst (file_Save ''/tmp'' store ''prod'' (Some (SnapMem two_flags)) all_succeed [])))
           = Inr (Some (SnapMem two_flags), 9))"
proof -
  obtain j where j: "Encode [''b'', ''a''] (Some (SnapMem two_flags)) = Inr j"
    using codec_roundtrip_lemma [OF two_flags_ok, of "[''b'', ''a'']"] two_flags_keys by auto
  let ?store = "\<lparr>fs_dir = ''cache'', fs_codec = JSONCodec (\<lambda>_. ''{}'') (\<lambda>_. Some j) (\<lambda>_. [''b'', ''a''])\<rparr>"
  let ?r = "file_Save ''/tmp'' ?store ''prod'' (Some (SnapMem two_flags)) all_succeed []"
  have "snd ?r"
    by (simp add: file_Save_def file_path_eq JSONCodec_def j all_succeed_def Let_def)
  then have r: "?r = (fst ?r, True)" by (rule snd_True)
  have "file_Load ?store ''prod'' \<lparr>lc_statFails = False, lc_modTime = 9, lc_readFails = False\<rparr> (last (fst ?r))
      = Inr (Some (SnapMem two_flags), lc_modTime \<lparr>lc_statFails = False, lc_modTime = 9, lc_readFails = False\<rparr>)"
    by (rule saved_snapshot_loads [OF r two_flags_ok]) (auto simp: j two_flags_keys)
  then show ?thesis using j by (intro exI [of _ j]) (simp add: Let_def)
qed

end
