(* ===== verification/Client_Options.thy ===== *)
theory Client_Options
  imports Client_Eval Client_File
begin

text \<open>
  The construction of a client, the first half of \<^verbatim>\<open>pkg/client/client.go\<close>: the options, the hooks of the caller and their
  guards, \<^verbatim>\<open>New\<close> and \<^verbatim>\<open>Stats\<close>. A hook or logger may panic on any call. The store that is
  read at start is the outcome of its \<^verbatim>\<open>Load\<close>; what the updater, started before \<^verbatim>\<open>New\<close> looks at the state for the last time, has done by
  then is the argument \<^verbatim>\<open>progress\<close>. Durations are 64-bit nanoseconds.
\<close>

section \<open>Hooks\<close>

datatype Level = LogInfo | LogWarn | LogError

fun Level_String :: "Level \<Rightarrow> string" where
  "Level_String LogWarn = ''warn''"
| "Level_String LogError = ''error''"
| "Level_String LogInfo = ''info''"

datatype hook_call = HookEvaluation string Reason | HookUninitialized string | HookStateChanged State State
  | HookGeneration int64 | HookConnected bool | HookStaleness int | HookResync string | HookL2Write bool

text \<open>A hook of the caller panics on the calls its predicate accepts.\<close>

datatype metrics_hook = NopMetrics | Hook "hook_call \<Rightarrow> bool"

text \<open>The calls a hook has received, and whether the caller of it unwinds.\<close>

fun hook_method :: "metrics_hook \<Rightarrow> hook_call \<Rightarrow> hook_call list \<times> bool" where
  "hook_method NopMetrics c = ([], False)"
| "hook_method (Hook panics) c = ([c], panics c)"

text \<open>Each method of \<^verbatim>\<open>guardedMetrics\<close>: the deferred function recovers.\<close>

definition guarded_method :: "metrics_hook \<Rightarrow> hook_call \<Rightarrow> hook_call list \<times> bool" where
  "guarded_method m c = (case hook_method m c of (calls, panicked) \<Rightarrow> (calls, False))"

type_synonym log_line = "Level \<times> string"

text \<open>The logger is optional and its panics are recovered; the lines are those it is handed.\<close>

definition logf :: "(log_line \<Rightarrow> bool) option \<Rightarrow> log_line \<Rightarrow> log_line list \<times> bool" where
  "logf logger line =
     (case logger of
        None \<Rightarrow> ([], False)
      | Some panics \<Rightarrow> (case ([line], panics line) of (lines, panicked) \<Rightarrow> (lines, False)))"

section \<open>Options\<close>

type_synonym l2_load = "string \<Rightarrow> load_error + Snapshot option \<times> time"

record clientConfig =
  cc_ev :: client_evaluator
  cc_env :: string
  cc_source :: bool
  cc_l2 :: "l2_load option"
  cc_logger :: "(log_line \<Rightarrow> bool) option"
  cc_metrics :: "metrics_hook option"
  cc_deadStream :: int64
  cc_reconcile :: int64
  cc_fetchTimeout :: int64
  cc_staleWarn :: int64
  cc_backoff :: "(int \<Rightarrow> int64) option"

text \<open>A nil evaluator, source or store is \<^const>\<open>None\<close>. A codec of \<^const>\<open>None\<close> is the JSON codec.\<close>

datatype client_option =
    WithEnvironment string
  | WithEvaluator "client_evaluator option"
  | WithSource bool
  | WithL2Store "l2_load option"
  | WithL2DiskCache string
  | WithL2DiskCacheCodec string "Codec option"
  | WithLogger "(log_line \<Rightarrow> bool) option"
  | WithMetrics "metrics_hook option"
  | WithDeadStreamThreshold int64
  | WithReconcileInterval int64
  | WithFetchTimeout int64
  | WithStalenessWarning int64
  | WithBackoff "(int \<Rightarrow> int64) option"

text \<open>How a file store reads its files is the argument \<^verbatim>\<open>disk\<close>, the JSON codec the argument \<^verbatim>\<open>json\<close>.\<close>

fun apply_option :: "(FileStore \<Rightarrow> l2_load) \<Rightarrow> Codec \<Rightarrow> client_option \<Rightarrow> clientConfig \<Rightarrow> clientConfig" where
  "apply_option disk json (WithEnvironment env) c = c\<lparr>cc_env := env\<rparr>"
| "apply_option disk json (WithEvaluator ev) c = (case ev of None \<Rightarrow> c | Some e \<Rightarrow> c\<lparr>cc_ev := e\<rparr>)"
| "apply_option disk json (WithSource s) c = c\<lparr>cc_source := s\<rparr>"
| "apply_option disk json (WithL2Store s) c = c\<lparr>cc_l2 := s\<rparr>"
| "apply_option disk json (WithL2DiskCache dir) c = c\<lparr>cc_l2 := Some (disk (NewFileStore json dir None))\<rparr>"
| "apply_option disk json (WithL2DiskCacheCodec dir codec) c = c\<lparr>cc_l2 := Some (disk (NewFileStore json dir codec))\<rparr>"
| "apply_option disk json (WithLogger l) c = c\<lparr>cc_logger := l\<rparr>"
| "apply_option disk json (WithMetrics m) c = c\<lparr>cc_metrics := m\<rparr>"
| "apply_option disk json (WithDeadStreamThreshold d) c = c\<lparr>cc_deadStream := d\<rparr>"
| "apply_option disk json (WithReconcileInterval d) c = c\<lparr>cc_reconcile := d\<rparr>"
| "apply_option disk json (WithFetchTimeout d) c = c\<lparr>cc_fetchTimeout := d\<rparr>"
| "apply_option disk json (WithStalenessWarning d) c = c\<lparr>cc_staleWarn := d\<rparr>"
| "apply_option disk json (WithBackoff b) c = c\<lparr>cc_backoff := b\<rparr>"

definition minute :: int64 where "minute = 60 * second"
definition millisecond :: int64 where "millisecond = 1000000"

text \<open>The shipped evaluator is the argument \<^verbatim>\<open>ev\<close>.\<close>

definition default_config :: "client_evaluator \<Rightarrow> clientConfig" where
  "default_config ev =
     \<lparr>cc_ev = ev, cc_env = ''default'', cc_source = False, cc_l2 = None, cc_logger = None, cc_metrics = None,
      cc_deadStream = 30 * second, cc_reconcile = 5 * minute, cc_fetchTimeout = 5 * second,
      cc_staleWarn = 5 * minute, cc_backoff = None\<rparr>"

text \<open>The loop over the options, nil ones skipped, and the defaults filled in after it.\<close>

definition client_config :: "(FileStore \<Rightarrow> l2_load) \<Rightarrow> Codec \<Rightarrow> client_evaluator \<Rightarrow> client_option option list \<Rightarrow> clientConfig" where
  "client_config disk json ev opts =
     (let c = foldl (\<lambda>c o'. case o' of None \<Rightarrow> c | Some o' \<Rightarrow> apply_option disk json o' c) (default_config ev) opts;
          c = (case cc_backoff c of
                 None \<Rightarrow> c\<lparr>cc_backoff := Some (FullJitterBackoff (100 * millisecond) (30 * second))\<rparr>
               | Some _ \<Rightarrow> c)
      in case cc_metrics c of None \<Rightarrow> c\<lparr>cc_metrics := Some NopMetrics\<rparr> | Some _ \<Rightarrow> c)"

section \<open>New\<close>

record updater_config =
  uc_env :: string
  uc_deadStream :: int64
  uc_reconcile :: int64
  uc_fetchTimeout :: int64
  uc_backoff :: "(int \<Rightarrow> int64) option"

record new_client =
  nc_client :: client
  nc_reader :: reader
  nc_updater :: "updater_config option"
  nc_lines :: "log_line list"

definition the_hook :: "clientConfig \<Rightarrow> metrics_hook" where
  "the_hook c = (case cc_metrics c of None \<Rightarrow> NopMetrics | Some m \<Rightarrow> m)"

definition reader_of :: "clientConfig \<Rightarrow> reader" where
  "reader_of c =
     \<lparr>rd_ev = cc_ev c, rd_emitEval = (the_hook c \<noteq> NopMetrics),
      rd_hookPanics = (\<lambda>flag reason. snd (hook_method (the_hook c) (HookEvaluation flag reason))),
      rd_logger = (cc_logger c \<noteq> None)\<rparr>"

text \<open>The line of a transition.\<close>

definition state_line :: "change \<Rightarrow> log_line" where
  "state_line ch = (case ch of (from, to, reason) \<Rightarrow> (if to = StateHealthy then LogInfo else LogWarn, ''flag.client.state''))"

definition hydration_lines :: "(load_error + Snapshot option \<times> time) option \<Rightarrow> client \<Rightarrow> log_line list" where
  "hydration_lines l2 c =
     (case l2 of
        None \<Rightarrow> []
      | Some (Inl e) \<Rightarrow> (if e \<noteq> LoadErrNoSnapshot then [(LogWarn, ''flag.client.l2.load.failed'')] else [])
      | Some (Inr (None, writtenAt)) \<Rightarrow> []
      | Some (Inr (Some snap, writtenAt)) \<Rightarrow> map state_line (sm_changes (cl_sm c)) @ [(LogWarn, ''flag.client.l2.hydrated'')])"

definition New_client :: "(FileStore \<Rightarrow> l2_load) \<Rightarrow> Codec \<Rightarrow> client_evaluator \<Rightarrow> client_option option list \<Rightarrow>
    (client \<Rightarrow> client) \<Rightarrow> new_client" where
  "New_client disk json ev opts progress =
     (let cfg = client_config disk json ev opts;
          l2 = map_option (\<lambda>load. load (cc_env cfg)) (cc_l2 cfg);
          c = client_New (cc_env cfg) (cc_staleWarn cfg) l2;
          c' = (if cc_source cfg then progress c else c);
          say = (\<lambda>line. fst (logf (cc_logger cfg) line))
      in \<lparr>nc_client = c', nc_reader = reader_of cfg,
          nc_updater = (if cc_source cfg
             then Some \<lparr>uc_env = cc_env cfg, uc_deadStream = cc_deadStream cfg, uc_reconcile = cc_reconcile cfg,
                        uc_fetchTimeout = cc_fetchTimeout cfg, uc_backoff = cc_backoff cfg\<rparr>
             else None),
          nc_lines = concat (map say
             (hydration_lines l2 c @
              (if cc_source cfg then [] else [(LogWarn, ''flag.client.no_source'')]) @
              (if \<not> Serving (sm_cur (cl_sm c')) then [(LogError, ''flag.client.uninitialized'')] else [])))\<rparr>)"

section \<open>Status\<close>

record Stats =
  st_Env :: string
  st_State :: State
  st_Generation :: int64
  st_Flags :: nat
  st_AppliedAt :: time
  st_Staleness :: int
  st_FromDisk :: bool

text \<open>
  The status is put together from three loads, of the state, of the entry and of the last sign of life, and the updater may run
  between them: a client for each.
\<close>

definition stats_between :: "client \<Rightarrow> client \<Rightarrow> client \<Rightarrow> int64 \<Rightarrow> Stats" where
  "stats_between c1 c2 c3 now =
     (let s = \<lparr>st_Env = cl_env c1, st_State = sm_cur (cl_sm c1), st_Generation = 0, st_Flags = 0, st_AppliedAt = 0,
               st_Staleness = 0, st_FromDisk = False\<rparr>;
          s = (case cache_load (cl_cache c2) of
                 None \<Rightarrow> s
               | Some e \<Rightarrow> s\<lparr>st_Generation := en_gen e, st_Flags := snap_Len (snapshot_of (en_snap e)),
                              st_AppliedAt := en_appliedAt e, st_FromDisk := en_fromDisk e\<rparr>)
      in s\<lparr>st_Staleness := staleness now c3\<rparr>)"

definition client_Stats :: "client \<Rightarrow> int64 \<Rightarrow> Stats" where
  "client_Stats c now = stats_between c c c now"

lemma stats_coherent:
  "st_Generation (client_Stats c now) = Generation c" "Serving (st_State (client_Stats c now)) \<longleftrightarrow> Ready c"
  by (auto simp: client_Stats_def stats_between_def Let_def Generation_def Ready_def split: option.split)

text \<open>An update applied between the loads shows in one half of the status: a client with flags that says it has none.\<close>

lemma stats_torn:
  "let c = fresh_client ''prod'' 0 False;
       c' = applyUpdate 0 \<lparr>up_Snapshot = Some (SnapMem (NewMemSnapshot ''prod'' 7 [])), up_Generation = 7, up_InstanceID = ''i''\<rparr> c;
       s = stats_between c c' c' 0
   in st_State s = StateUninitialized \<and> st_Generation s = 7"
  by (simp add: Let_def stats_between_def fresh_client_def applyUpdate_def judge_def settle_def gen_of_def
      NewMemSnapshot_def mem_view_def newCache_def cache_load_def cache_apply_def instance_changed_def
      newStateMachine_def emit_def on_sm_def)

section \<open>What New promises\<close>

lemma guarded_silent: "\<not> snd (guarded_method m c)" "fst (guarded_method m c) = fst (hook_method m c)"
  by (simp_all add: guarded_method_def split: prod.split)

lemma logf_lines: "fst (logf l line) = (if l = None then [] else [line])" "\<not> snd (logf l line)"
  by (auto simp: logf_def split: option.split)

lemma fresh_sel [simp]:
  "cache_load (cl_cache (fresh_client env w b)) = None" "sm_cur (cl_sm (fresh_client env w b)) = StateUninitialized"
  "sm_changes (cl_sm (fresh_client env w b)) = []"
  by (simp_all add: fresh_client_def newCache_def cache_load_def newStateMachine_def)

lemma client_New_state:
  "client_New env w l2 =
     (case l2 of
        Some (Inr (Some snap, at)) \<Rightarrow> hydrateFromL2 l2 (fresh_client env w True)
      | _ \<Rightarrow> fresh_client env w (l2 \<noteq> None))"
  by (auto simp: client_New_def hydrateFromL2_def split: option.split sum.split)

text \<open>What a read finds after the construction.\<close>

definition loaded :: "(load_error + Snapshot option \<times> time) option \<Rightarrow> Snapshot option" where
  "loaded l2 = (case l2 of Some (Inr (snap, at)) \<Rightarrow> snap | _ \<Rightarrow> None)"

lemma client_New_loaded:
  "map_option en_snap (cache_load (cl_cache (client_New env w l2))) = loaded l2"
  "sm_cur (cl_sm (client_New env w l2)) = (if loaded l2 = None then StateUninitialized else StateDegradedStale)"
  by (auto simp: client_New_state loaded_def hydrateFromL2_def onHydratedFromDisk_def sm_set_def Let_def split: option.splits sum.splits)

lemma hydration_no_error: "(LogError, e) \<notin> set (hydration_lines l2 c)"
  by (auto simp: hydration_lines_def state_line_def split: option.splits sum.splits prod.splits if_splits)

text \<open>The construction never fails and never waits: whatever the options, their order and the hooks, the client is
  ready from the start if and only if the disk gave it a snapshot, and then it is degraded, not healthy. If it has
  none it answers every read with the default of the call and reason \<^verbatim>\<open>ERROR\<close>, and, unless its updater got hold of a
  snapshot meanwhile, the one line it writes at error level says so, provided there is a logger to hear it.
\<close>

theorem construction_is_loud:
  fixes disk json ev opts progress
  defines "cfg \<equiv> client_config disk json ev opts"
    and "n \<equiv> New_client disk json ev opts progress"
    and "n0 \<equiv> New_client disk json ev opts (\<lambda>c. c)"
  defines "snap \<equiv> loaded (map_option (\<lambda>load. load (cc_env cfg)) (cc_l2 cfg))"
  shows "(Ready (nc_client n0) \<longleftrightarrow> snap \<noteq> None) \<and>
    (snap \<noteq> None \<longrightarrow> sm_cur (cl_sm (nc_client n0)) = StateDegradedStale) \<and>
    (snap = None \<longrightarrow> fst (detail (nc_reader n0) t (cl_cache (nc_client n0)) flag def want ec st) = default_result def) \<and>
    ((LogError, ''flag.client.uninitialized'') \<in> set (nc_lines n) \<longleftrightarrow> cc_logger cfg \<noteq> None \<and> \<not> Ready (nc_client n)) \<and>
    (\<forall>e. (LogError, e) \<in> set (nc_lines n) \<longrightarrow> e = ''flag.client.uninitialized'')"
proof -
  define l2 where "l2 = map_option (\<lambda>load. load (cc_env cfg)) (cc_l2 cfg)"
  have c0: "nc_client n0 = client_New (cc_env cfg) (cc_staleWarn cfg) l2"
    by (simp add: n0_def New_client_def cfg_def l2_def Let_def)
  have ready: "Ready (nc_client n0) \<longleftrightarrow> snap \<noteq> None" "snap \<noteq> None \<longrightarrow> sm_cur (cl_sm (nc_client n0)) = StateDegradedStale"
    by (simp_all add: c0 Ready_def client_New_loaded snap_def l2_def)
  have none: "fst (detail (nc_reader n0) t (cl_cache (nc_client n0)) flag def want ec st) = default_result def" if "snap = None"
  proof -
    have "cache_load (cl_cache (nc_client n0)) = None"
      using client_New_loaded(1) [of "cc_env cfg" "cc_staleWarn cfg" l2] that by (simp add: c0 snap_def l2_def)
    then show ?thesis by (simp add: detail_def fst_guarded answer_def)
  qed
  have lines: "nc_lines n = concat (map (\<lambda>line. fst (logf (cc_logger cfg) line))
      (hydration_lines l2 (client_New (cc_env cfg) (cc_staleWarn cfg) l2) @
       (if cc_source cfg then [] else [(LogWarn, ''flag.client.no_source'')]) @
       (if \<not> Ready (nc_client n) then [(LogError, ''flag.client.uninitialized'')] else [])))"
    by (simp add: n_def New_client_def cfg_def l2_def Let_def Ready_def)
  have err: "(LogError, e) \<in> set (nc_lines n) \<longleftrightarrow>
      cc_logger cfg \<noteq> None \<and> \<not> Ready (nc_client n) \<and> e = ''flag.client.uninitialized''" for e
    unfolding lines using hydration_no_error [of e l2] by (auto simp: logf_lines split: if_splits)
  show ?thesis using ready none err by blast
qed

definition offline :: "client_option option list" where
  "offline = [None, Some (WithLogger (Some (\<lambda>_. True)))]"

theorem construction_is_loud_witness:
  "let n = New_client (\<lambda>f env. Inl LoadErrNoSnapshot) (JSONCodec (\<lambda>_. []) (\<lambda>_. None) (\<lambda>_. [])) (\<lambda>_ _ _ _ _. None) offline (\<lambda>c. c)
   in \<not> Ready (nc_client n) \<and> (LogError, ''flag.client.uninitialized'') \<in> set (nc_lines n)"
  using construction_is_loud [where disk = "\<lambda>f env. Inl LoadErrNoSnapshot" and json = "JSONCodec (\<lambda>_. []) (\<lambda>_. None) (\<lambda>_. [])"
      and ev = "\<lambda>_ _ _ _ _. None" and opts = offline and progress = "\<lambda>c. c"]
  by (simp add: client_config_def default_config_def loaded_def offline_def Let_def)

end
