(* ===== verification/Client_Threads.thy ===== *)
theory Client_Threads
  imports Client_Updater
begin

text \<open>
  The goroutines of one client side by side: the stream loop and the reconcile loop of \<^verbatim>\<open>pkg/client/updater.go\<close>,
  the writer of \<^verbatim>\<open>cache.go\<close> and \<^verbatim>\<open>Client.Close\<close>. A goroutine is at a place between two actions on the shared client, and
  each action (an atomic load or store, a call under a mutex, a call of a hook) is one step; any interleaving is allowed.
  \<^verbatim>\<open>Client_Updater\<close> models the same functions as if each ran alone, and the first property says that they do when nobody
  interferes. What a loop begins next, and when, is left open here, so the results hold for every
  control flow of \<^verbatim>\<open>run\<close>, \<^verbatim>\<open>cycle\<close> and \<^verbatim>\<open>reconcileLoop\<close>. Reading the staleness and its warning counts as one step.
\<close>

section \<open>Places\<close>

datatype place =
    Between
  | Answered Update
  | Offered Update
  | Publishing Update entry bool
  | Swapped Update entry
  | Queued Update entry
  | Applied Update entry
  | Confirming int64 int64
  | Framed Update "Update option"
  | Heard Update "Update option"
  | Compared Update "Update option" int64
  | Resyncing "Update option" string
  | Degrading string
  | Dying string
  | Reporting

definition on_writer :: "(asyncWriter \<Rightarrow> asyncWriter) \<Rightarrow> client \<Rightarrow> client" where
  "on_writer f c = c\<lparr>cl_cache := (cl_cache c)\<lparr>ca_writer := map_option f (ca_writer (cl_cache c))\<rparr>\<rparr>"

definition swap :: "entry \<Rightarrow> client \<Rightarrow> client" where
  "swap e c = c\<lparr>cl_cache := (cl_cache c)\<lparr>ca_l1 := Some e\<rparr>\<rparr>"

definition fetched :: "Update option \<Rightarrow> place" where
  "fetched outcome = (case outcome of None \<Rightarrow> Between | Some up \<Rightarrow> Answered up)"

text \<open>The next action from a place: \<^verbatim>\<open>fetchOnce\<close> once it has its answer, \<^verbatim>\<open>applyUpdate\<close> with \<^verbatim>\<open>cache.apply\<close> and
  \<^verbatim>\<open>enqueue\<close> taken apart, \<^verbatim>\<open>onFrame\<close>, and \<^verbatim>\<open>degrade\<close>.\<close>

fun advance :: "int64 \<Rightarrow> place \<Rightarrow> client \<Rightarrow> place \<times> client" where
  "advance now Between c = (Between, c)"
| "advance now (Answered up) c = (Offered up, markLive now c)"
| "advance now (Offered up) c =
     (case up_Snapshot up of
        None \<Rightarrow> (Confirming (Generation c) (up_Generation up), c)
      | Some snap \<Rightarrow>
          (case judge now up snap (cache_load (cl_cache c)) of
             Confirm held source \<Rightarrow> (Confirming held source, c)
           | Publish e gap \<Rightarrow> (Publishing up e gap, c)))"
| "advance now (Publishing up e gap) c =
     (if gap then (Publishing up e False, emit (SigResync ''generation_gap'') c) else (Swapped up e, swap e c))"
| "advance now (Swapped up e) c =
     (if ca_writer (cl_cache c) = None \<or> en_fromDisk e then (Applied up e, c)
      else (Queued up e, on_writer (w_store e) c))"
| "advance now (Queued up e) c = (Applied up e, on_writer w_signal c)"
| "advance now (Applied up e) c = (Confirming (en_gen e) (up_Generation up), emit (SigGeneration (en_gen e)) c)"
| "advance now (Confirming held source) c = (Between, on_sm (onLiveConfirmation held source) c)"
| "advance now (Framed up fetch) c = (if IsHeartbeat up then Heard up fetch else Offered up, markLive now c)"
| "advance now (Heard up fetch) c = (Compared up fetch (Generation c), c)"
| "advance now (Compared up fetch held) c =
     (let changed = instance_changed (cache_load (cl_cache c)) (up_InstanceID up)
      in (if changed \<or> slt held (up_Generation up)
          then Resyncing fetch (if changed then ''instance_changed'' else ''heartbeat_gap'')
          else Confirming held (up_Generation up), c))"
| "advance now (Resyncing fetch reason) c = (fetched fetch, emit (SigResync reason) c)"
| "advance now (Degrading reason) c = (if cache_load (cl_cache c) = None then Between else Dying reason, c)"
| "advance now (Dying reason) c = (Reporting, on_sm (onStreamDead reason) c)"
| "advance now Reporting c = (Between, reportStaleness now c)"

definition resting :: "place \<Rightarrow> bool" where
  "resting p \<longleftrightarrow> (case p of Between \<Rightarrow> True | _ \<Rightarrow> False)"

lemma resting_iff [simp]: "resting p \<longleftrightarrow> p = Between"
  by (simp add: resting_def split: place.split)

text \<open>What a goroutine may set out to do. The reconcile loop only ever fetches. The hook calls with which a pass reports its
  connection and its dead stream stand between the tasks and touch nothing shared, so they are left out here.\<close>

datatype goroutine = Streaming | Reconciling

datatype task = Fetch "Update option" | Receive Update "Update option" | Degrade string | Report

fun set_out :: "task \<Rightarrow> place" where
  "set_out (Fetch outcome) = fetched outcome"
| "set_out (Receive up fetch) = Framed up fetch"
| "set_out (Degrade reason) = Degrading reason"
| "set_out Report = Reporting"

definition its_task :: "goroutine \<Rightarrow> task \<Rightarrow> bool" where
  "its_task g t \<longleftrightarrow> (case t of Fetch outcome \<Rightarrow> True | _ \<Rightarrow> g = Streaming)"

section \<open>The client and its goroutines\<close>

record system =
  sy_client :: client
  sy_at :: "goroutine \<Rightarrow> place"
  sy_gone :: "goroutine \<Rightarrow> bool"
  sy_closing :: bool

definition start_system :: "client \<Rightarrow> system" where
  "start_system c = \<lparr>sy_client = c, sy_at = (\<lambda>g. Between), sy_gone = (\<lambda>g. False), sy_closing = False\<rparr>"

datatype happening = Begin goroutine task | Move goroutine int64 | WriterMove bool | Return goroutine
  | CloseCache | CloseState

definition all_gone :: "system \<Rightarrow> bool" where
  "all_gone s \<longleftrightarrow> sy_gone s Streaming \<and> sy_gone s Reconciling"

definition writer_exited :: "client \<Rightarrow> bool" where
  "writer_exited c \<longleftrightarrow> (case ca_writer (cl_cache c) of None \<Rightarrow> True | Some w \<Rightarrow> (case w_run w of Exited \<Rightarrow> True | _ \<Rightarrow> False))"

lemma writer_exited_iff:
  "writer_exited c \<longleftrightarrow> (case ca_writer (cl_cache c) of None \<Rightarrow> True | Some w \<Rightarrow> w_run w = Exited)"
  by (simp add: writer_exited_def split: option.split run_pc.split)

text \<open>
  \<^verbatim>\<open>Close\<close> waits for both loops to return before it closes the writer, waits for the writer's goroutine to exit, and
  only then moves the state machine.
\<close>

fun happen :: "happening \<Rightarrow> system \<Rightarrow> system" where
  "happen (Begin g t) s =
     (if sy_gone s g \<or> \<not> resting (sy_at s g) \<or> \<not> its_task g t then s
      else s\<lparr>sy_at := (sy_at s)(g := set_out t)\<rparr>)"
| "happen (Move g now) s =
     (case advance now (sy_at s g) (sy_client s) of
        (p, c) \<Rightarrow> s\<lparr>sy_client := c, sy_at := (sy_at s)(g := p)\<rparr>)"
| "happen (WriterMove pick) s = s\<lparr>sy_client := on_writer (run_step pick) (sy_client s)\<rparr>"
| "happen (Return g) s = (if resting (sy_at s g) then s\<lparr>sy_gone := (sy_gone s)(g := True)\<rparr> else s)"
| "happen CloseCache s =
     (if all_gone s then s\<lparr>sy_client := on_writer w_close (sy_client s), sy_closing := True\<rparr> else s)"
| "happen CloseState s =
     (if sy_closing s \<and> writer_exited (sy_client s) then s\<lparr>sy_client := on_sm sm_close (sy_client s)\<rparr> else s)"

definition after :: "happening list \<Rightarrow> system \<Rightarrow> system" where
  "after hs s = fold happen hs s"

lemma after_simps [simp]: "after [] s = s" "after (h # hs) s = after hs (happen h s)"
  "after (hs @ hs') s = after hs' (after hs s)"
  by (simp_all add: after_def)

section \<open>Alone, each task does what the sequential function does\<close>

text \<open>What is left to do at a place, as one function.\<close>

definition announce :: "Update \<Rightarrow> entry \<Rightarrow> client \<Rightarrow> client" where
  "announce up e c = on_sm (onLiveConfirmation (en_gen e) (up_Generation up)) (emit (SigGeneration (en_gen e)) c)"

definition compare_heartbeat :: "int64 \<Rightarrow> Update \<Rightarrow> Update option \<Rightarrow> int64 \<Rightarrow> client \<Rightarrow> client" where
  "compare_heartbeat now up fetch held c =
     (let changed = instance_changed (cache_load (cl_cache c)) (up_InstanceID up)
      in if changed \<or> slt held (up_Generation up)
         then snd (fetchOnce now fetch (emit (SigResync (if changed then ''instance_changed'' else ''heartbeat_gap'')) c))
         else on_sm (onLiveConfirmation held (up_Generation up)) c)"

fun remaining :: "int64 \<Rightarrow> place \<Rightarrow> client \<Rightarrow> client" where
  "remaining now Between c = c"
| "remaining now (Answered up) c = applyUpdate now up (markLive now c)"
| "remaining now (Offered up) c = applyUpdate now up c"
| "remaining now (Publishing up e gap) c = settle up (Publish e gap) c"
| "remaining now (Swapped up e) c =
     announce up e (if en_fromDisk e then c else on_writer (enqueue e) c)"
| "remaining now (Queued up e) c = announce up e (on_writer w_signal c)"
| "remaining now (Applied up e) c = announce up e c"
| "remaining now (Confirming held source) c = on_sm (onLiveConfirmation held source) c"
| "remaining now (Framed up fetch) c = onFrame now fetch up c"
| "remaining now (Heard up fetch) c = compare_heartbeat now up fetch (Generation c) c"
| "remaining now (Compared up fetch held) c = compare_heartbeat now up fetch held c"
| "remaining now (Resyncing fetch reason) c = snd (fetchOnce now fetch (emit (SigResync reason) c))"
| "remaining now (Degrading reason) c = degrade now reason c"
| "remaining now (Dying reason) c = reportStaleness now (on_sm (onStreamDead reason) c)"
| "remaining now Reporting c = reportStaleness now c"

fun work_left :: "place \<Rightarrow> nat" where
  "work_left Between = 0"
| "work_left (Confirming held source) = 1"
| "work_left Reporting = 1"
| "work_left (Applied up e) = 2"
| "work_left (Queued up e) = 3"
| "work_left (Swapped up e) = 4"
| "work_left (Publishing up e gap) = (if gap then 6 else 5)"
| "work_left (Offered up) = 7"
| "work_left (Answered up) = 8"
| "work_left (Resyncing fetch reason) = 9"
| "work_left (Compared up fetch held) = 10"
| "work_left (Heard up fetch) = 11"
| "work_left (Framed up fetch) = 12"
| "work_left (Dying reason) = 2"
| "work_left (Degrading reason) = 3"

lemma work_left_less: "p \<noteq> Between \<Longrightarrow> work_left (fst (advance now p c)) < work_left p"
  by (cases p) (auto simp: fetched_def Let_def split: option.split verdict.split)

lemma work_left_bound: "work_left p \<le> 12"
  by (cases p) auto

lemma on_writer_sel [simp]:
  "cache_load (cl_cache (on_writer f c)) = cache_load (cl_cache c)" "cl_sm (on_writer f c) = cl_sm c"
  "Generation (on_writer f c) = Generation c" "Ready (on_writer f c) = Ready c"
  "ca_writer (cl_cache (on_writer f c)) = map_option f (ca_writer (cl_cache c))"
  by (simp_all add: on_writer_def cache_load_def Generation_def Ready_def)

lemma swap_sel [simp]:
  "cache_load (cl_cache (swap e c)) = Some e" "cl_sm (swap e c) = cl_sm c" "Generation (swap e c) = en_gen e"
  "Ready (swap e c) = Ready c" "ca_writer (cl_cache (swap e c)) = ca_writer (cl_cache c)"
  by (simp_all add: swap_def cache_load_def Generation_def Ready_def)

lemma on_writer_none: "ca_writer (cl_cache c) = None \<Longrightarrow> on_writer f c = c"
  by (simp add: on_writer_def)

lemma on_writer_twice: "on_writer w_signal (on_writer (w_store e) c) = on_writer (enqueue e) c"
  by (cases "ca_writer (cl_cache c)") (simp_all add: on_writer_def enqueue_def)

lemma settle_Publish:
  "settle up (Publish e gap) c =
     remaining now (Swapped up e) (swap e (if gap then emit (SigResync ''generation_gap'') c else c))"
  by (cases gap; cases "ca_writer (cl_cache c)")
    (simp_all add: settle_def announce_def swap_def on_writer_def cache_apply_def emit_def on_sm_def Let_def)

lemma settle_Confirm: "settle up (Confirm held source) c = on_sm (onLiveConfirmation held source) c"
  by (simp add: settle_def)

lemma remaining_advance:
  "advance now p c = (p', c') \<Longrightarrow> remaining now p' c' = remaining now p c"
proof (cases p)
  case (Swapped up e)
  then show "advance now p c = (p', c') \<Longrightarrow> ?thesis"
    by (auto simp: on_writer_twice on_writer_none split: if_splits)
next
  case (Publishing up e gap)
  then show "advance now p c = (p', c') \<Longrightarrow> ?thesis"
    by (auto simp: settle_Publish [of _ _ _ _ now] split: if_splits)
qed (auto simp: fetched_def fetchOnce_def applyUpdate_def onFrame_def degrade_def Let_def announce_def compare_heartbeat_def settle_Confirm
    split: option.splits verdict.splits if_splits)

definition alone :: "int64 \<Rightarrow> nat \<Rightarrow> place \<times> client \<Rightarrow> place \<times> client" where
  "alone now n = (\<lambda>(p, c). advance now p c) ^^ n"

lemma alone_settles: "work_left p \<le> n \<Longrightarrow> alone now n (p, c) = (Between, remaining now p c)"
proof (induction n arbitrary: p c)
  case 0
  then show ?case by (cases p) (auto simp: alone_def split: if_splits)
next
  case (Suc n)
  obtain p' c' where a: "advance now p c = (p', c')" by (rule prod.exhaust)
  have "work_left p' \<le> n"
    using work_left_less [of p now c] Suc.prems a by (cases "p = Between") auto
  then have "alone now n (p', c') = (Between, remaining now p c)"
    using Suc.IH [of p' c'] remaining_advance [OF a] by simp
  then show ?case by (simp add: alone_def funpow_swap1 a del: funpow.simps(2) add: funpow_Suc_right)
qed

lemma remaining_set_out:
  "remaining now (set_out (Fetch outcome)) c = snd (fetchOnce now outcome c)"
  "remaining now (set_out (Receive up fetch)) c = onFrame now fetch up c"
  "remaining now (set_out (Degrade reason)) c = degrade now reason c"
  "remaining now (set_out Report) c = reportStaleness now c"
  by (simp_all add: fetched_def fetchOnce_def split: option.split)

text \<open>What a goroutine does when nobody moves in between.\<close>

definition undisturbed :: "goroutine \<Rightarrow> task \<Rightarrow> int64 \<Rightarrow> happening list" where
  "undisturbed g t now = Begin g t # replicate 12 (Move g now)"

lemma after_moves:
  "after (replicate n (Move g now)) s =
     (case alone now n (sy_at s g, sy_client s) of
        (p, c) \<Rightarrow> s\<lparr>sy_client := c, sy_at := (sy_at s)(g := p)\<rparr>)"
proof (induction n arbitrary: s)
  case (Suc n)
  obtain p c where a: "advance now (sy_at s g) (sy_client s) = (p, c)" by (rule prod.exhaust)
  have "alone now (Suc n) (sy_at s g, sy_client s) = alone now n (p, c)"
    by (simp add: alone_def funpow_Suc_right a del: funpow.simps(2))
  then show ?case using a by (simp add: Suc.IH split: prod.split cong: if_cong)
qed (simp add: alone_def)

lemma after_undisturbed:
  assumes "sy_at s g = Between" and "\<not> sy_gone s g" and "its_task g t"
  shows "after (undisturbed g t now) s =
    s\<lparr>sy_client := remaining now (set_out t) (sy_client s), sy_at := (sy_at s)(g := Between)\<rparr>"
  using assms alone_settles [OF work_left_bound, of now "set_out t" "sy_client s"]
  by (simp add: undisturbed_def after_moves del: replicate.simps)

definition sequentially :: "int64 \<Rightarrow> task \<Rightarrow> client \<Rightarrow> client" where
  "sequentially now t c =
     (case t of
        Fetch outcome \<Rightarrow> snd (fetchOnce now outcome c)
      | Receive up fetch \<Rightarrow> onFrame now fetch up c
      | Degrade reason \<Rightarrow> degrade now reason c
      | Report \<Rightarrow> reportStaleness now c)"

lemma remaining_sequentially: "remaining now (set_out t) c = sequentially now t c"
  by (cases t) (simp_all add: remaining_set_out sequentially_def del: set_out.simps)

text \<open>Alone, the steps are the functions. A task that a loop carries out with nobody moving in between ends within twelve
  of its actions, and leaves the client exactly as \<^verbatim>\<open>fetchOnce\<close>, \<^verbatim>\<open>onFrame\<close>, \<^verbatim>\<open>degrade\<close> or \<^verbatim>\<open>reportStaleness\<close>,
  run as one function, leave it.\<close>

theorem task_alone:
  assumes "sy_at s g = Between" and "\<not> sy_gone s g" and "its_task g t"
  shows "after (Begin g t # replicate 12 (Move g now)) s =
    s\<lparr>sy_client := sequentially now t (sy_client s), sy_at := (sy_at s)(g := Between)\<rparr>"
  using after_undisturbed [OF assms] by (simp only: undisturbed_def remaining_sequentially)

theorem task_alone_witness:
  "sy_client (after (Begin Streaming (Receive (update_of 8 ''i1'') None) # replicate 12 (Move Streaming 9)) (start_system demo_client))
     = onFrame 9 None (update_of 8 ''i1'') demo_client"
  using task_alone [of "start_system demo_client" Streaming "Receive (update_of 8 ''i1'') None" 9]
  by (simp add: start_system_def its_task_def sequentially_def)

section \<open>Non-interference\<close>

text \<open>
  An assertion at each place, with one about the client, in the manner of Owicki and Gries: the steps of a goroutine keep
  its own assertions, and those of the other one.
\<close>

fun task_updates :: "task \<Rightarrow> Update list" where
  "task_updates (Fetch outcome) = to_list outcome"
| "task_updates (Receive up fetch) = up # to_list fetch"
| "task_updates _ = []"

fun happening_updates :: "happening \<Rightarrow> Update list" where
  "happening_updates (Begin g t) = task_updates t"
| "happening_updates _ = []"

definition offered :: "happening list \<Rightarrow> Update list" where
  "offered hs = concat (map happening_updates hs)"

locale undisturbed_assertions =
  fixes G :: "client \<Rightarrow> bool" and L :: "client \<Rightarrow> place \<Rightarrow> bool" and U :: "Update \<Rightarrow> bool"
  assumes begins: "G c \<Longrightarrow> list_all U (task_updates t) \<Longrightarrow> L c (set_out t)"
    and own: "G c \<Longrightarrow> L c p \<Longrightarrow> advance now p c = (p', c') \<Longrightarrow> G c' \<and> L c' p'"
    and other: "G c \<Longrightarrow> L c p \<Longrightarrow> L c q \<Longrightarrow> advance now p c = (p', c') \<Longrightarrow> L c' q"
    and writer: "G c \<Longrightarrow> G (on_writer f c)" "L c p \<Longrightarrow> L (on_writer f c) p"
    and closed: "G c \<Longrightarrow> G (on_sm sm_close c)" "L c p \<Longrightarrow> L (on_sm sm_close c) p"
begin

definition holds :: "system \<Rightarrow> bool" where
  "holds s \<longleftrightarrow> G (sy_client s) \<and> (\<forall>g. L (sy_client s) (sy_at s g))"

lemma holds_happen: "holds s \<Longrightarrow> list_all U (happening_updates h) \<Longrightarrow> holds (happen h s)"
proof (cases h)
  case (Move g now)
  assume s: "holds s"
  obtain p c where a: "advance now (sy_at s g) (sy_client s) = (p, c)" by (rule prod.exhaust)
  have "G c \<and> L c p" using s own [OF _ _ a] by (simp add: holds_def)
  moreover have "L c (sy_at s g')" for g' using s other [OF _ _ _ a] by (simp add: holds_def)
  ultimately show ?thesis by (simp add: Move a holds_def)
qed (auto simp: holds_def begins writer closed)

lemma holds_after: "holds s \<Longrightarrow> list_all U (offered hs) \<Longrightarrow> holds (after hs s)"
  by (induction hs arbitrary: s) (simp_all add: offered_def holds_happen)

end

section \<open>Ready means config\<close>

text \<open>The two ways an update can mislead the state machine: a heartbeat that reports no positive generation confirms a client
  that holds nothing, and a snapshot frame that reports more than its snapshot's generation leaves the client that
  applies it unconfirmed.\<close>

definition empty_beat :: "Update \<Rightarrow> bool" where
  "empty_beat up \<longleftrightarrow> (case up_Snapshot up of None \<Rightarrow> sle (up_Generation up) 0 | Some _ \<Rightarrow> False)"

definition overclaims :: "Update \<Rightarrow> bool" where
  "overclaims up \<longleftrightarrow> (case up_Snapshot up of None \<Rightarrow> False | Some snap \<Rightarrow> slt (gen_of snap) (up_Generation up))"

abbreviation telling :: "Update \<Rightarrow> bool" where "telling up \<equiv> \<not> empty_beat up"

abbreviation honest :: "Update \<Rightarrow> bool" where "honest up \<equiv> \<not> overclaims up"

text \<open>What a goroutine knows at each place, given whether the client holds an entry: first while no heartbeat was empty.\<close>

fun knows :: "bool \<Rightarrow> place \<Rightarrow> bool" where
  "knows has (Answered up) \<longleftrightarrow> telling up"
| "knows has (Offered up) \<longleftrightarrow> telling up"
| "knows has (Swapped up e) \<longleftrightarrow> has"
| "knows has (Queued up e) \<longleftrightarrow> has"
| "knows has (Applied up e) \<longleftrightarrow> has"
| "knows has (Confirming held source) \<longleftrightarrow> has \<or> slt held source"
| "knows has (Framed up fetch) \<longleftrightarrow> telling up \<and> list_all telling (to_list fetch)"
| "knows has (Heard up fetch) \<longleftrightarrow> telling up \<and> IsHeartbeat up \<and> list_all telling (to_list fetch)"
| "knows has (Compared up fetch held) \<longleftrightarrow>
     telling up \<and> IsHeartbeat up \<and> list_all telling (to_list fetch) \<and> (has \<or> held = 0)"
| "knows has (Resyncing fetch reason) \<longleftrightarrow> list_all telling (to_list fetch)"
| "knows has (Dying reason) \<longleftrightarrow> has"
| "knows has _ \<longleftrightarrow> True"

definition has_config :: "client \<Rightarrow> bool" where
  "has_config c \<longleftrightarrow> cache_load (cl_cache c) \<noteq> None"

lemma knows_fetched: "list_all telling (to_list fetch) \<Longrightarrow> knows has (fetched fetch)"
  by (cases fetch) (simp_all add: fetched_def to_list_def)

lemma knows_more: "knows has p \<Longrightarrow> (has \<Longrightarrow> has') \<Longrightarrow> knows has' p"
  by (cases p) auto

lemma config_kept: "has_config c \<Longrightarrow> advance now p c = (p', c') \<Longrightarrow> has_config c'"
  by (cases p) (auto simp: has_config_def Let_def split: option.splits verdict.splits if_splits)

lemma no_config_generation: "\<not> has_config c \<Longrightarrow> Generation c = 0"
  by (simp add: has_config_def Generation_def)

lemma sm_set_serving: "Serving (sm_cur (snd (sm_set to reason sm))) \<Longrightarrow> Serving (sm_cur sm) \<or> Serving to"
  by (auto simp: sm_set_def Let_def split: if_splits)

definition settled_state :: "client \<Rightarrow> bool" where
  "settled_state c \<longleftrightarrow> Ready c \<or> \<not> open_client c"

lemma sm_set_cases: "snd (sm_set to reason sm) = sm \<or> sm_cur (snd (sm_set to reason sm)) = to"
  by (simp add: sm_set_def Let_def)

lemma sm_set_closed: "sm_cur sm = StateClosed \<Longrightarrow> snd (sm_set to reason sm) = sm"
  by (simp add: sm_set_def Let_def)

lemma confirmed_Ready: "Ready (on_sm (onLiveConfirmation held source) c) \<Longrightarrow> Ready c \<or> \<not> slt held source"
  by (auto simp: Ready_def onLiveConfirmation_def split: if_splits)

lemma Ready_sel [simp]:
  "Ready (emit x c) = Ready c" "Ready (markLive now c) = Ready c" "Ready (reportStaleness now c) = Ready c"
  by (simp_all add: Ready_def)

lemma has_config_sel [simp]:
  "has_config (emit x c) = has_config c" "has_config (markLive now c) = has_config c"
  "has_config (reportStaleness now c) = has_config c" "has_config (on_writer f c) = has_config c"
  "has_config (on_sm h c) = has_config c" "has_config (swap e c)"
  by (simp_all add: has_config_def)

lemma telling_heartbeat: "telling up \<Longrightarrow> up_Snapshot up = None \<Longrightarrow> slt 0 (up_Generation up)"
  by (auto simp: empty_beat_def sle_def slt_def)

lemma knows_own:
  assumes "Ready c \<longrightarrow> has_config c" and "knows (has_config c) p" and "advance now p c = (p', c')"
  shows "(Ready c' \<longrightarrow> has_config c') \<and> knows (has_config c') p'"
proof (cases p)
  case (Offered up)
  show ?thesis
  proof (cases "up_Snapshot up")
    case None
    then have "slt 0 (up_Generation up)" using assms(2) Offered telling_heartbeat by simp
    then show ?thesis using assms None Offered no_config_generation [of c] by (cases "has_config c") auto
  next
    case (Some snap)
    show ?thesis
    proof (cases "judge now up snap (cache_load (cl_cache c))")
      case (Confirm held source)
      then have "has_config c" by (auto simp: judge_cases has_config_def split: option.splits)
      then show ?thesis using assms Some Offered Confirm by auto
    next
      case (Publish e gap)
      then show ?thesis using assms Some Offered by auto
    qed
  qed
next
  case (Compared up fetch held)
  then have "slt 0 (up_Generation up)" using assms(2) telling_heartbeat by (auto simp: IsHeartbeat_def)
  then show ?thesis using assms Compared by (auto simp: Let_def split: if_splits)
next
  case (Heard up fetch)
  then show ?thesis using assms no_config_generation [of c] by (cases "has_config c") auto
next
  case (Confirming held source)
  then show ?thesis using assms confirmed_Ready by auto
qed (use assms knows_fetched no_config_generation [of c] in \<open>auto simp: has_config_def split: if_splits\<close>)

interpretation readiness_threads: undisturbed_assertions
  "\<lambda>c. Ready c \<longrightarrow> has_config c" "\<lambda>c. knows (has_config c)" telling
proof unfold_locales
  fix c t
  show "list_all telling (task_updates t) \<Longrightarrow> knows (has_config c) (set_out t)"
    by (cases t) (auto intro: knows_fetched)
next
  fix c p q now p' c'
  assume "knows (has_config c) q" "advance now p c = (p', c')"
  then show "knows (has_config c') q" using config_kept [of c now p p' c'] by (blast intro: knows_more)
next
  fix c p now p' c'
  assume "Ready c \<longrightarrow> has_config c" "knows (has_config c) p" "advance now p c = (p', c')"
  then show "(Ready c' \<longrightarrow> has_config c') \<and> knows (has_config c') p'" by (rule knows_own)
qed (auto simp: Ready_def sm_close_def dest!: sm_set_serving)

text \<open>And while no snapshot frame claimed more than its snapshot: what is published confirms the client.\<close>

fun confirms :: "place \<Rightarrow> bool" where
  "confirms (Answered up) \<longleftrightarrow> honest up"
| "confirms (Offered up) \<longleftrightarrow> honest up"
| "confirms (Publishing up e gap) \<longleftrightarrow> \<not> slt (en_gen e) (up_Generation up)"
| "confirms (Swapped up e) \<longleftrightarrow> \<not> slt (en_gen e) (up_Generation up)"
| "confirms (Queued up e) \<longleftrightarrow> \<not> slt (en_gen e) (up_Generation up)"
| "confirms (Applied up e) \<longleftrightarrow> \<not> slt (en_gen e) (up_Generation up)"
| "confirms (Framed up fetch) \<longleftrightarrow> honest up \<and> list_all honest (to_list fetch)"
| "confirms (Heard up fetch) \<longleftrightarrow> list_all honest (to_list fetch)"
| "confirms (Compared up fetch held) \<longleftrightarrow> list_all honest (to_list fetch)"
| "confirms (Resyncing fetch reason) \<longleftrightarrow> list_all honest (to_list fetch)"
| "confirms _ \<longleftrightarrow> True"

lemma confirms_fetched: "list_all honest (to_list fetch) \<Longrightarrow> confirms (fetched fetch)"
  by (cases fetch) (simp_all add: fetched_def to_list_def)

lemma confirms_own: "confirms p \<Longrightarrow> advance now p c = (p', c') \<Longrightarrow> confirms p'"
proof (cases p)
  case (Offered up)
  assume "confirms p" "advance now p c = (p', c')"
  then show ?thesis
    using publish_entry Offered by (fastforce simp: overclaims_def update_entry_def split: option.splits verdict.splits)
qed (auto simp: Let_def confirms_fetched split: option.splits if_splits)

interpretation confirmation_threads: undisturbed_assertions "\<lambda>c. True" "\<lambda>c. confirms" honest
proof unfold_locales
  fix t
  show "list_all honest (task_updates t) \<Longrightarrow> confirms (set_out t)"
    by (cases t) (auto intro: confirms_fetched)
qed (auto intro: confirms_own)

text \<open>Places from which the goroutine will move the state machine to \<^verbatim>\<open>HEALTHY\<close>.\<close>

fun promises :: "place \<Rightarrow> bool" where
  "promises (Swapped up e) = True"
| "promises (Queued up e) = True"
| "promises (Applied up e) = True"
| "promises (Confirming held source) = (\<not> slt held source)"
| "promises _ = False"

lemma settled_state_set: "settled_state c \<Longrightarrow> Serving to \<Longrightarrow> settled_state (on_sm (\<lambda>sm. snd (sm_set to r sm)) c)"
  by (auto simp: settled_state_def open_client_def Ready_def sm_set_def Let_def)

lemma settled_set: "Serving to \<Longrightarrow> settled_state (on_sm (\<lambda>sm. snd (sm_set to r sm)) c)"
  by (auto simp: settled_state_def open_client_def Ready_def sm_set_def Let_def)

lemma settled_sel [simp]:
  "settled_state (emit x c) = settled_state c" "settled_state (markLive now c) = settled_state c"
  "settled_state (reportStaleness now c) = settled_state c" "settled_state (on_writer f c) = settled_state c"
  "settled_state (swap e c) = settled_state c"
  by (simp_all add: settled_state_def open_client_def)

lemma settled_live: "\<not> slt held source \<Longrightarrow> settled_state (on_sm (onLiveConfirmation held source) c)"
  using settled_set [of StateHealthy "''recovered''" c] by (simp add: onLiveConfirmation_def on_sm_def)

lemma settled_kept: "settled_state c \<Longrightarrow> advance now p c = (p', c') \<Longrightarrow> settled_state c'"
proof (cases p)
  case (Confirming held source)
  then show "settled_state c \<Longrightarrow> advance now p c = (p', c') \<Longrightarrow> ?thesis"
    using settled_live [of held source c]
    by (cases "slt held source") (auto simp: settled_state_def onLiveConfirmation_def open_client_def Ready_def)
next
  case (Dying reason)
  then show "settled_state c \<Longrightarrow> advance now p c = (p', c') \<Longrightarrow> ?thesis"
    using settled_set [of StateDegradedStale reason c] by (auto simp: onStreamDead_def on_sm_def)
qed (auto simp: Let_def split: option.splits verdict.splits if_splits)

lemma promise_kept:
  "promises p \<Longrightarrow> confirms p \<Longrightarrow> advance now p c = (p', c') \<Longrightarrow> promises p' \<or> settled_state c'"
  by (cases p) (auto simp: settled_live split: if_splits)

lemma config_promised:
  "\<not> has_config c \<Longrightarrow> has_config c' \<Longrightarrow> advance now p c = (p', c') \<Longrightarrow> promises p'"
  by (cases p) (auto simp: has_config_def Let_def split: option.splits verdict.splits if_splits)

definition config_settled :: "system \<Rightarrow> bool" where
  "config_settled s \<longleftrightarrow>
     (has_config (sy_client s) \<longrightarrow> settled_state (sy_client s) \<or> (\<exists>g. promises (sy_at s g)))"

lemma config_settled_happen:
  assumes "confirmation_threads.holds s" and "config_settled s"
  shows "config_settled (happen h s)"
proof (cases h)
  case (Begin g t)
  have "promises (sy_at (happen h s) g')" if "promises (sy_at s g')" for g'
    using that Begin by auto
  moreover have "sy_client (happen h s) = sy_client s" by (simp add: Begin)
  ultimately show ?thesis using assms(2) unfolding config_settled_def by metis
next
  case (Move g now)
  obtain p c where a: "advance now (sy_at s g) (sy_client s) = (p, c)" by (rule prod.exhaust)
  have k: "confirms (sy_at s g)"
    using assms(1) by (simp add: confirmation_threads.holds_def)
  have "settled_state c \<or> (\<exists>g'. promises (((sy_at s)(g := p)) g'))" if has: "has_config c"
  proof (cases "has_config (sy_client s)")
    case True
    then consider "settled_state (sy_client s)" | g' where "promises (sy_at s g')"
      using assms(2) by (auto simp: config_settled_def)
    then show ?thesis
    proof cases
      case 1
      then show ?thesis using settled_kept [OF _ a] by blast
    next
      case (2 g')
      then show ?thesis
        using promise_kept [OF _ k a] by (cases "g' = g") (auto intro: exI [of _ g] exI [of _ g'])
    qed
  next
    case False
    then show ?thesis using config_promised [OF _ has a] by (auto intro: exI [of _ g])
  qed
  then show ?thesis by (simp add: config_settled_def Move a)
next
  case CloseState
  have "settled_state (on_sm sm_close c)" for c
    by (auto simp: settled_state_def open_client_def sm_close_def sm_set_def Let_def)
  then show ?thesis using assms(2) by (auto simp: config_settled_def CloseState)
qed (use assms(2) in \<open>auto simp: config_settled_def\<close>)

lemma config_settled_after:
  assumes "confirmation_threads.holds s" and "config_settled s" and "list_all honest (offered hs)"
  shows "config_settled (after hs s)"
  using assms
proof (induction hs arbitrary: s)
  case (Cons h hs)
  then show ?case
    using confirmation_threads.holds_happen [of s h] config_settled_happen [of s h] by (simp add: offered_def)
qed simp

text \<open>C23. Ready means config, under any interleaving and for any source. However the two loops, the writer and \<^verbatim>\<open>Close\<close>
  interleave, and whatever updates the source delivers: a client that is ready holds an entry to evaluate against,
  unless a heartbeat it received reported a generation that is not positive; and whenever neither loop is in the
  middle of a task, a client that holds an entry and is not closed is ready, unless a snapshot frame it received
  reported a generation beyond its snapshot's. Both exceptions are real, as the witness and
  \<^verbatim>\<open>zero_generation_ready\<close> show.\<close>

theorem ready_under_interleaving:
  fixes l2 :: "('e + Snapshot option \<times> time) option" and env w hs
  defines "s \<equiv> after hs (start_system (client_New env w l2))"
  defines "c \<equiv> sy_client s"
  shows "(Ready c \<and> cache_load (cl_cache c) = None \<longrightarrow> list_ex empty_beat (offered hs))
    \<and> ((\<forall>g. sy_at s g = Between) \<and> sm_cur (cl_sm c) \<noteq> StateClosed \<and> cache_load (cl_cache c) \<noteq> None \<and> \<not> Ready c \<longrightarrow>
         list_ex overclaims (offered hs))"
proof -
  let ?s = "start_system (client_New env w l2)"
  have "Ready (client_New env w l2) \<longleftrightarrow> has_config (client_New env w l2)"
    using client_New_ready [of env w l2] by (simp add: ready_iff_config_def has_config_def)
  then have start: "readiness_threads.holds ?s" "confirmation_threads.holds ?s" "config_settled ?s"
    by (simp_all add: readiness_threads.holds_def confirmation_threads.holds_def start_system_def config_settled_def
        settled_state_def)
  have "Ready c \<longrightarrow> has_config c" if "\<not> list_ex empty_beat (offered hs)"
  proof -
    have "list_all telling (offered hs)" using that by (simp add: list_all_iff list_ex_iff)
    then show ?thesis
      using readiness_threads.holds_after [OF start(1)] by (simp add: readiness_threads.holds_def c_def s_def)
  qed
  moreover have "settled_state c" if "\<not> list_ex overclaims (offered hs)" "has_config c" "\<forall>g. sy_at s g = Between"
  proof -
    have "list_all honest (offered hs)" using that(1) by (simp add: list_all_iff list_ex_iff)
    then have "config_settled s" unfolding s_def by (rule config_settled_after [OF start(2,3)])
    then show ?thesis using that(2,3) by (simp add: config_settled_def c_def)
  qed
  ultimately show ?thesis
    unfolding settled_state_def open_client_def has_config_def by blast
qed

section \<open>Rewinds\<close>

text \<open>Snapshots of one instance of the source, or that name none, of generations up to a bound.\<close>

definition from_instance :: "string \<Rightarrow> int64 \<Rightarrow> Update \<Rightarrow> bool" where
  "from_instance i hi up \<longleftrightarrow> (up_InstanceID up = [] \<or> up_InstanceID up = i)
     \<and> (case up_Snapshot up of None \<Rightarrow> True | Some snap \<Rightarrow> sle (gen_of snap) hi)"

definition between_gens :: "string \<Rightarrow> int64 \<Rightarrow> int64 \<Rightarrow> entry \<Rightarrow> bool" where
  "between_gens i lo hi e \<longleftrightarrow>
     (en_instanceID e = [] \<or> en_instanceID e = i) \<and> sle lo (en_gen e) \<and> sle (en_gen e) hi"

definition holds_between :: "string \<Rightarrow> int64 \<Rightarrow> int64 \<Rightarrow> client \<Rightarrow> bool" where
  "holds_between i lo hi c \<longleftrightarrow> (\<exists>e. cache_load (cl_cache c) = Some e \<and> between_gens i lo hi e)"

fun carries :: "string \<Rightarrow> int64 \<Rightarrow> int64 \<Rightarrow> place \<Rightarrow> bool" where
  "carries i lo hi (Answered up) \<longleftrightarrow> from_instance i hi up"
| "carries i lo hi (Offered up) \<longleftrightarrow> from_instance i hi up"
| "carries i lo hi (Publishing up e gap) \<longleftrightarrow> between_gens i lo hi e"
| "carries i lo hi (Framed up fetch) \<longleftrightarrow> from_instance i hi up \<and> list_all (from_instance i hi) (to_list fetch)"
| "carries i lo hi (Heard up fetch) \<longleftrightarrow> list_all (from_instance i hi) (to_list fetch)"
| "carries i lo hi (Compared up fetch held) \<longleftrightarrow> list_all (from_instance i hi) (to_list fetch)"
| "carries i lo hi (Resyncing fetch reason) \<longleftrightarrow> list_all (from_instance i hi) (to_list fetch)"
| "carries i lo hi _ \<longleftrightarrow> True"

lemma carries_fetched: "list_all (from_instance i hi) (to_list fetch) \<Longrightarrow> carries i lo hi (fetched fetch)"
  by (cases fetch) (simp_all add: fetched_def to_list_def)

lemma holds_between_sel [simp]:
  "holds_between i lo hi (emit x c) = holds_between i lo hi c"
  "holds_between i lo hi (markLive now c) = holds_between i lo hi c"
  "holds_between i lo hi (reportStaleness now c) = holds_between i lo hi c"
  "holds_between i lo hi (on_writer f c) = holds_between i lo hi c"
  "holds_between i lo hi (on_sm h c) = holds_between i lo hi c"
  "holds_between i lo hi (swap e c) = between_gens i lo hi e"
  by (simp_all add: holds_between_def)

lemma sle_trans: "sle a b \<Longrightarrow> sle b c \<Longrightarrow> sle a c"
  by (simp add: sle_def)

lemma judged_between:
  assumes "holds_between i lo hi c" and "from_instance i hi up" and "up_Snapshot up = Some snap"
    and "judge now up snap (cache_load (cl_cache c)) = Publish e gap"
  shows "between_gens i lo hi e"
proof -
  obtain h where h: "cache_load (cl_cache c) = Some h" "between_gens i lo hi h"
    using assms(1) by (auto simp: holds_between_def)
  have same: "\<not> instance_changed (Some h) (up_InstanceID up)"
    using h(2) assms(2) by (auto simp: instance_changed_def between_gens_def from_instance_def)
  then have "\<not> slt (gen_of snap) (en_gen h)" "e = update_entry now up snap"
    using assms(4) h(1) by (auto simp: judge_cases split: if_splits)
  moreover have "sle lo (gen_of snap)"
    using sle_trans [of lo "en_gen h" "gen_of snap"] h(2) \<open>\<not> slt (gen_of snap) (en_gen h)\<close>
    by (simp add: not_slt between_gens_def)
  ultimately show ?thesis using assms(2,3) by (simp add: between_gens_def update_entry_def from_instance_def)
qed

lemma carries_own:
  assumes "holds_between i lo hi c" and "carries i lo hi p" and "advance now p c = (p', c')"
  shows "holds_between i lo hi c' \<and> carries i lo hi p'"
proof (cases p)
  case (Offered up)
  then show ?thesis
    using assms judged_between [OF assms(1), of up _ now] by (auto split: option.splits verdict.splits)
qed (use assms carries_fetched in \<open>auto simp: Let_def split: if_splits\<close>)

interpretation rewinds: undisturbed_assertions "holds_between i lo hi" "\<lambda>c. carries i lo hi" "from_instance i hi"
  for i lo hi
proof unfold_locales
  fix c t
  show "list_all (from_instance i hi) (task_updates t) \<Longrightarrow> carries i lo hi (set_out t)"
    by (cases t) (auto intro: carries_fetched)
next
  fix c p now p' c'
  assume "holds_between i lo hi c" "carries i lo hi p" "advance now p c = (p', c')"
  then show "holds_between i lo hi c' \<and> carries i lo hi p'" by (rule carries_own)
qed simp_all

text \<open>C24. Rewinds are bounded, and heal. A reconcile fetch that raced a push may take the client back, but not behind what it held when
  both loops were last between tasks, nor beyond anything the source sent; and the next undisturbed
  fetch of the newest snapshot, by either loop, leaves the client \<^verbatim>\<open>HEALTHY\<close> at exactly that generation.\<close>

theorem rewinds_bounded_and_heal:
  assumes "cache_load (cl_cache (sy_client s)) = Some e" and "en_instanceID e = [] \<or> en_instanceID e = i"
    and "\<forall>g. sy_at s g = Between" and "sle (en_gen e) hi" and "list_all (from_instance i hi) (offered hs)"
  defines "s' \<equiv> after hs s"
  shows "sle (en_gen e) (Generation (sy_client s')) \<and> sle (Generation (sy_client s')) hi
    \<and> (sy_at s' g = Between \<and> \<not> sy_gone s' g \<and> open_client (sy_client s')
         \<and> up_Snapshot up = Some snap \<and> gen_of snap = hi \<and> up_Generation up = hi \<and> from_instance i hi up \<longrightarrow>
       (let c = sy_client (after (undisturbed g (Fetch (Some up)) now) s')
        in Generation c = hi \<and> sm_cur (cl_sm c) = StateHealthy))"
proof -
  let ?c = "sy_client s'"
  have "rewinds.holds i (en_gen e) hi s"
    using assms(1-4) by (simp add: rewinds.holds_def holds_between_def between_gens_def)
  then have "rewinds.holds i (en_gen e) hi s'"
    unfolding s'_def by (rule rewinds.holds_after [OF _ assms(5)])
  then obtain h where h: "cache_load (cl_cache ?c) = Some h" "between_gens i (en_gen e) hi h"
    by (auto simp: rewinds.holds_def holds_between_def)
  have heal: "Generation (applyUpdate now up (markLive now ?c)) = hi
      \<and> sm_cur (cl_sm (applyUpdate now up (markLive now ?c))) = StateHealthy"
    if "open_client ?c" "up_Snapshot up = Some snap" "gen_of snap = hi" "up_Generation up = hi" "from_instance i hi up"
  proof
    have "open_client (markLive now ?c)" using that(1) by (simp add: open_client_def)
    then show "sm_cur (cl_sm (applyUpdate now up (markLive now ?c))) = StateHealthy"
      using applyUpdate_snapshot_healthy that(2-4) by simp
    have "slt (en_gen h) hi \<or> en_gen h = hi"
      using h(2) not_slt sle_antisym by (auto simp: between_gens_def)
    then show "Generation (applyUpdate now up (markLive now ?c)) = hi"
      using applyUpdate_entry [of now up "markLive now ?c"] that(2,3) h(1)
      by (auto simp: Generation_def update_entry_def)
  qed
  show ?thesis
    using h heal
    by (auto simp: Generation_def [of ?c] between_gens_def after_undisturbed its_task_def remaining_set_out fetchOnce_def
        Let_def simp del: set_out.simps)
qed

text \<open>A run in which a reconcile fetch of generation 8 loses against a push of generation 9 and takes the client back.\<close>

definition lost_race :: "happening list" where
  "lost_race = Begin Reconciling (Fetch (Some (update_of 8 ''i1''))) # replicate 2 (Move Reconciling 20) @
     undisturbed Streaming (Receive (update_of 9 ''i1'') None) 21 @ replicate 6 (Move Reconciling 22)"

lemma lost_race_state:
  "(let s = after lost_race (start_system demo_client)
    in resting (sy_at s Reconciling) \<and> \<not> sy_gone s Reconciling \<and> open_client (sy_client s)
       \<and> Generation (sy_client s) = 8)"
  by code_simp

theorem rewinds_bounded_and_heal_witness:
  "Generation (sy_client (after lost_race (start_system demo_client))) = 8
   \<and> Generation (sy_client (after (undisturbed Reconciling (Fetch (Some (update_of 9 ''i1''))) 30)
        (after lost_race (start_system demo_client)))) = 9"
proof -
  have "list_all (from_instance ''i1'' 9) (offered lost_race)"
    by (simp add: lost_race_def offered_def undisturbed_def to_list_def from_instance_def sle_def concat_replicate_trivial)
  then show ?thesis
    using rewinds_bounded_and_heal [of "start_system demo_client"
        "update_entry 5 (update_of 7 ''i1'') (SnapMem (NewMemSnapshot ''prod'' 7 []))" "''i1''" 9 lost_race Reconciling
        "update_of 9 ''i1''" "SnapMem (NewMemSnapshot ''prod'' 9 [])" 30]
      lost_race_state demo_client_held
    by (simp add: Let_def start_system_def update_entry_def sle_def from_instance_def)
qed

text \<open>An honest frame makes the new client ready; an empty heartbeat does so too, with nothing to serve; and a frame that
  claims generation 9 for a snapshot of generation 8 leaves it serving and not ready.\<close>

abbreviation told :: "Update \<Rightarrow> happening list" where
  "told up \<equiv> undisturbed Streaming (Receive up None) 9"

abbreviation fresh_system :: system where
  "fresh_system \<equiv> start_system (client_New ''prod'' 0 (None :: (unit + Snapshot option \<times> time) option))"

lemma start_system_sel: "sy_at (start_system c) g = Between" "sy_client (start_system c) = c"
  by (simp_all add: start_system_def)

lemma offered_told: "offered (told up) = [up]"
  by (simp add: offered_def undisturbed_def to_list_def concat_replicate_trivial)

lemma after_told: "after (told up) fresh_system = fresh_system\<lparr>sy_client := onFrame 9 None up (sy_client fresh_system)\<rparr>"
  using after_undisturbed [of fresh_system Streaming "Receive up None" 9]
  by (simp add: start_system_def its_task_def fun_upd_idem)

lemma fresh_system_frame:
  "cache_load (cl_cache (onFrame 9 None (update_of 8 ''i1'') (sy_client fresh_system))) \<noteq> None"
  "sm_cur (cl_sm (onFrame 9 None (update_of 8 ''i1'') (sy_client fresh_system))) \<noteq> StateClosed"
  "Ready (onFrame 9 None (heartbeat 0 ''i1'') (sy_client fresh_system))"
  "cache_load (cl_cache (onFrame 9 None (heartbeat 0 ''i1'') (sy_client fresh_system))) = None"
proof -
  have "case cache_load (cl_cache (onFrame 9 None (update_of 8 ''i1'') (sy_client fresh_system))) of
      None \<Rightarrow> False | Some e \<Rightarrow> True" by code_simp
  then show "cache_load (cl_cache (onFrame 9 None (update_of 8 ''i1'') (sy_client fresh_system))) \<noteq> None"
    by (simp split: option.splits)
  have "case sm_cur (cl_sm (onFrame 9 None (update_of 8 ''i1'') (sy_client fresh_system))) of
      StateClosed \<Rightarrow> False | _ \<Rightarrow> True" by code_simp
  then show "sm_cur (cl_sm (onFrame 9 None (update_of 8 ''i1'') (sy_client fresh_system))) \<noteq> StateClosed" by auto
  show "Ready (onFrame 9 None (heartbeat 0 ''i1'') (sy_client fresh_system))"
    "cache_load (cl_cache (onFrame 9 None (heartbeat 0 ''i1'') (sy_client fresh_system))) = None"
    using zero_generation_ready
    by (simp_all add: start_system_sel onFrame_def IsHeartbeat_def client_New_def hydrateFromL2_def fresh_client_def
        Ready_def Generation_def instance_changed_def onLive_cur newStateMachine_def Let_def)
qed

theorem ready_under_interleaving_witness:
  "Ready (sy_client (after (told (update_of 8 ''i1'')) fresh_system))
   \<and> list_ex empty_beat (offered (told (heartbeat 0 ''i1'')))"
proof
  show "Ready (sy_client (after (told (update_of 8 ''i1'')) fresh_system))"
    using ready_under_interleaving [of "told (update_of 8 ''i1'')" "''prod''" 0 "None :: (unit + Snapshot option \<times> time) option"]
      fresh_system_frame(1,2)
    by (simp add: after_told offered_told start_system_sel overclaims_def slt_def del: not_None_eq)
  show "list_ex empty_beat (offered (told (heartbeat 0 ''i1'')))"
    using ready_under_interleaving [of "told (heartbeat 0 ''i1'')" "''prod''" 0 "None :: (unit + Snapshot option \<times> time) option"]
      fresh_system_frame(3,4)
    by (simp add: after_told)
qed

section \<open>Close\<close>

definition closes_cleanly :: "system \<Rightarrow> bool" where
  "closes_cleanly s \<longleftrightarrow>
     (\<forall>g. sy_gone s g \<longrightarrow> sy_at s g = Between)
     \<and> (sy_closing s \<longrightarrow> all_gone s)
     \<and> (\<forall>w. ca_writer (cl_cache (sy_client s)) = Some w \<longrightarrow> w_reachable w \<and> flushed w \<and> (w_done w \<longrightarrow> sy_closing s))
     \<and> (\<not> open_client (sy_client s) \<longrightarrow> sy_closing s \<and> writer_exited (sy_client s))"

definition writer_of :: "client \<Rightarrow> asyncWriter option" where
  "writer_of c = ca_writer (cl_cache c)"

lemma writer_of_sel [simp]:
  "writer_of (emit x c) = writer_of c" "writer_of (markLive now c) = writer_of c"
  "writer_of (reportStaleness now c) = writer_of c" "writer_of (on_sm h c) = writer_of c"
  "writer_of (swap e c) = writer_of c" "writer_of (on_writer f c) = map_option f (writer_of c)"
  by (simp_all add: writer_of_def)

lemma advance_writer:
  "advance now p c = (p', c') \<Longrightarrow>
     writer_of c' = writer_of c \<or> (\<exists>e. writer_of c' = map_option (w_store e) (writer_of c))
       \<or> writer_of c' = map_option w_signal (writer_of c)"
  by (cases p) (auto simp: Let_def split: option.splits verdict.splits if_splits)

lemma advance_open: "advance now p c = (p', c') \<Longrightarrow> open_client c' = open_client c"
  by (cases p)
    (auto simp: Let_def open_client_def onLiveConfirmation_def onStreamDead_def sm_set_def on_writer_def swap_def
      split: option.splits verdict.splits if_splits)

lemma flushed_open: "w_ok w \<Longrightarrow> \<not> w_done w \<Longrightarrow> flushed w"
  by (auto simp: flushed_def w_ok_def finishing_def)

lemma closes_cleanly_happen:
  assumes "closes_cleanly s"
  shows "closes_cleanly (happen h s)"
proof (cases h)
  case (Move g now)
  show ?thesis
  proof (cases "sy_at s g = Between")
    case True
    then have "happen h s = s" by (simp add: Move fun_upd_idem)
    then show ?thesis using assms by simp
  next
    case False
    then have here: "\<not> sy_gone s g" "\<not> sy_closing s" "open_client (sy_client s)"
      using assms by (cases g; auto simp: closes_cleanly_def all_gone_def)+
    obtain p c where a: "advance now (sy_at s g) (sy_client s) = (p, c)" by (rule prod.exhaust)
    have "w_reachable w \<and> flushed w \<and> \<not> w_done w" if new: "ca_writer (cl_cache c) = Some w" for w
    proof -
      obtain v where v: "ca_writer (cl_cache (sy_client s)) = Some v"
          "w = v \<or> (\<exists>e. w = w_store e v) \<or> w = w_signal v"
        using advance_writer [OF a] new
        by (cases "ca_writer (cl_cache (sy_client s))") (auto simp: writer_of_def)
      moreover from v(1) have "w_reachable v" "\<not> w_done v"
        using assms here(2) by (auto simp: closes_cleanly_def)
      ultimately have "w_reachable w" "\<not> w_done w" by (auto intro: w_reachable.step w_step.intros)
      then show ?thesis using flushed_open reachable_w_ok by blast
    qed
    then show ?thesis
      using assms here advance_open [OF a] by (simp add: closes_cleanly_def all_gone_def Move a)
  qed
next
  case (WriterMove pick)
  have "w_run w = Exited \<Longrightarrow> run_step pick w = w" for w by (rule run_step_exited)
  then show ?thesis
    using assms
    by (auto simp: closes_cleanly_def all_gone_def WriterMove writer_exited_iff open_client_def flushed_run_step
        intro: w_reachable.step step_run split: option.splits)
next
  case CloseCache
  have "flushed (w_close w) = flushed w" for w by (simp add: flushed_def)
  then show ?thesis
    using assms
    by (auto simp: closes_cleanly_def all_gone_def CloseCache writer_exited_iff open_client_def
        intro: w_reachable.step step_close split: option.splits)
next
  case CloseState
  then show ?thesis
    using assms by (auto simp: closes_cleanly_def all_gone_def writer_exited_iff)
qed (use assms in \<open>auto simp: closes_cleanly_def all_gone_def\<close>)

lemma closes_cleanly_after: "closes_cleanly s \<Longrightarrow> closes_cleanly (after hs s)"
  by (induction hs arbitrary: s) (simp_all add: closes_cleanly_happen)

lemma closes_cleanly_start: "closes_cleanly (start_system (client_New env w l2))"
proof -
  have "open_client (client_New env w l2)"
    using client_New_ready [of env w l2] by (simp add: ready_iff_config_def)
  moreover have "flushed newAsyncWriter" by (simp add: flushed_def newAsyncWriter_def)
  moreover have "\<not> w_done newAsyncWriter" by (simp add: newAsyncWriter_def)
  moreover have "ca_writer (cl_cache (client_New env w l2)) = (if l2 = None then None else Some newAsyncWriter)"
    by (simp add: client_New_def hydrateFromL2_def fresh_client_def newCache_def hydrate_def
        split: option.split sum.split prod.split)
  ultimately show ?thesis
    by (auto simp: closes_cleanly_def start_system_def all_gone_def intro: w_reachable.start)
qed

lemma on_writer_comp: "on_writer f (on_writer h c) = on_writer (\<lambda>w. f (h w)) c"
  by (cases "ca_writer (cl_cache c)") (simp_all add: on_writer_def)

lemma writer_moves:
  "after (map WriterMove cs) s = s\<lparr>sy_client := on_writer (run_steps cs) (sy_client s)\<rparr>"
proof (induction cs arbitrary: s)
  case Nil
  show ?case by (cases "ca_writer (cl_cache (sy_client s))") (simp_all add: on_writer_def run_steps_def)
next
  case (Cons c cs)
  show ?case by (simp add: Cons.IH on_writer_comp run_steps_def)
qed

text \<open>C25. Close is clean. However the loops, the writer and \<^verbatim>\<open>Close\<close> interleaved, once the state is \<^verbatim>\<open>CLOSED\<close> both
  loops have returned and the writer's goroutine has exited with nothing pending, and the last
  snapshot ever queued is the last one handed to the disk; and once both loops are between tasks, their return, the
  close and eight steps of the writer are enough to get there.\<close>

theorem close_is_clean:
  fixes l2 :: "('e + Snapshot option \<times> time) option" and env w hs
  defines "s \<equiv> after hs (start_system (client_New env w l2))"
  defines "ending \<equiv> \<lambda>cs. [Return Streaming, Return Reconciling, CloseCache] @ map WriterMove cs @ [CloseState]"
  shows "(sm_cur (cl_sm (sy_client s)) = StateClosed \<longrightarrow>
      all_gone s \<and> (\<forall>g. sy_at s g = Between)
      \<and> (case ca_writer (cl_cache (sy_client s)) of
           None \<Rightarrow> True
         | Some wr \<Rightarrow> w_run wr = Exited \<and> w_pending wr = None
             \<and> (w_put wr \<noteq> [] \<longrightarrow> w_written wr \<noteq> [] \<and> last (w_written wr) = last (w_put wr))))
    \<and> ((\<forall>g. sy_at s g = Between) \<and> 8 \<le> length cs \<longrightarrow>
         sm_cur (cl_sm (sy_client (after (ending cs) s))) = StateClosed)"
proof
  have ok: "closes_cleanly s" unfolding s_def by (rule closes_cleanly_after [OF closes_cleanly_start])
  have flush: "w_pending wr = None \<and> (w_put wr \<noteq> [] \<longrightarrow> w_written wr \<noteq> [] \<and> last (w_written wr) = last (w_put wr))"
    if "w_reachable wr" "flushed wr" "w_run wr = Exited" for wr
  proof -
    have "w_pending wr = None" using that(2,3) by (simp add: flushed_def)
    moreover from this have "handled wr = w_written wr"
      using that(3) by (simp add: handled_def in_flight_def to_list_def)
    ultimately show ?thesis using reachable_w_ok [OF that(1)] by (auto simp: w_ok_def)
  qed
  have both: "P g" if "P Streaming" "P Reconciling" for P and g :: goroutine
    using that by (cases g) simp_all
  show "sm_cur (cl_sm (sy_client s)) = StateClosed \<longrightarrow> all_gone s \<and> (\<forall>g. sy_at s g = Between)
      \<and> (case ca_writer (cl_cache (sy_client s)) of
           None \<Rightarrow> True
         | Some wr \<Rightarrow> w_run wr = Exited \<and> w_pending wr = None
             \<and> (w_put wr \<noteq> [] \<longrightarrow> w_written wr \<noteq> [] \<and> last (w_written wr) = last (w_put wr)))"
    using ok flush
    by (auto simp: closes_cleanly_def open_client_def all_gone_def writer_exited_iff intro: both split: option.splits)
  show "(\<forall>g. sy_at s g = Between) \<and> 8 \<le> length cs \<longrightarrow>
         sm_cur (cl_sm (sy_client (after (ending cs) s))) = StateClosed"
  proof
    assume rest: "(\<forall>g. sy_at s g = Between) \<and> 8 \<le> length cs"
    let ?t = "after [Return Streaming, Return Reconciling, CloseCache] s"
    have t: "sy_closing ?t" "sy_client ?t = on_writer w_close (sy_client s)"
      using rest by (simp_all add: all_gone_def)
    have "writer_exited (on_writer (run_steps cs) (on_writer w_close (sy_client s)))"
      using rest run_steps_exit [of "w_close w" cs for w] w_work_bound order_trans
      by (fastforce simp: writer_exited_iff split: option.split)
    then show "sm_cur (cl_sm (sy_client (after (ending cs) s))) = StateClosed"
      using t by (simp add: ending_def writer_moves sm_close_def sm_set_def Let_def del: happen.simps(4,5))
  qed
qed

text \<open>A push and a client that then closes.\<close>

theorem close_is_clean_witness:
  "sm_cur (cl_sm (sy_client (after ([Return Streaming, Return Reconciling, CloseCache] @ map WriterMove (replicate 8 True)
     @ [CloseState]) (after (undisturbed Streaming (Receive (update_of 7 ''i1'') None) 5)
       (start_system (client_New ''prod'' 0 (Some (Inl ()))))))))
   = StateClosed"
proof -
  let ?s = "start_system (client_New ''prod'' 0 (Some (Inl ())))"
  have "sy_at (after (undisturbed Streaming (Receive (update_of 7 ''i1'') None) 5) ?s) g = Between" for g
    by (subst after_undisturbed) (simp_all add: start_system_def its_task_def)
  then show ?thesis
    using close_is_clean [of "undisturbed Streaming (Receive (update_of 7 ''i1'') None) 5" "''prod''" 0 "Some (Inl ())"
        "replicate 8 True", THEN conjunct2]
    by (simp del: after_simps happen.simps)
qed

section \<open>Memory and disk may part\<close>

text \<open>
  The swap and the enqueue of \<^verbatim>\<open>cache.apply\<close> are two steps, so the loops can swap in one order and enqueue in the other:
  the client then serves generation 9 while the last snapshot written to the disk, and the one a restart would begin
  with, is 8, and neither loop writes it again until a newer one is applied.
\<close>

definition crossed_writes :: "happening list" where
  "crossed_writes = Begin Reconciling (Fetch (Some (update_of 8 ''i1''))) # replicate 3 (Move Reconciling 20) @
     undisturbed Streaming (Receive (update_of 9 ''i1'') None) 21 @ replicate 8 (Move Reconciling 22) @
     replicate 8 (WriterMove True)"

lemma disk_left_behind:
  "let s = after crossed_writes (start_system (client_New ''prod'' 0 (Some (Inl () :: unit + _))))
   in resting (sy_at s Streaming) \<and> resting (sy_at s Reconciling) \<and> Generation (sy_client s) = 9
      \<and> map_option (\<lambda>w. map en_gen (w_written w)) (ca_writer (cl_cache (sy_client s))) = Some [8]"
  by code_simp

end
