(* ===== verification/Obs_Trace.thy ===== *)
theory Obs_Trace
  imports Std_Strings
begin

text \<open>
  Trace identities, \<^verbatim>\<open>internal/obs/trace.go\<close>: how a request gets one, from its headers or freshly minted,
  and how it is handed on. The headers of a request are a map; random bytes and the clock are arguments, and
  \<^const>\<open>None\<close> stands for a failing random source. The trace a context carries is passed explicitly, the zero trace standing
  for none.
\<close>

type_synonym headers = "(string, string) gomap"

definition hdr_Get :: "headers \<Rightarrow> string \<Rightarrow> string" where
  "hdr_Get h name = (case gm_get h name of None \<Rightarrow> [] | Some v \<Rightarrow> v)"

definition HeaderTraceParent :: string where "HeaderTraceParent = ''traceparent''"
definition HeaderTraceID :: string where "HeaderTraceID = ''X-Trace-Id''"
definition HeaderRequestID :: string where "HeaderRequestID = ''X-Request-Id''"

lemma header_names [simp]:
  "HeaderTraceParent \<noteq> HeaderTraceID" "HeaderTraceID \<noteq> HeaderTraceParent"
  "HeaderTraceID \<noteq> HeaderRequestID" "HeaderRequestID \<noteq> HeaderTraceID"
  by (simp_all add: HeaderTraceParent_def HeaderTraceID_def HeaderRequestID_def)

definition maxIDLen :: nat where "maxIDLen = 64"

record Trace =
  tr_TraceID :: string
  tr_SpanID :: string

definition no_trace :: Trace where
  "no_trace = \<lparr>tr_TraceID = [], tr_SpanID = []\<rparr>"

text \<open>
  A context is a chain of values, the innermost first, or nil. Only \<^verbatim>\<open>ContextWithTrace\<close> can use the key of this
  package, whose type is unexported.
\<close>

datatype ctxKey = TraceCtxKey | ForeignKey string

datatype ctxValue = CtxTrace Trace | CtxForeign string

type_synonym ctx = "(ctxKey \<times> ctxValue) list option"

definition WithValue :: "ctxKey \<Rightarrow> ctxValue \<Rightarrow> ctx \<Rightarrow> ctx" where
  "WithValue k v c = Some ((k, v) # (case c of None \<Rightarrow> [] | Some vs \<Rightarrow> vs))"

definition ContextWithTrace :: "ctx \<Rightarrow> Trace \<Rightarrow> ctx" where
  "ContextWithTrace c t = WithValue TraceCtxKey (CtxTrace t) (case c of None \<Rightarrow> Some [] | Some vs \<Rightarrow> Some vs)"

definition TraceFromContext :: "ctx \<Rightarrow> Trace" where
  "TraceFromContext c =
     (case c of
        None \<Rightarrow> no_trace
      | Some vs \<Rightarrow> (case map_of vs TraceCtxKey of Some (CtxTrace t) \<Rightarrow> t | _ \<Rightarrow> no_trace))"

definition TraceIDFromContext :: "ctx \<Rightarrow> string" where
  "TraceIDFromContext c = tr_TraceID (TraceFromContext c)"

definition SpanIDFromContext :: "ctx \<Rightarrow> string" where
  "SpanIDFromContext c = tr_SpanID (TraceFromContext c)"

text \<open>A handler finds the trace that was put in last, whatever else is added to the context on the way.\<close>

lemma trace_in_context:
  "TraceFromContext (ContextWithTrace c t) = t"
  "TraceFromContext (WithValue (ForeignKey k) v c) = TraceFromContext c"
  "TraceFromContext None = no_trace"
  by (simp_all add: TraceFromContext_def ContextWithTrace_def WithValue_def split: option.split)

definition Trace_Valid :: "Trace \<Rightarrow> bool" where
  "Trace_Valid t \<longleftrightarrow> tr_TraceID t \<noteq> []"

section \<open>Minting\<close>

text \<open>The eight bytes of a word, the highest first.\<close>

definition be_bytes :: "uint64 \<Rightarrow> string" where
  "be_bytes w = map (\<lambda>i. char_of (unat (drop_bit (8 * (7 - i)) w) mod 256)) [0..<8]"

type_synonym random = "(nat \<Rightarrow> char) option"

definition randomHex :: "nat \<Rightarrow> random \<Rightarrow> uint64 \<Rightarrow> string" where
  "randomHex n rand nano =
     hex_EncodeToString
       (case rand of
          Some f \<Rightarrow> map f [0..<n]
        | None \<Rightarrow> be_bytes nano @ replicate (n - 8) (CHR 0x00))"

definition NewTraceID :: "random \<Rightarrow> uint64 \<Rightarrow> string" where
  "NewTraceID = randomHex 16"

definition NewSpanID :: "random \<Rightarrow> uint64 \<Rightarrow> string" where
  "NewSpanID = randomHex 8"

definition ContextWithTraceID :: "ctx \<Rightarrow> string \<Rightarrow> random \<Rightarrow> uint64 \<Rightarrow> ctx" where
  "ContextWithTraceID c traceID rand nano =
     ContextWithTrace c \<lparr>tr_TraceID = traceID, tr_SpanID = NewSpanID rand nano\<rparr>"

section \<open>Headers of a request\<close>

definition isHex :: "string \<Rightarrow> bool" where
  "isHex s \<longleftrightarrow> list_all is_hex s"

definition id_char :: "char \<Rightarrow> bool" where
  "id_char c \<longleftrightarrow> is_digit c \<or> is_lower c \<or> is_upper c \<or> c = CHR ''-'' \<or> c = CHR ''_''"

definition sanitizeID :: "string \<Rightarrow> string" where
  "sanitizeID v =
     (if length v < 4 \<or> length v > maxIDLen then []
      else if \<not> list_all id_char v then []
      else strings_ToLower v)"

text \<open>The form is \<^verbatim>\<open>00-<32 hex trace id>-<16 hex span id>-<2 hex flags>\<close>.\<close>

definition traceIDFromTraceParent :: "string \<Rightarrow> string option" where
  "traceIDFromTraceParent v =
     (let parts = strings_Split (strings_TrimSpace v) (CHR ''-'') in
      if length parts < 4 then None
      else let i = strings_ToLower (parts ! 1) in
        if length i \<noteq> 32 \<or> \<not> isHex i \<or> i = replicate 32 (CHR ''0'') then None else Some i)"

fun header_id :: "headers \<Rightarrow> string list \<Rightarrow> string option" where
  "header_id h [] = None"
| "header_id h (name # names) =
     (let v = strings_TrimSpace (hdr_Get h name) in
      if v \<noteq> [] \<and> sanitizeID v \<noteq> [] then Some (sanitizeID v) else header_id h names)"

definition TraceIDFromHeaders :: "headers \<Rightarrow> string option" where
  "TraceIDFromHeaders h =
     (let tp = hdr_Get h HeaderTraceParent;
          parent = (if tp \<noteq> [] then traceIDFromTraceParent tp else None)
      in case parent of Some i \<Rightarrow> Some i | None \<Rightarrow> header_id h [HeaderTraceID, HeaderRequestID])"

definition EnsureTrace :: "Trace \<Rightarrow> headers \<Rightarrow> random \<Rightarrow> random \<Rightarrow> uint64 \<Rightarrow> Trace" where
  "EnsureTrace t h rand1 rand2 nano =
     (if Trace_Valid t then t
      else \<lparr>tr_TraceID = (case TraceIDFromHeaders h of Some i \<Rightarrow> i | None \<Rightarrow> NewTraceID rand1 nano),
            tr_SpanID = NewSpanID rand2 nano\<rparr>)"

definition Inject :: "Trace \<Rightarrow> headers \<Rightarrow> random \<Rightarrow> uint64 \<Rightarrow> headers" where
  "Inject t h rand nano =
     (if \<not> Trace_Valid t then h
      else let h1 = gm_set HeaderTraceID (tr_TraceID t) h;
               span = (if length (tr_SpanID t) \<noteq> 16 \<or> \<not> isHex (tr_SpanID t) then NewSpanID rand nano
                       else tr_SpanID t)
        in if length (tr_TraceID t) = 32 \<and> isHex (tr_TraceID t)
           then gm_set HeaderTraceParent (''00-'' @ tr_TraceID t @ ''-'' @ span @ ''-01'') h1
           else h1)"

section \<open>Identities are safe to copy\<close>

text \<open>Bounded, lower case, and of harmless characters only.\<close>

definition safe_id :: "string \<Rightarrow> bool" where
  "safe_id s \<longleftrightarrow> 4 \<le> length s \<and> length s \<le> maxIDLen \<and> list_all (\<lambda>c. id_char c \<and> \<not> is_upper c) s"

lemma is_hex_id: "is_hex c \<Longrightarrow> id_char c \<and> \<not> is_upper c \<and> is_ascii c \<and> \<not> is_blank c \<and> c \<noteq> CHR ''-''"
  by (auto simp: is_hex_def id_char_def is_digit_def is_lower_def is_upper_def is_ascii_def is_blank_def)

lemma id_char_plain: "id_char c \<Longrightarrow> is_ascii c \<and> \<not> is_blank c"
  by (auto simp: id_char_def is_digit_def is_lower_def is_upper_def is_ascii_def is_blank_def)

lemma id_char_lower: "id_char c \<Longrightarrow> id_char (lower_byte c)"
  by (auto simp: id_char_def is_digit_def is_lower_def is_upper_def lower_byte_def)

lemma isHex_safe: "isHex s \<Longrightarrow> 4 \<le> length s \<Longrightarrow> length s \<le> 64 \<Longrightarrow> safe_id s"
  by (auto simp: isHex_def safe_id_def maxIDLen_def list_all_iff dest!: is_hex_id)

lemma randomHex_hex: "isHex (randomHex n rand nano)"
  by (auto simp: isHex_def list_all_iff randomHex_def dest: hex_Encode_chars)

lemma randomHex_length: "8 \<le> n \<Longrightarrow> length (randomHex n rand nano) = 2 * n"
  by (simp add: randomHex_def be_bytes_def split: option.split)

lemma sanitizeID_safe: "sanitizeID v \<noteq> [] \<Longrightarrow> safe_id (sanitizeID v)"
  by (auto simp: sanitizeID_def safe_id_def list_all_iff ToLower_ascii id_char_plain id_char_lower split: if_splits)

lemma sanitizeID_id:
  assumes "safe_id s"
  shows "sanitizeID s = s"
proof -
  have "map lower_byte s = s"
    using assms by (intro map_idI) (auto simp: safe_id_def list_all_iff lower_byte_def)
  then show ?thesis
    using assms by (auto simp: sanitizeID_def safe_id_def list_all_iff ToLower_ascii id_char_plain)
qed

lemma header_id_safe: "header_id h names = Some i \<Longrightarrow> safe_id i"
  by (induction names) (auto simp: Let_def sanitizeID_safe split: if_splits)

lemma traceParent_safe: "traceIDFromTraceParent v = Some i \<Longrightarrow> safe_id i"
  by (auto simp: traceIDFromTraceParent_def Let_def isHex_safe split: if_splits)

lemma TraceIDFromHeaders_safe: "TraceIDFromHeaders h = Some i \<Longrightarrow> safe_id i"
  unfolding TraceIDFromHeaders_def Let_def
  by (auto simp del: header_id.simps split: if_splits option.splits dest: header_id_safe traceParent_safe)

lemma NewTraceID_hex: "isHex (NewTraceID r n)" "length (NewTraceID r n) = 32"
  by (simp_all add: NewTraceID_def randomHex_hex randomHex_length)

lemma NewSpanID_hex: "isHex (NewSpanID r n)" "length (NewSpanID r n) = 16"
  by (simp_all add: NewSpanID_def randomHex_hex randomHex_length)

lemma safe_id_nonempty: "safe_id s \<Longrightarrow> s \<noteq> []"
  by (auto simp: safe_id_def)

lemma ensured_safe:
  "\<not> Trace_Valid t0 \<Longrightarrow> safe_id (tr_TraceID (EnsureTrace t0 h r1 r2 n))"
  using NewTraceID_hex [of r1 n]
  by (auto simp: EnsureTrace_def isHex_safe TraceIDFromHeaders_safe split: option.split)

lemma ensured_span:
  "\<not> Trace_Valid t0 \<Longrightarrow> isHex (tr_SpanID (EnsureTrace t0 h r1 r2 n)) \<and> length (tr_SpanID (EnsureTrace t0 h r1 r2 n)) = 16"
  by (simp add: EnsureTrace_def NewSpanID_hex)

section \<open>A trace survives a hop\<close>

lemma hdr_Get_set: "hdr_Get (gm_set k v h) k' = (if k' = k then v else hdr_Get h k')"
  by (simp add: hdr_Get_def gm_get_set)

lemma safe_plain: "safe_id s \<Longrightarrow> c \<in> set s \<Longrightarrow> is_ascii c \<and> \<not> is_blank c"
  by (auto simp: safe_id_def list_all_iff id_char_plain)

lemma header_id_first: "safe_id i \<Longrightarrow> hdr_Get h name = i \<Longrightarrow> header_id h (name # names) = Some i"
  by (simp add: TrimSpace_id safe_plain sanitizeID_id safe_id_nonempty)

lemma traceParent_rendered:
  assumes "length i = 32" "isHex i" "isHex span"
  shows "traceIDFromTraceParent (''00-'' @ i @ ''-'' @ span @ ''-01'') \<in> {None, Some i}"
proof -
  let ?v = "''00-'' @ i @ ''-'' @ span @ ''-01''"
  have dash: "CHR ''-'' \<notin> set i" "CHR ''-'' \<notin> set span"
    using assms by (auto simp: isHex_def list_all_iff dest: is_hex_id)
  have hexc: "c \<in> set i \<Longrightarrow> is_hex c" "c \<in> set span \<Longrightarrow> is_hex c" for c
    using assms by (auto simp: isHex_def list_all_iff)
  have "strings_TrimSpace ?v = ?v"
    by (rule TrimSpace_id) (auto dest!: hexc dest: is_hex_id simp: is_ascii_def is_blank_def)
  moreover have "strings_Split ?v (CHR ''-'') = [''00'', i, span, ''01'']"
    using dash Split_append [of "CHR ''-''" i "span @ ''-01''"] Split_append [of "CHR ''-''" span "''01''"]
    by simp
  moreover have "strings_ToLower i = i"
  proof -
    have "map lower_byte i = i" by (intro map_idI) (auto dest!: hexc dest: is_hex_id simp: lower_byte_def)
    moreover have "list_all is_ascii i" by (auto simp: list_all_iff dest!: hexc dest: is_hex_id)
    ultimately show ?thesis by (simp add: ToLower_ascii)
  qed
  ultimately show ?thesis by (simp add: traceIDFromTraceParent_def)
qed

lemma Inject_extract:
  assumes "safe_id (tr_TraceID t)"
  shows "TraceIDFromHeaders (Inject t [] r n) = Some (tr_TraceID t)"
proof -
  let ?i = "tr_TraceID t" and ?h = "Inject t [] r n"
  define span where "span = (if length (tr_SpanID t) \<noteq> 16 \<or> \<not> isHex (tr_SpanID t) then NewSpanID r n else tr_SpanID t)"
  have span: "isHex span" by (simp add: span_def NewSpanID_hex)
  have inj: "?h = (let h = gm_set HeaderTraceID ?i []
      in if length ?i = 32 \<and> isHex ?i
         then gm_set HeaderTraceParent (''00-'' @ ?i @ ''-'' @ span @ ''-01'') h else h)"
    using assms by (simp add: Inject_def span_def Let_def Trace_Valid_def safe_id_nonempty del: gm_set.simps)
  then have "hdr_Get ?h HeaderTraceID = ?i"
    by (simp add: Let_def hdr_Get_set del: gm_set.simps)
  then have "header_id ?h [HeaderTraceID, HeaderRequestID] = Some ?i"
    by (rule header_id_first [OF assms])
  moreover have "hdr_Get ?h HeaderTraceParent =
      (if length ?i = 32 \<and> isHex ?i then ''00-'' @ ?i @ ''-'' @ span @ ''-01'' else hdr_Get [] HeaderTraceParent)"
    using inj by (simp add: Let_def hdr_Get_set del: gm_set.simps)
  moreover have "hdr_Get [] HeaderTraceParent = []" by (simp add: hdr_Get_def)
  moreover have "length ?i = 32 \<and> isHex ?i \<Longrightarrow>
      traceIDFromTraceParent (''00-'' @ ?i @ ''-'' @ span @ ''-01'') \<in> {None, Some ?i}"
    using traceParent_rendered [OF _ _ span] by blast
  ultimately show ?thesis
    unfolding TraceIDFromHeaders_def Let_def
    by (auto simp del: header_id.simps split: option.split)
qed

text \<open>A request that arrives without a trace in its context always gets one, whatever its headers say and
  even when the random source fails: between 4 and 64 characters, digits, small letters, dash and underscore
  only, so nothing a caller sends reaches a log line unchecked. The service it calls with the injected headers
  works under the same trace id.
\<close>

theorem trace_survives_hop:
  "let t = EnsureTrace no_trace h r1 r2 n;
       t' = EnsureTrace no_trace (Inject t [] r3 n') r4 r5 n'
   in safe_id (tr_TraceID t) \<and> tr_TraceID t' = tr_TraceID t \<and> isHex (tr_SpanID t') \<and> length (tr_SpanID t') = 16"
proof -
  have nv: "\<not> Trace_Valid no_trace" by (simp add: Trace_Valid_def no_trace_def)
  define t where "t = EnsureTrace no_trace h r1 r2 n"
  have "safe_id (tr_TraceID t)" using ensured_safe [OF nv] by (simp add: t_def)
  moreover from this have "tr_TraceID (EnsureTrace no_trace (Inject t [] r3 n') r4 r5 n') = tr_TraceID t"
    using nv by (simp add: EnsureTrace_def Inject_extract)
  ultimately show ?thesis using ensured_span [OF nv] by (simp add: t_def [symmetric] Let_def)
qed

end
