(* ===== verification/Transport_Error.thy ===== *)
theory Transport_Error
  imports Obs_Trace Config_Snapshot
begin

text \<open>
  The error envelope of the HTTP surface, \<^verbatim>\<open>internal/transport/apierr\<close>, and what a handler does to its
  \<^verbatim>\<open>http.ResponseWriter\<close>: a list of actions, among which are also the records it sends to the metrics and
  the log. The time stamp of an envelope is an argument.
\<close>

section \<open>Codes\<close>

datatype Code = CodeInvalidJSON | CodeInvalidArgument | CodeNotFound | CodeMethodNotAllowed
  | CodePayloadTooLarge | CodeUnsupportedMediaType | CodeTooManyFlags | CodeInvalidConfig
  | CodeUnavailable | CodeTimeout | CodeInternal

fun Code_string :: "Code \<Rightarrow> string" where
  "Code_string CodeInvalidJSON = ''invalid_json''"
| "Code_string CodeInvalidArgument = ''invalid_argument''"
| "Code_string CodeNotFound = ''not_found''"
| "Code_string CodeMethodNotAllowed = ''method_not_allowed''"
| "Code_string CodePayloadTooLarge = ''payload_too_large''"
| "Code_string CodeUnsupportedMediaType = ''unsupported_media_type''"
| "Code_string CodeTooManyFlags = ''too_many_flags''"
| "Code_string CodeInvalidConfig = ''invalid_config''"
| "Code_string CodeUnavailable = ''unavailable''"
| "Code_string CodeTimeout = ''timeout''"
| "Code_string CodeInternal = ''internal''"

fun Status :: "Code \<Rightarrow> nat" where
  "Status CodeInvalidJSON = 400"
| "Status CodeInvalidArgument = 400"
| "Status CodeInvalidConfig = 400"
| "Status CodeTooManyFlags = 400"
| "Status CodeNotFound = 404"
| "Status CodeMethodNotAllowed = 405"
| "Status CodePayloadTooLarge = 413"
| "Status CodeUnsupportedMediaType = 415"
| "Status CodeUnavailable = 503"
| "Status CodeTimeout = 504"
| "Status CodeInternal = 500"

lemma Status_error: "400 \<le> Status c"
  by (cases c) simp_all

lemma Code_string_inj: "Code_string a = Code_string b \<Longrightarrow> a = b"
  by (cases a; cases b) simp_all

section \<open>Messages\<close>

definition maxMessageLen :: nat where "maxMessageLen = 200"

definition internalMessage :: string where "internalMessage = ''internal error''"

text \<open>What gives away a stack trace or a place in the source.\<close>

definition leaks :: "string \<Rightarrow> bool" where
  "leaks msg \<longleftrightarrow>
     (let lower = strings_ToLower msg in
      strings_ContainsAny msg [CHR 0x0A, CHR 0x0D, CHR 0x09] \<or>
      strings_Contains lower ''.go:'' \<or>
      strings_Contains lower ''goroutine '' \<or>
      strings_Contains msg ''/Users/'' \<or>
      strings_Contains msg ''/home/'' \<or>
      strings_Contains msg ''0x'')"

definition Sanitize :: "string \<Rightarrow> string" where
  "Sanitize m =
     (let msg = strings_TrimSpace m in
      if msg = [] then internalMessage
      else if leaks msg then internalMessage
      else if length msg > maxMessageLen then take maxMessageLen msg
      else msg)"

text \<open>The marks of a stack trace or a source location that \<^verbatim>\<open>Sanitize\<close> looks for, in any letter case where it does.\<close>

definition discloses :: "string \<Rightarrow> bool" where
  "discloses s \<longleftrightarrow>
     strings_ContainsAny s [CHR 0x0A, CHR 0x0D, CHR 0x09] \<or>
     strings_Contains (map lower_byte s) ''.go:'' \<or> strings_Contains (map lower_byte s) ''goroutine '' \<or>
     strings_Contains s ''/Users/'' \<or> strings_Contains s ''/home/'' \<or> strings_Contains s ''0x''"

lemma Contains_take: "strings_Contains (take n s) p \<Longrightarrow> strings_Contains s p"
  unfolding strings_Contains_iff by (metis append.assoc append_take_drop_id)

lemma discloses_take: "discloses (take n s) \<Longrightarrow> discloses s"
  by (auto simp: discloses_def take_map [symmetric] strings_ContainsAny_def list_ex_iff
      dest: Contains_take in_set_takeD)

lemma leaks_if_discloses: "discloses s \<Longrightarrow> leaks s"
  using ToLower_finds [of s "''.go:''"] ToLower_finds [of s "''goroutine ''"]
  by (auto simp: discloses_def leaks_def Let_def is_ascii_def)

lemma internalMessage_quiet: "\<not> discloses internalMessage"
  by (simp add: discloses_def internalMessage_def lower_byte_def is_upper_def strings_ContainsAny_def)

text \<open>Whatever text is handed to the envelope, the message a caller reads is not empty, at most 200 bytes long, the text
  itself or a prefix of it or the fixed one, and carries none of these marks: no line break or tab, no Go source
  location or goroutine header in any letter case, no \<^verbatim>\<open>/Users/\<close>, \<^verbatim>\<open>/home/\<close> or \<^verbatim>\<open>0x\<close>.\<close>

lemma Sanitize_safe:
  "Sanitize m \<noteq> [] \<and> length (Sanitize m) \<le> 200 \<and> \<not> discloses (Sanitize m) \<and>
     (Sanitize m = internalMessage \<or> prefix (Sanitize m) (strings_TrimSpace m))"
proof -
  have part: "\<not> leaks s \<Longrightarrow> \<not> discloses (take n s)" for n s
    using leaks_if_discloses discloses_take by blast
  show ?thesis
    using part [of "strings_TrimSpace m" 200] part [of "strings_TrimSpace m" "length (strings_TrimSpace m)"]
      internalMessage_quiet
    by (auto simp: Sanitize_def Let_def maxMessageLen_def internalMessage_def take_is_prefix)
qed

text \<open>The marks are a list, not a rule: other paths, host names and addresses pass as they are.\<close>

lemma Sanitize_passes_paths:
  "Sanitize ''open /etc/flags.json: no such file'' = ''open /etc/flags.json: no such file''"
  "Sanitize ''dial 10.0.0.5:5432: refused'' = ''dial 10.0.0.5:5432: refused''"
  by code_simp+

lemma Sanitize_shape:
  "Sanitize m \<noteq> [] \<and> length (Sanitize m) \<le> 200 \<and> \<not> strings_ContainsAny (Sanitize m) [CHR 0x0A, CHR 0x0D, CHR 0x09]"
  using Sanitize_safe [of m] by (simp add: discloses_def)

section \<open>Writing\<close>

text \<open>A body is what was marshalled, or literal text.\<close>

datatype part = Doc json | Text string

type_synonym body = "part list"

text \<open>The calls on \<^verbatim>\<open>obs.Recorder\<close> and \<^verbatim>\<open>obs.Logger\<close>; durations are left out.\<close>

record EvalError =
  ee_Flag :: string
  ee_Env :: string
  ee_Reason :: string
  ee_Generation :: int64
  ee_RuleID :: string
  ee_CtxKeys :: "string list"
  ee_ValueSource :: string

datatype event =
    MEvaluation string string string bool
  | MBatchLatency
  | MConfigApply string
  | MSnapshotGeneration string int64
  | MSnapshotFlags string nat
  | MHTTPRequest string string nat
  | MPanic string
  | LEvaluationError EvalError
  | LPanic string
  | LConfig string

datatype act = SetHeader string string | WriteHeader nat | Write body | Emit event

record Envelope =
  env_ErrorCode :: Code
  env_Message :: string
  env_TraceID :: string
  env_SpanID :: string
  env_Timestamp :: string

definition marshal_envelope :: "Envelope \<Rightarrow> json" where
  "marshal_envelope e =
     JObj ([(''error_code'', JStr (Code_string (env_ErrorCode e))), (''message'', JStr (env_Message e)),
            (''trace_id'', JStr (env_TraceID e))] @
           omitempty (env_SpanID e = []) ''span_id'' (JStr (env_SpanID e)) @
           [(''timestamp'', JStr (env_Timestamp e))])"

definition envelope :: "Trace \<Rightarrow> string \<Rightarrow> Code \<Rightarrow> string \<Rightarrow> json" where
  "envelope t now code msg = marshal_envelope
     \<lparr>env_ErrorCode = code, env_Message = Sanitize msg, env_TraceID = tr_TraceID t,
      env_SpanID = tr_SpanID t, env_Timestamp = now\<rparr>"

definition content_type :: string where "content_type = ''Content-Type''"
definition application_json :: string where "application_json = ''application/json; charset=utf-8''"
definition content_type_options :: string where "content_type_options = ''X-Content-Type-Options''"

text \<open>\<^verbatim>\<open>apierr.Write\<close>. The marshalling of an envelope, whose members are strings, cannot fail.\<close>

definition write_error :: "Trace \<Rightarrow> string \<Rightarrow> Code \<Rightarrow> string \<Rightarrow> act list" where
  "write_error t now code msg =
     [SetHeader content_type application_json, SetHeader content_type_options ''nosniff''] @
     (if tr_TraceID t \<noteq> [] then [SetHeader HeaderTraceID (tr_TraceID t)] else []) @
     [WriteHeader (Status code), Write [Doc (envelope t now code msg)]]"

definition WriteInternal :: "Trace \<Rightarrow> string \<Rightarrow> act list" where
  "WriteInternal t now = write_error t now CodeInternal internalMessage"

text \<open>The literal body of \<^verbatim>\<open>http.TimeoutHandler\<close>; a double quote is the byte 22.\<close>

definition quoted :: "string \<Rightarrow> string" where
  "quoted s = CHR 0x22 # s @ [CHR 0x22]"

definition TimeoutBody :: string where
  "TimeoutBody = ''{'' @ quoted ''error_code'' @ '':'' @ quoted ''timeout'' @ '','' @ quoted ''message'' @ '':'' @
     quoted ''request exceeded server handler deadline'' @ '','' @ quoted ''trace_id'' @ '':'' @ quoted [] @ '','' @
     quoted ''timestamp'' @ '':'' @ quoted [] @ ''}''"

end
