(* ===== verification/Transport_Chain.thy ===== *)
theory Transport_Chain
  imports Transport_Error
begin

text \<open>
  The middleware chain of the HTTP surface: the panic boundaries of \<^verbatim>\<open>internal/transport/safe\<close>, the metrics
  middleware of \<^verbatim>\<open>middleware.go\<close> and \<^verbatim>\<open>Server.wrap\<close>, with \<^verbatim>\<open>http.TimeoutHandler\<close> and the response writer of
  \<^verbatim>\<open>net/http\<close>, as far as the chain relies on them. A handler is the list of its actions and, when it
  panicked, the value it panicked with.
\<close>

section \<open>Requests, outcomes, responses\<close>

record request =
  rq_Method :: string
  rq_Path :: string
  rq_Headers :: headers
  rq_Query_flag :: string
  rq_Body :: string
  rq_BodyErr :: bool

datatype panic_value = ErrAbortHandler | PanicValue string

type_synonym outcome = "act list \<times> panic_value option"

record response =
  resp_status :: nat
  resp_headers :: headers
  resp_body :: body

text \<open>
  The response writer of the connection: the first status wins and fixes the headers, a write without a
  status means 200, and so does no write at all.
\<close>

record conn =
  cn_headers :: headers
  cn_sent :: "(nat \<times> headers) option"
  cn_body :: body

definition new_conn :: conn where
  "new_conn = \<lparr>cn_headers = [], cn_sent = None, cn_body = []\<rparr>"

definition conn_commit :: "nat \<Rightarrow> conn \<Rightarrow> conn" where
  "conn_commit code c = (if cn_sent c = None then c\<lparr>cn_sent := Some (code, cn_headers c)\<rparr> else c)"

fun conn_act :: "act \<Rightarrow> conn \<Rightarrow> conn" where
  "conn_act (SetHeader k v) c = c\<lparr>cn_headers := gm_set k v (cn_headers c)\<rparr>"
| "conn_act (WriteHeader code) c = conn_commit code c"
| "conn_act (Write b) c = (let c1 = conn_commit 200 c in c1\<lparr>cn_body := cn_body c1 @ b\<rparr>)"
| "conn_act (Emit e) c = c"

definition conn_response :: "conn \<Rightarrow> response" where
  "conn_response c =
     (case cn_sent (conn_commit 200 c) of
        Some (code, h) \<Rightarrow> \<lparr>resp_status = code, resp_headers = h, resp_body = cn_body c\<rparr>
      | None \<Rightarrow> \<lparr>resp_status = 200, resp_headers = cn_headers c, resp_body = cn_body c\<rparr>)"

definition respond :: "act list \<Rightarrow> response" where
  "respond as = conn_response (fold conn_act as new_conn)"

text \<open>A panic that reaches \<^verbatim>\<open>net/http\<close> drops the connection.\<close>

fun served :: "outcome \<Rightarrow> response option" where
  "served (as, None) = Some (respond as)"
| "served (as, Some v) = None"

fun emitted :: "act list \<Rightarrow> event list" where
  "emitted [] = []"
| "emitted (Emit e # as) = e # emitted as"
| "emitted (SetHeader k v # as) = emitted as"
| "emitted (WriteHeader c # as) = emitted as"
| "emitted (Write b # as) = emitted as"

lemma emitted_append [simp]: "emitted (xs @ ys) = emitted xs @ emitted ys"
  by (induction xs rule: emitted.induct) simp_all

lemma emitted_Emits [simp]: "emitted (map Emit es) = es"
  by (induction es) simp_all

section \<open>Writers that remember\<close>

text \<open>\<^verbatim>\<open>safe.recordingWriter\<close>.\<close>

record recordingWriter =
  rw_wroteHeader :: bool
  rw_status :: nat

definition new_recordingWriter :: recordingWriter where
  "new_recordingWriter = \<lparr>rw_wroteHeader = False, rw_status = 0\<rparr>"

definition rw_WriteHeader :: "nat \<Rightarrow> recordingWriter \<Rightarrow> recordingWriter \<times> act list" where
  "rw_WriteHeader code w =
     (if rw_wroteHeader w then (w, [])
      else (w\<lparr>rw_wroteHeader := True, rw_status := code\<rparr>, [WriteHeader code]))"

definition rw_Write :: "body \<Rightarrow> recordingWriter \<Rightarrow> recordingWriter \<times> act list" where
  "rw_Write b w =
     (if \<not> rw_wroteHeader w
      then (case rw_WriteHeader 200 w of (w, as) \<Rightarrow> (w, as @ [Write b]))
      else (w, [Write b]))"

text \<open>\<^verbatim>\<open>statusWriter\<close> of \<^verbatim>\<open>middleware.go\<close>.\<close>

record statusWriter =
  sw_status :: nat
  sw_wrote :: bool

definition new_statusWriter :: statusWriter where
  "new_statusWriter = \<lparr>sw_status = 200, sw_wrote = False\<rparr>"

definition sw_WriteHeader :: "nat \<Rightarrow> statusWriter \<Rightarrow> statusWriter \<times> act list" where
  "sw_WriteHeader code w =
     (if sw_wrote w then (w, [])
      else (w\<lparr>sw_wrote := True, sw_status := code\<rparr>, [WriteHeader code]))"

definition sw_Write :: "body \<Rightarrow> statusWriter \<Rightarrow> statusWriter \<times> act list" where
  "sw_Write b w =
     (if \<not> sw_wrote w
      then (case sw_WriteHeader 200 w of (w, as) \<Rightarrow> (w, as @ [Write b]))
      else (w, [Write b]))"

text \<open>A handler that is given such a writer: what passes through to the writer below.\<close>

fun drive :: "(nat \<Rightarrow> 'w \<Rightarrow> 'w \<times> act list) \<Rightarrow> (body \<Rightarrow> 'w \<Rightarrow> 'w \<times> act list) \<Rightarrow> 'w \<Rightarrow> act list \<Rightarrow> 'w \<times> act list" where
  "drive hdr wr w [] = (w, [])"
| "drive hdr wr w (a # as) =
     (case (case a of WriteHeader c \<Rightarrow> hdr c w | Write b \<Rightarrow> wr b w | _ \<Rightarrow> (w, [a])) of
        (w', out) \<Rightarrow> (case drive hdr wr w' as of (w'', rest) \<Rightarrow> (w'', out @ rest)))"

text \<open>
  What both writers promise: they pass on every write and the first status, which they remember.
\<close>

locale remembering_writer =
  fixes start :: 'w
    and wrote :: "'w \<Rightarrow> bool"
    and status :: "'w \<Rightarrow> nat"
    and hdr :: "nat \<Rightarrow> 'w \<Rightarrow> 'w \<times> act list"
    and wr :: "body \<Rightarrow> 'w \<Rightarrow> 'w \<times> act list"
  assumes start_silent: "\<not> wrote start"
    and hdr_again: "wrote w \<Longrightarrow> hdr c w = (w, [])"
    and hdr_first: "\<not> wrote w \<Longrightarrow> \<exists>w'. hdr c w = (w', [WriteHeader c]) \<and> wrote w' \<and> status w' = c"
    and wr_again: "wrote w \<Longrightarrow> wr b w = (w, [Write b])"
    and wr_first: "\<not> wrote w \<Longrightarrow> wr b w = (case hdr 200 w of (w', as) \<Rightarrow> (w', as @ [Write b]))"
begin

lemma drive_conn:
  assumes "drive hdr wr w as = (w', out)" "wrote w = (cn_sent c \<noteq> None)"
    and "wrote w \<Longrightarrow> map_option fst (cn_sent c) = Some (status w)"
  shows "fold conn_act out c = fold conn_act as c \<and> emitted out = emitted as \<and>
    wrote w' = (cn_sent (fold conn_act as c) \<noteq> None) \<and>
    (wrote w' \<longrightarrow> map_option fst (cn_sent (fold conn_act as c)) = Some (status w'))"
  using assms
proof (induction as arbitrary: w c out w')
  case (Cons a as)
  define r where "r = (case a of WriteHeader c \<Rightarrow> hdr c w | Write b \<Rightarrow> wr b w | _ \<Rightarrow> (w, [a]))"
  obtain w1 o1 where r: "r = (w1, o1)" by (rule prod.exhaust)
  obtain w2 o2 where d: "drive hdr wr w1 as = (w2, o2)" by (rule prod.exhaust)
  have out: "w' = w2" "out = o1 @ o2" using Cons.prems(1) r d by (simp_all add: r_def)
  have step: "fold conn_act o1 c = conn_act a c \<and> emitted o1 = emitted [a] \<and>
      wrote w1 = (cn_sent (conn_act a c) \<noteq> None) \<and>
      (wrote w1 \<longrightarrow> map_option fst (cn_sent (conn_act a c)) = Some (status w1))"
  proof (cases "wrote w")
    case True
    then show ?thesis
      using r Cons.prems(2,3) hdr_again wr_again
      by (cases a) (auto simp: r_def conn_commit_def Let_def)
  next
    case False
    then have none: "cn_sent c = None" using Cons.prems(2) by blast
    show ?thesis
    proof (cases a)
      case (WriteHeader k)
      then show ?thesis using hdr_first [OF False, of k] r none by (auto simp: r_def conn_commit_def)
    next
      case (Write b)
      then show ?thesis
        using hdr_first [OF False, of 200] wr_first [OF False] r none
        by (auto simp: r_def conn_commit_def Let_def)
    qed (use False none r in \<open>auto simp: r_def\<close>)
  qed
  then have "fold conn_act o2 (conn_act a c) = fold conn_act as (conn_act a c) \<and> emitted o2 = emitted as \<and>
      wrote w2 = (cn_sent (fold conn_act as (conn_act a c)) \<noteq> None) \<and>
      (wrote w2 \<longrightarrow> map_option fst (cn_sent (fold conn_act as (conn_act a c))) = Some (status w2))"
    using Cons.IH [OF d, of "conn_act a c"] by blast
  then show ?case using step out emitted_append [of "[a]" as] by simp
qed (auto)

lemma transparent:
  assumes "drive hdr wr start as = (w, out)" "cn_sent c = None"
  shows "fold conn_act out c = fold conn_act as c" "emitted out = emitted as"
    and "wrote w \<longleftrightarrow> cn_sent (fold conn_act as c) \<noteq> None"
    and "cn_sent (fold conn_act as c) = Some (code, h) \<Longrightarrow> status w = code"
  using drive_conn [OF assms(1), of c] assms(2) start_silent by auto

end

interpretation rw: remembering_writer new_recordingWriter rw_wroteHeader rw_status rw_WriteHeader rw_Write
  by unfold_locales (auto simp: new_recordingWriter_def rw_WriteHeader_def rw_Write_def)

interpretation sw: remembering_writer new_statusWriter sw_wrote sw_status sw_WriteHeader sw_Write
  by unfold_locales (auto simp: new_statusWriter_def sw_WriteHeader_def sw_Write_def)

section \<open>The panic boundaries\<close>

definition SiteHTTP :: string where "SiteHTTP = ''http_handler''"
definition SiteEvaluate :: string where "SiteEvaluate = ''evaluate''"

text \<open>
  A \<^verbatim>\<open>PanicFunc\<close>: what it records, and whether it panics itself. \<^const>\<open>None\<close> is the nil function.
\<close>

type_synonym panic_func = "string \<Rightarrow> panic_value \<Rightarrow> event list \<times> bool"

definition Reporter :: panic_func where
  "Reporter site v = ([MPanic site, LPanic site], False)"

definition report :: "panic_func option \<Rightarrow> string \<Rightarrow> panic_value \<Rightarrow> act list" where
  "report onPanic site v =
     (case onPanic of
        None \<Rightarrow> []
      | Some f \<Rightarrow> (case f site v of (events, panicked) \<Rightarrow> map Emit events))"

definition Recover :: "panic_func option \<Rightarrow> string \<Rightarrow> panic_value option \<Rightarrow> act list" where
  "Recover onPanic site p = (case p of None \<Rightarrow> [] | Some v \<Rightarrow> report onPanic site v)"

text \<open>\<^verbatim>\<open>safe.Do\<close>: the result is \<^const>\<open>None\<close> when the function panicked.\<close>

definition safe_Do :: "panic_func option \<Rightarrow> string \<Rightarrow> act list \<times> (panic_value + 'a) \<Rightarrow> act list \<times> 'a option" where
  "safe_Do onPanic site fn =
     (case fn of
        (as, Inr x) \<Rightarrow> (as, Some x)
      | (as, Inl v) \<Rightarrow> (as @ report onPanic site v, None))"

text \<open>\<^verbatim>\<open>safe.Go\<close>: what the new goroutine does. Its panic ends there.\<close>

definition safe_Go :: "panic_func option \<Rightarrow> string \<Rightarrow> outcome \<Rightarrow> outcome" where
  "safe_Go onPanic site fn = (case fn of (as, p) \<Rightarrow> (as @ Recover onPanic site p, None))"

definition safe_Middleware :: "panic_func option \<Rightarrow> Trace \<Rightarrow> string \<Rightarrow> outcome \<Rightarrow> outcome" where
  "safe_Middleware onPanic t now handler =
     (case handler of
        (as, p) \<Rightarrow>
          (case drive rw_WriteHeader rw_Write new_recordingWriter as of
             (rw, out) \<Rightarrow>
               (case p of
                  None \<Rightarrow> (out, None)
                | Some v \<Rightarrow>
                    if v = ErrAbortHandler then (out, Some v)
                    else if rw_wroteHeader rw then (out @ report onPanic SiteHTTP v, None)
                    else (out @ report onPanic SiteHTTP v @ WriteInternal t now, None))))"

section \<open>The chain\<close>

text \<open>
  \<^verbatim>\<open>http.TimeoutHandler\<close> runs the handler against a buffer. Whether it returned in time is an input; when it did not,
  the buffer is dropped, and so is a panic that comes later. The records were made in any case.
\<close>

datatype deadline = InTime | DeadlineExceeded | ClientGone

record timeoutWriter =
  tw_headers :: headers
  tw_code :: "nat option"
  tw_buf :: body

fun tw_act :: "act \<Rightarrow> timeoutWriter \<Rightarrow> timeoutWriter" where
  "tw_act (SetHeader k v) w = w\<lparr>tw_headers := gm_set k v (tw_headers w)\<rparr>"
| "tw_act (WriteHeader c) w = (if tw_code w = None then w\<lparr>tw_code := Some c\<rparr> else w)"
| "tw_act (Write b) w =
     (let w1 = (if tw_code w = None then w\<lparr>tw_code := Some 200\<rparr> else w) in w1\<lparr>tw_buf := tw_buf w1 @ b\<rparr>)"
| "tw_act (Emit e) w = w"

definition timed :: "act list \<Rightarrow> timeoutWriter" where
  "timed as = fold tw_act as \<lparr>tw_headers = [], tw_code = None, tw_buf = []\<rparr>"

definition TimeoutHandler :: "deadline \<Rightarrow> outcome \<Rightarrow> outcome" where
  "TimeoutHandler dl handler =
     (case handler of
        (as, p) \<Rightarrow>
          (case dl of
             InTime \<Rightarrow>
               (case p of
                  Some v \<Rightarrow> (map Emit (emitted as), Some v)
                | None \<Rightarrow>
                    (let w = timed as in
                     (map Emit (emitted as) @ map (\<lambda>(k, v). SetHeader k v) (tw_headers w) @
                      [WriteHeader (case tw_code w of None \<Rightarrow> 200 | Some c \<Rightarrow> c), Write (tw_buf w)], None)))
           | DeadlineExceeded \<Rightarrow> (map Emit (emitted as) @ [WriteHeader 503, Write [Text TimeoutBody]], None)
           | ClientGone \<Rightarrow> (map Emit (emitted as) @ [WriteHeader 503], None)))"

definition routes :: "(string \<times> string) list" where
  "routes =
     [(''/v1/evaluate'', ''eval''), (''/v1/evaluate/batch'', ''eval_batch''),
      (''/v1/config/layers'', ''config_apply''), (''/health'', ''health''), (''/live'', ''live''),
      (''/ready'', ''ready''), (''/debug/vars'', ''debug_vars'')]"

definition routeLabel :: "string \<Rightarrow> string" where
  "routeLabel path =
     (case map_of routes path of
        Some r \<Rightarrow> r
      | None \<Rightarrow> if prefix ''/v1/config/snapshot/'' path then ''config_snapshot'' else ''other'')"

definition metricsMiddleware :: "request \<Rightarrow> outcome \<Rightarrow> outcome" where
  "metricsMiddleware rq handler =
     (case handler of
        (as, p) \<Rightarrow>
          (case drive sw_WriteHeader sw_Write new_statusWriter as of
             (sw, out) \<Rightarrow>
               (case p of
                  None \<Rightarrow> (out @ [Emit (MHTTPRequest (routeLabel (rq_Path rq)) (rq_Method rq) (sw_status sw))], None)
                | Some v \<Rightarrow> (out, Some v))))"

text \<open>What the world decides about one request: random bytes, clocks, and whether the handler is in time.\<close>

record world =
  w_rand1 :: random
  w_rand2 :: random
  w_nano :: uint64
  w_now :: string
  w_deadline :: deadline

definition request_trace :: "world \<Rightarrow> request \<Rightarrow> Trace" where
  "request_trace w rq = EnsureTrace no_trace (rq_Headers rq) (w_rand1 w) (w_rand2 w) (w_nano w)"

definition TraceMiddleware :: "world \<Rightarrow> request \<Rightarrow> (Trace \<Rightarrow> outcome) \<Rightarrow> outcome" where
  "TraceMiddleware w rq next1 =
     (let t = request_trace w rq in
      case next1 t of (as, p) \<Rightarrow> (SetHeader HeaderTraceID (tr_TraceID t) # as, p))"

definition wrap :: "panic_func option \<Rightarrow> world \<Rightarrow> request \<Rightarrow> (Trace \<Rightarrow> outcome) \<Rightarrow> outcome" where
  "wrap onPanic w rq h =
     TraceMiddleware w rq (\<lambda>t.
       metricsMiddleware rq (safe_Middleware onPanic t (w_now w) (TimeoutHandler (w_deadline w) (h t))))"

lemma routeLabel_range:
  "routeLabel path \<in> {''eval'', ''eval_batch'', ''config_apply'', ''health'', ''live'', ''ready'',
     ''debug_vars'', ''config_snapshot'', ''other''}"
  by (simp add: routeLabel_def routes_def)

section \<open>What the chain guarantees\<close>

definition committed :: "act list \<Rightarrow> bool" where
  "committed as \<longleftrightarrow> list_ex (\<lambda>a. case a of WriteHeader _ \<Rightarrow> True | Write _ \<Rightarrow> True | _ \<Rightarrow> False) as"

lemma conn_commit_sent [simp]: "cn_sent (conn_commit code c) \<noteq> None"
  by (simp add: conn_commit_def)

lemma committed_sent: "cn_sent (fold conn_act as c) \<noteq> None \<longleftrightarrow> cn_sent c \<noteq> None \<or> committed as"
proof (induction as arbitrary: c)
  case (Cons a as)
  then show ?case by (cases a) (auto simp: committed_def Let_def conn_commit_def)
qed (simp add: committed_def)

lemma fold_Emits [simp]: "fold conn_act (map Emit es) c = c"
  by (induction es) simp_all

lemma fold_SetHeaders:
  "fold conn_act (map (\<lambda>(k, v). SetHeader k v) h) c =
     c\<lparr>cn_headers := fold (\<lambda>(k, v). gm_set k v) h (cn_headers c)\<rparr>"
  by (induction h arbitrary: c) auto

lemma report_Emits: "\<exists>es. report onPanic site v = map Emit es"
  by (cases onPanic) (auto simp: report_def split: prod.split)

lemma fold_report [simp]: "fold conn_act (report onPanic site v) c = c"
  using report_Emits [of onPanic site v] by auto

lemma emitted_WriteInternal [simp]: "emitted (WriteInternal t now) = []"
  by (simp add: WriteInternal_def write_error_def)

lemma new_conn_silent [simp]: "cn_sent new_conn = None"
  by (simp add: new_conn_def)

text \<open>The boundary around any handler, one that streams included.\<close>

lemma safe_Middleware_conn:
  assumes "cn_sent c = None"
  shows "fold conn_act (fst (safe_Middleware onPanic t now (as, p))) c =
      (if p = None \<or> p = Some ErrAbortHandler \<or> committed as then fold conn_act as c
       else fold conn_act (as @ WriteInternal t now) c)"
    and "snd (safe_Middleware onPanic t now (as, p)) = (if p = Some ErrAbortHandler then p else None)"
    and "emitted (fst (safe_Middleware onPanic t now (as, p))) = emitted as @
      (case p of None \<Rightarrow> [] | Some v \<Rightarrow> if v = ErrAbortHandler then [] else emitted (report onPanic SiteHTTP v))"
proof -
  obtain w out where d: "drive rw_WriteHeader rw_Write new_recordingWriter as = (w, out)" by (rule prod.exhaust)
  note tr = rw.transparent [OF d assms]
  show "fold conn_act (fst (safe_Middleware onPanic t now (as, p))) c =
      (if p = None \<or> p = Some ErrAbortHandler \<or> committed as then fold conn_act as c
       else fold conn_act (as @ WriteInternal t now) c)"
    using tr d committed_sent [of as c] assms by (auto simp: safe_Middleware_def split: option.split)
  show "snd (safe_Middleware onPanic t now (as, p)) = (if p = Some ErrAbortHandler then p else None)"
    using d by (auto simp: safe_Middleware_def split: option.split)
  show "emitted (fst (safe_Middleware onPanic t now (as, p))) = emitted as @
      (case p of None \<Rightarrow> [] | Some v \<Rightarrow> if v = ErrAbortHandler then [] else emitted (report onPanic SiteHTTP v))"
    using d tr(2) by (auto simp: safe_Middleware_def split: option.split)
qed

lemma TimeoutHandler_conn:
  assumes "cn_sent c = None"
  shows "fold conn_act (fst (TimeoutHandler dl (as, p))) c =
    (case dl of
       InTime \<Rightarrow>
         (if p = None
          then \<lparr>cn_headers = fold (\<lambda>(k, v). gm_set k v) (tw_headers (timed as)) (cn_headers c),
            cn_sent = Some (case tw_code (timed as) of None \<Rightarrow> 200 | Some s \<Rightarrow> s,
              fold (\<lambda>(k, v). gm_set k v) (tw_headers (timed as)) (cn_headers c)),
            cn_body = cn_body c @ tw_buf (timed as)\<rparr>
          else c)
     | DeadlineExceeded \<Rightarrow> c\<lparr>cn_sent := Some (503, cn_headers c), cn_body := cn_body c @ [Text TimeoutBody]\<rparr>
     | ClientGone \<Rightarrow> c\<lparr>cn_sent := Some (503, cn_headers c)\<rparr>)"
  using assms
  by (auto simp: TimeoutHandler_def Let_def fold_SetHeaders conn_commit_def split: deadline.split option.split)

lemma metricsMiddleware_conn:
  assumes "cn_sent c = None"
  shows "fold conn_act (fst (metricsMiddleware rq (as, p))) c = fold conn_act as c"
    and "snd (metricsMiddleware rq (as, p)) = p"
    and "cn_sent (fold conn_act as c) = Some (code, h) \<Longrightarrow>
      emitted (fst (metricsMiddleware rq (as, p))) = emitted as @
        (if p = None then [MHTTPRequest (routeLabel (rq_Path rq)) (rq_Method rq) code] else [])"
    and "p \<noteq> None \<Longrightarrow> emitted (fst (metricsMiddleware rq (as, p))) = emitted as"
proof -
  obtain w out where d: "drive sw_WriteHeader sw_Write new_statusWriter as = (w, out)" by (rule prod.exhaust)
  note tr = sw.transparent [OF d assms]
  show "fold conn_act (fst (metricsMiddleware rq (as, p))) c = fold conn_act as c"
    using tr(1) d by (simp add: metricsMiddleware_def split: option.split)
  show "snd (metricsMiddleware rq (as, p)) = p"
    using d by (simp add: metricsMiddleware_def split: option.split)
  show "cn_sent (fold conn_act as c) = Some (code, h) \<Longrightarrow>
      emitted (fst (metricsMiddleware rq (as, p))) = emitted as @
        (if p = None then [MHTTPRequest (routeLabel (rq_Path rq)) (rq_Method rq) code] else [])"
    using tr(2) tr(4) [of code h] d by (simp add: metricsMiddleware_def split: option.split)
  show "p \<noteq> None \<Longrightarrow> emitted (fst (metricsMiddleware rq (as, p))) = emitted as"
    using tr(2) d by (auto simp: metricsMiddleware_def split: option.split)
qed

text \<open>What a request gets, as a table over what the handler did and whether it was in time.\<close>

definition error_response :: "Trace \<Rightarrow> string \<Rightarrow> Code \<Rightarrow> string \<Rightarrow> response" where
  "error_response t now code msg =
     \<lparr>resp_status = Status code,
      resp_headers = fold (\<lambda>(k, v). gm_set k v)
        [(HeaderTraceID, tr_TraceID t), (content_type, application_json), (content_type_options, ''nosniff''),
         (HeaderTraceID, tr_TraceID t)] [],
      resp_body = [Doc (envelope t now code msg)]\<rparr>"

fun chain_response :: "deadline \<Rightarrow> Trace \<Rightarrow> string \<Rightarrow> outcome \<Rightarrow> response option" where
  "chain_response InTime t now (as, None) = Some
     \<lparr>resp_status = (case tw_code (timed as) of None \<Rightarrow> 200 | Some c \<Rightarrow> c),
      resp_headers = fold (\<lambda>(k, v). gm_set k v) (tw_headers (timed as)) [(HeaderTraceID, tr_TraceID t)],
      resp_body = tw_buf (timed as)\<rparr>"
| "chain_response InTime t now (as, Some ErrAbortHandler) = None"
| "chain_response InTime t now (as, Some (PanicValue m)) =
     Some (error_response t now CodeInternal internalMessage)"
| "chain_response DeadlineExceeded t now h = Some
     \<lparr>resp_status = 503, resp_headers = [(HeaderTraceID, tr_TraceID t)], resp_body = [Text TimeoutBody]\<rparr>"
| "chain_response ClientGone t now h = Some
     \<lparr>resp_status = 503, resp_headers = [(HeaderTraceID, tr_TraceID t)], resp_body = []\<rparr>"

fun chain_panic :: "deadline \<Rightarrow> panic_value option \<Rightarrow> event list" where
  "chain_panic InTime (Some (PanicValue m)) = [MPanic SiteHTTP, LPanic SiteHTTP]"
| "chain_panic _ _ = []"

lemma request_trace_nonempty: "tr_TraceID (request_trace w rq) \<noteq> []"
  using ensured_safe [of no_trace "rq_Headers rq" "w_rand1 w" "w_rand2 w" "w_nano w"]
  by (simp add: request_trace_def safe_id_nonempty Trace_Valid_def no_trace_def)

lemma TimeoutHandler_snd:
  "snd (TimeoutHandler dl (as, p)) = (if dl = InTime then p else None)"
  by (simp add: TimeoutHandler_def Let_def split: deadline.split option.split)

lemma emitted_SetHeaders [simp]: "emitted (map (\<lambda>(k, v). SetHeader k v) h) = []"
  by (induction h) auto

lemma TimeoutHandler_emitted: "emitted (fst (TimeoutHandler dl (as, p))) = emitted as"
  by (simp add: TimeoutHandler_def Let_def split: deadline.split option.split)

lemma TimeoutHandler_committed:
  "committed (fst (TimeoutHandler dl (as, p))) \<longleftrightarrow> dl \<noteq> InTime \<or> p = None"
proof -
  have "\<not> committed (map Emit es)" for es by (induction es) (simp_all add: committed_def)
  then show ?thesis
    by (auto simp: TimeoutHandler_def Let_def committed_def split: deadline.split option.split)
qed

lemma TraceMiddleware_served:
  assumes "next1 t = (as, p)" "t = request_trace w rq"
  shows "served (TraceMiddleware w rq next1) =
      (if p = None then Some (conn_response (fold conn_act as
        \<lparr>cn_headers = [(HeaderTraceID, tr_TraceID t)], cn_sent = None, cn_body = []\<rparr>)) else None)"
    and "emitted (fst (TraceMiddleware w rq next1)) = emitted as"
  using assms by (cases p; simp add: TraceMiddleware_def respond_def new_conn_def Let_def)+

lemma wrap_response:
  "served (wrap (Some Reporter) w rq h) =
     chain_response (w_deadline w) (request_trace w rq) (w_now w) (h (request_trace w rq)) \<and>
   emitted (fst (wrap (Some Reporter) w rq h)) =
     emitted (fst (h (request_trace w rq))) @ chain_panic (w_deadline w) (snd (h (request_trace w rq))) @
     (case chain_response (w_deadline w) (request_trace w rq) (w_now w) (h (request_trace w rq)) of
        None \<Rightarrow> []
      | Some r \<Rightarrow> [MHTTPRequest (routeLabel (rq_Path rq)) (rq_Method rq) (resp_status r)])"
proof -
  define t where "t = request_trace w rq"
  obtain as p where h: "h t = (as, p)" by (rule prod.exhaust)
  define c where "c = \<lparr>cn_headers = [(HeaderTraceID, tr_TraceID t)], cn_sent = None, cn_body = []\<rparr>"
  have c: "cn_sent c = None" by (simp add: c_def)
  obtain as1 p1 where to: "TimeoutHandler (w_deadline w) (as, p) = (as1, p1)" by (rule prod.exhaust)
  obtain as2 p2 where sm: "safe_Middleware (Some Reporter) t (w_now w) (as1, p1) = (as2, p2)" by (rule prod.exhaust)
  obtain as3 p3 where mm: "metricsMiddleware rq (as2, p2) = (as3, p3)" by (rule prod.exhaust)
  note T = TimeoutHandler_conn [OF c, of "w_deadline w" as p] TimeoutHandler_snd [of "w_deadline w" as p]
    TimeoutHandler_emitted [of "w_deadline w" as p] TimeoutHandler_committed [of "w_deadline w" as p]
  note S = safe_Middleware_conn [OF c, where onPanic = "Some Reporter" and t = t and now = "w_now w" and as = as1 and p = p1]
  note M = metricsMiddleware_conn [OF c, where rq = rq and as = as2 and p = p2]
  have tm: "served (wrap (Some Reporter) w rq h) = (if p3 = None then Some (conn_response (fold conn_act as3 c)) else None)"
      "emitted (fst (wrap (Some Reporter) w rq h)) = emitted as3"
    using TraceMiddleware_served [of _ t as3 p3 w rq] to sm mm h by (simp_all add: wrap_def t_def c_def)
  have e: "tr_TraceID t \<noteq> []" using request_trace_nonempty by (simp add: t_def)
  show ?thesis
  proof (cases "w_deadline w")
    case InTime
    show ?thesis
    proof (cases p)
      case None
      then show ?thesis
        using InTime T S M to sm mm unfolding tm t_def [symmetric] h
        by (auto simp: conn_response_def conn_commit_def c_def)
    next
      case (Some v)
      show ?thesis
      proof (cases v)
        case ErrAbortHandler
        then show ?thesis
          using InTime Some T S M to sm mm unfolding tm t_def [symmetric] h by auto
      next
        case (PanicValue m)
        then show ?thesis
          using InTime Some T S M to sm mm e unfolding tm t_def [symmetric] h
          by (auto simp: conn_response_def conn_commit_def c_def WriteInternal_def write_error_def error_response_def
              report_def Reporter_def)
      qed
    qed
  next
    case DeadlineExceeded
    then show ?thesis
      using T S M to sm mm unfolding tm t_def [symmetric] h
      by (auto simp: conn_response_def conn_commit_def c_def)
  next
    case ClientGone
    then show ?thesis
      using T S M to sm mm unfolding tm t_def [symmetric] h
      by (auto simp: conn_response_def conn_commit_def c_def)
  qed
qed

text \<open>C32. Whatever a handler does (write twice, write nothing, panic, be too slow), a request gets exactly the
  response of the table: what the handler wrote when it returned in time, the internal envelope with the
  trace id and without a word of the panic when it panicked, the fixed time-out body when it was late; only
  a deliberate abort drops the connection. A contained panic is counted and logged once, and the status the
  metrics see is the status the client gets.
\<close>

theorem exactly_one_response:
  "served (wrap (Some Reporter) w rq h) =
     chain_response (w_deadline w) (request_trace w rq) (w_now w) (h (request_trace w rq)) \<and>
   emitted (fst (wrap (Some Reporter) w rq h)) =
     emitted (fst (h (request_trace w rq))) @ chain_panic (w_deadline w) (snd (h (request_trace w rq))) @
     (case chain_response (w_deadline w) (request_trace w rq) (w_now w) (h (request_trace w rq)) of
        None \<Rightarrow> []
      | Some r \<Rightarrow> [MHTTPRequest (routeLabel (rq_Path rq)) (rq_Method rq) (resp_status r)])"
  by (rule wrap_response)

text \<open>
  The envelope of a late request says \<^verbatim>\<open>timeout\<close>, but under status 503 and without a content type, not under the
  504 that \<^const>\<open>Status\<close> gives this code.
\<close>

lemma timeout_status_differs:
  assumes "w_deadline w = DeadlineExceeded"
  shows "\<exists>r. served (wrap (Some Reporter) w rq h) = Some r \<and> resp_body r = [Text TimeoutBody] \<and>
    resp_status r = 503 \<and> Status CodeTimeout = 504 \<and> hdr_Get (resp_headers r) content_type = []"
  using wrap_response [of w rq h] assms
  by (simp add: hdr_Get_def gm_get_def HeaderTraceID_def content_type_def)

end
