(* ===== verification/Transport_Eval.thy ===== *)
theory Transport_Eval
  imports Transport_Chain Core_Evaluator
begin

text \<open>
  The evaluation endpoints: the wire types of \<^verbatim>\<open>internal/transport/http/api.go\<close>, the request decoding of
  \<^verbatim>\<open>middleware.go\<close> and the handlers of \<^verbatim>\<open>eval.go\<close>. A handler is a computation that loads snapshots, acts on
  its response writer, and may panic; the snapshot source may answer differently at every load, as it does
  when a publication lands in between, and a computation counts its loads.
\<close>

section \<open>Computations\<close>

type_synonym 'a run = "nat \<Rightarrow> act list \<times> nat \<times> (panic_value + 'a)"

definition ret :: "'a \<Rightarrow> 'a run" where
  "ret x n = ([], n, Inr x)"

definition panic :: "panic_value \<Rightarrow> 'a run" where
  "panic v n = ([], n, Inl v)"

definition perform :: "act list \<Rightarrow> unit run" where
  "perform as n = (as, n, Inr ())"

definition andThen :: "'a run \<Rightarrow> ('a \<Rightarrow> 'b run) \<Rightarrow> 'b run" where
  "andThen m k n =
     (case m n of
        (as, n', Inl v) \<Rightarrow> (as, n', Inl v)
      | (as, n', Inr x) \<Rightarrow> (case k x n' of (bs, n'', r) \<Rightarrow> (as @ bs, n'', r)))"

definition outcome_of :: "'a run \<Rightarrow> outcome" where
  "outcome_of m = (case m 0 of (as, n, Inl v) \<Rightarrow> (as, Some v) | (as, n, Inr x) \<Rightarrow> (as, None))"

lemma andThen_ret [simp]: "andThen (ret x) k = k x"
  by (simp add: andThen_def ret_def fun_eq_iff split: prod.split)

lemma andThen_panic [simp]: "andThen (panic v) k = panic v"
  by (simp add: andThen_def panic_def fun_eq_iff)

lemma andThen_assoc: "andThen (andThen m k) h = andThen m (\<lambda>x. andThen (k x) h)"
  by (auto simp: andThen_def fun_eq_iff split: prod.split sum.split)

section \<open>The server\<close>

text \<open>
  A snapshot source; a load answers what is live at that moment. A foreign evaluator may panic. The
  configuration is what the handlers read of it, after its defaults.
\<close>

type_synonym snapshot_source = "nat \<Rightarrow> string \<Rightarrow> snapshot_view option \<times> bool"

type_synonym http_evaluator =
  "snapshot_view \<Rightarrow> string \<Rightarrow> EvalContext \<Rightarrow> ValueType \<Rightarrow> Value \<Rightarrow> panic_value + Result"

record Config =
  cfg_EvalAddr :: string
  cfg_AdminAddr :: string
  cfg_ReadHeaderTimeout :: int
  cfg_ReadTimeout :: int
  cfg_WriteTimeout :: int
  cfg_IdleTimeout :: int
  cfg_HandlerTimeout :: int
  cfg_MaxBodyBytes :: int
  cfg_MaxBatchFlags :: int
  cfg_RequiredEnvs :: "string list"
  cfg_StaleAfter :: int
  cfg_Service :: string
  cfg_InstanceID :: string

definition second :: int where "second = 1000000000"

definition withDefaults :: "Config \<Rightarrow> Config" where
  "withDefaults c =
     \<lparr>cfg_EvalAddr = (if cfg_EvalAddr c = [] then '':8080'' else cfg_EvalAddr c),
      cfg_AdminAddr = (if cfg_AdminAddr c = [] then '':9090'' else cfg_AdminAddr c),
      cfg_ReadHeaderTimeout = (if cfg_ReadHeaderTimeout c \<le> 0 then 2 * second else cfg_ReadHeaderTimeout c),
      cfg_ReadTimeout = (if cfg_ReadTimeout c \<le> 0 then 5 * second else cfg_ReadTimeout c),
      cfg_WriteTimeout = (if cfg_WriteTimeout c \<le> 0 then 10 * second else cfg_WriteTimeout c),
      cfg_IdleTimeout = (if cfg_IdleTimeout c \<le> 0 then 60 * second else cfg_IdleTimeout c),
      cfg_HandlerTimeout = (if cfg_HandlerTimeout c \<le> 0 then 3 * second else cfg_HandlerTimeout c),
      cfg_MaxBodyBytes = (if cfg_MaxBodyBytes c \<le> 0 then 2 ^ 20 else cfg_MaxBodyBytes c),
      cfg_MaxBatchFlags = (if cfg_MaxBatchFlags c \<le> 0 then 500 else cfg_MaxBatchFlags c),
      cfg_RequiredEnvs = cfg_RequiredEnvs c,
      cfg_StaleAfter = (if cfg_StaleAfter c \<le> 0 then 60 * second else cfg_StaleAfter c),
      cfg_Service = (if cfg_Service c = [] then ''flagd'' else cfg_Service c),
      cfg_InstanceID = cfg_InstanceID c\<rparr>"

lemma withDefaults_positive:
  "0 < cfg_MaxBodyBytes (withDefaults c)" "0 < cfg_MaxBatchFlags (withDefaults c)"
  "0 < cfg_HandlerTimeout (withDefaults c)" "0 < cfg_StaleAfter (withDefaults c)"
  "0 < cfg_ReadHeaderTimeout (withDefaults c)" "0 < cfg_ReadTimeout (withDefaults c)"
  "0 < cfg_WriteTimeout (withDefaults c)" "0 < cfg_IdleTimeout (withDefaults c)"
  by (simp_all add: withDefaults_def second_def)

text \<open>
  The part of a request handler's surroundings that stays the same: the configuration, the panic hook, the
  trace of the request and the time stamp of an envelope.
\<close>

record http_context =
  cx_cfg :: Config
  cx_onPanic :: "panic_func option"
  cx_trace :: Trace
  cx_now :: string

definition fail :: "http_context \<Rightarrow> Code \<Rightarrow> string \<Rightarrow> unit run" where
  "fail cx code msg = perform (write_error (cx_trace cx) (cx_now cx) code msg)"

text \<open>\<^verbatim>\<open>writeJSON\<close>; the document is \<^const>\<open>None\<close> when it cannot be marshalled.\<close>

definition writeJSON :: "http_context \<Rightarrow> nat \<Rightarrow> json option \<Rightarrow> unit run" where
  "writeJSON cx status doc =
     (case doc of
        None \<Rightarrow> perform (WriteInternal (cx_trace cx) (cx_now cx))
      | Some j \<Rightarrow> perform
          [SetHeader content_type application_json, SetHeader content_type_options ''nosniff'',
           WriteHeader status, Write [Doc j]])"

definition validToken :: "string \<Rightarrow> nat \<Rightarrow> bool" where
  "validToken s maxLen \<longleftrightarrow>
     s \<noteq> [] \<and> length s \<le> maxLen \<and>
     list_all (\<lambda>c. is_lower c \<or> is_upper c \<or> is_digit c \<or> c = CHR ''_'' \<or> c = CHR ''-'' \<or> c = CHR ''.'') s \<and>
     \<not> strings_Contains s ''..''"

definition validEnv :: "string \<Rightarrow> bool" where
  "validEnv s = validToken s 32"

definition validFlagKey :: "string \<Rightarrow> bool" where
  "validFlagKey s = validToken s 128"

section \<open>Request bodies\<close>

text \<open>
  The scanner of \<^verbatim>\<open>encoding/json\<close> is an argument: from the bytes read so far, and whether the body
  ends there, it finds the first document and what follows it.
\<close>

datatype scanned = Complete json string | Incomplete | Malformed

type_synonym scanner = "bool \<Rightarrow> string \<Rightarrow> scanned"

text \<open>Decoding writes into a value: an absent member leaves it alone, a repeated one is decoded over it.\<close>

type_synonym 'a into = "json \<Rightarrow> 'a \<Rightarrow> 'a option"

fun into_string :: "string into" where
  "into_string JNull s = Some s" | "into_string (JStr t) s = Some t" | "into_string _ s = None"

definition into_value :: "Value into" where
  "into_value j v = (case Value_UnmarshalJSON j of Inl _ \<Rightarrow> None | Inr x \<Rightarrow> Some x)"

fun into_members :: "(string \<Rightarrow> 'a into option) \<Rightarrow> (string \<times> json) list \<Rightarrow> 'a \<Rightarrow> 'a option" where
  "into_members field [] x = Some x"
| "into_members field ((name, j) # ms) x =
     (case field (strings_fold name) of
        None \<Rightarrow> None
      | Some d \<Rightarrow> (case d j x of None \<Rightarrow> None | Some y \<Rightarrow> into_members field ms y))"

text \<open>A struct with \<^verbatim>\<open>DisallowUnknownFields\<close>; the fields are given by their folded names.\<close>

fun into_struct :: "(string \<Rightarrow> 'a into option) \<Rightarrow> 'a into" where
  "into_struct field JNull x = Some x"
| "into_struct field (JObj ms) x = into_members field ms x"
| "into_struct field _ x = None"

fun into_entries :: "(string \<times> json) list \<Rightarrow> (string, Value) gomap \<Rightarrow> (string, Value) gomap option" where
  "into_entries [] m = Some m"
| "into_entries ((k, j) # ms) m =
     (case into_value j VUnset of None \<Rightarrow> None | Some v \<Rightarrow> into_entries ms (gm_set k v m))"

fun into_map :: "(string, Value) gomap into" where
  "into_map JNull m = Some []" | "into_map (JObj ms) m = into_entries ms m" | "into_map _ m = None"

fun into_elements :: "'a into \<Rightarrow> 'a \<Rightarrow> json list \<Rightarrow> 'a list \<Rightarrow> 'a list option" where
  "into_elements d zero [] xs = Some []"
| "into_elements d zero (j # js) xs =
     (case d j (case xs of [] \<Rightarrow> zero | x # _ \<Rightarrow> x) of
        None \<Rightarrow> None
      | Some y \<Rightarrow> map_option ((#) y) (into_elements d zero js (tl xs)))"

fun into_slice :: "'a into \<Rightarrow> 'a \<Rightarrow> 'a list into" where
  "into_slice d zero JNull xs = Some []"
| "into_slice d zero (JArr js) xs = into_elements d zero js xs"
| "into_slice d zero _ xs = None"

definition via :: "'b into \<Rightarrow> ('a \<Rightarrow> 'b) \<Rightarrow> ('b \<Rightarrow> 'a \<Rightarrow> 'a) \<Rightarrow> 'a into" where
  "via d get put j x = map_option (\<lambda>y. put y x) (d j (get x))"

record EvalContextWire =
  ew_UserID :: string
  ew_TenantID :: string
  ew_Attributes :: "(string, Value) gomap"

definition wire_toCore :: "EvalContextWire \<Rightarrow> EvalContext" where
  "wire_toCore c = \<lparr>ctx_UserID = ew_UserID c, ctx_TenantID = ew_TenantID c, ctx_Attributes = ew_Attributes c\<rparr>"

definition wire_keys :: "EvalContextWire \<Rightarrow> string list" where
  "wire_keys c =
     gm_keys (ew_Attributes c) @ (if ew_UserID c \<noteq> [] then [''user_id''] else []) @
     (if ew_TenantID c \<noteq> [] then [''tenant_id''] else [])"

record EvaluateRequest =
  er_Environment :: string
  er_Flag :: string
  er_Default :: Value
  er_Context :: EvalContextWire

record BatchFlag =
  bf_Flag :: string
  bf_Default :: Value

record EvaluateBatchRequest =
  br_Environment :: string
  br_Context :: EvalContextWire
  br_Flags :: "BatchFlag list"

definition zero_context :: EvalContextWire where
  "zero_context = \<lparr>ew_UserID = [], ew_TenantID = [], ew_Attributes = []\<rparr>"

definition zero_request :: EvaluateRequest where
  "zero_request = \<lparr>er_Environment = [], er_Flag = [], er_Default = VUnset, er_Context = zero_context\<rparr>"

definition zero_batch_flag :: BatchFlag where
  "zero_batch_flag = \<lparr>bf_Flag = [], bf_Default = VUnset\<rparr>"

definition zero_batch :: EvaluateBatchRequest where
  "zero_batch = \<lparr>br_Environment = [], br_Context = zero_context, br_Flags = []\<rparr>"

definition into_context :: "EvalContextWire into" where
  "into_context = into_struct (\<lambda>name.
     if name = ''user_id'' then Some (via into_string ew_UserID (\<lambda>s c. c\<lparr>ew_UserID := s\<rparr>))
     else if name = ''tenant_id'' then Some (via into_string ew_TenantID (\<lambda>s c. c\<lparr>ew_TenantID := s\<rparr>))
     else if name = ''attributes'' then Some (via into_map ew_Attributes (\<lambda>m c. c\<lparr>ew_Attributes := m\<rparr>))
     else None)"

definition into_request :: "EvaluateRequest into" where
  "into_request = into_struct (\<lambda>name.
     if name = ''environment'' then Some (via into_string er_Environment (\<lambda>s r. r\<lparr>er_Environment := s\<rparr>))
     else if name = ''flag'' then Some (via into_string er_Flag (\<lambda>s r. r\<lparr>er_Flag := s\<rparr>))
     else if name = ''default'' then Some (via into_value er_Default (\<lambda>v r. r\<lparr>er_Default := v\<rparr>))
     else if name = ''context'' then Some (via into_context er_Context (\<lambda>c r. r\<lparr>er_Context := c\<rparr>))
     else None)"

definition into_batch_flag :: "BatchFlag into" where
  "into_batch_flag = into_struct (\<lambda>name.
     if name = ''flag'' then Some (via into_string bf_Flag (\<lambda>s r. r\<lparr>bf_Flag := s\<rparr>))
     else if name = ''default'' then Some (via into_value bf_Default (\<lambda>v r. r\<lparr>bf_Default := v\<rparr>))
     else None)"

definition into_batch :: "EvaluateBatchRequest into" where
  "into_batch = into_struct (\<lambda>name.
     if name = ''environment'' then Some (via into_string br_Environment (\<lambda>s r. r\<lparr>br_Environment := s\<rparr>))
     else if name = ''context'' then Some (via into_context br_Context (\<lambda>c r. r\<lparr>br_Context := c\<rparr>))
     else if name = ''flags''
       then Some (via (into_slice into_batch_flag zero_batch_flag) br_Flags (\<lambda>fs r. r\<lparr>br_Flags := fs\<rparr>))
     else None)"

definition json_space :: "char \<Rightarrow> bool" where
  "json_space c \<longleftrightarrow> byte c \<in> {9, 10, 13, 32}"

definition media_type :: "string \<Rightarrow> string" where
  "media_type ct = strings_TrimSpace (hd (strings_Split ct (CHR '';'')))"

text \<open>
  \<^verbatim>\<open>decodeJSON\<close>: what a request body decodes to, or the error that is written. The body is cut at the
  limit; a document that ends within it decodes, but then the body must end too.
\<close>

definition decode_body :: "scanner \<Rightarrow> int \<Rightarrow> 'a into \<Rightarrow> 'a \<Rightarrow> request \<Rightarrow> (Code \<times> string) + 'a" where
  "decode_body scan limit d zero rq =
     (let ct = hdr_Get (rq_Headers rq) content_type;
          part = take (nat limit) (rq_Body rq);
          cut = int (length (rq_Body rq)) > limit;
          ends = (\<not> cut \<and> \<not> rq_BodyErr rq)
      in if ct \<noteq> [] \<and> \<not> strings_EqualFold (media_type ct) ''application/json''
         then Inl (CodeUnsupportedMediaType, ''content-type must be application/json'')
         else
           (case scan ends part of
              Malformed \<Rightarrow> Inl (CodeInvalidJSON, ''request body is not valid JSON for this endpoint'')
            | Incomplete \<Rightarrow>
                if cut then Inl (CodePayloadTooLarge, ''request body exceeds the size limit'')
                else Inl (CodeInvalidJSON, ''request body is not valid JSON for this endpoint'')
            | Complete j rest \<Rightarrow>
                (case d j zero of
                   None \<Rightarrow> Inl (CodeInvalidJSON, ''request body is not valid JSON for this endpoint'')
                 | Some x \<Rightarrow>
                     if ends \<and> list_all json_space rest then Inr x
                     else Inl (CodeInvalidJSON, ''request body must contain exactly one JSON object''))))"

definition decodeJSON :: "scanner \<Rightarrow> http_context \<Rightarrow> 'a into \<Rightarrow> 'a \<Rightarrow> request \<Rightarrow> 'a option run" where
  "decodeJSON scan cx d zero rq =
     (case decode_body scan (cfg_MaxBodyBytes (cx_cfg cx)) d zero rq of
        Inl (code, msg) \<Rightarrow> andThen (fail cx code msg) (\<lambda>_. ret None)
      | Inr x \<Rightarrow> ret (Some x))"

section \<open>The evaluation handlers\<close>

record EvaluateResponse =
  es_Flag :: string
  es_Environment :: string
  es_Value :: Value
  es_Reason :: string
  es_RuleID :: string
  es_Bucket :: int32
  es_Generation :: int64
  es_Fallback :: bool
  es_TraceID :: string

record EvaluateBatchResponse =
  bs_Environment :: string
  bs_Generation :: int64
  bs_TraceID :: string
  bs_Results :: "EvaluateResponse list"

definition marshal_response :: "EvaluateResponse \<Rightarrow> json" where
  "marshal_response r =
     JObj ([(''flag'', JStr (es_Flag r)), (''environment'', JStr (es_Environment r)),
            (''value'', Value_MarshalJSON (es_Value r)), (''reason'', JStr (es_Reason r))] @
           omitempty (es_RuleID r = []) ''rule_id'' (JStr (es_RuleID r)) @
           [(''bucket'', JInt (sint (es_Bucket r))), (''generation'', JInt (sint (es_Generation r))),
            (''fallback'', JBool (es_Fallback r))] @
           omitempty (es_TraceID r = []) ''trace_id'' (JStr (es_TraceID r)))"

definition marshal_batch :: "EvaluateBatchResponse \<Rightarrow> json" where
  "marshal_batch r =
     JObj ([(''environment'', JStr (bs_Environment r)), (''generation'', JInt (sint (bs_Generation r)))] @
           omitempty (bs_TraceID r = []) ''trace_id'' (JStr (bs_TraceID r)) @
           [(''results'', JArr (map marshal_response (bs_Results r)))])"

definition pin :: "snapshot_source \<Rightarrow> string \<Rightarrow> snapshot_view option run" where
  "pin src env n = ([], Suc n, Inr (case src n env of (snap, ok) \<Rightarrow> if ok then snap else None))"

text \<open>A snapshot of another package may panic when it is asked for its generation.\<close>

definition generationOf :: "snapshot_view option \<Rightarrow> int64 run" where
  "generationOf s =
     (case s of
        None \<Rightarrow> ret 0
      | Some s \<Rightarrow> (case snap_Generation s of None \<Rightarrow> panic (PanicValue ''Generation'') | Some g \<Rightarrow> ret g))"

definition call_site_default :: string where "call_site_default = ''call_site_default''"

definition http_finish :: "http_context \<Rightarrow> string \<Rightarrow> string \<Rightarrow> EvalContextWire \<Rightarrow> Result \<Rightarrow> int64 \<Rightarrow> EvaluateResponse run" where
  "http_finish cx key env ec res gen =
     (let reason = Reason_String (res_Reason res);
          fallback = Result_IsFallback res
      in andThen (perform ([Emit (MEvaluation key env reason fallback)] @
           (if fallback
            then [Emit (LEvaluationError \<lparr>ee_Flag = key, ee_Env = env, ee_Reason = reason, ee_Generation = gen,
              ee_RuleID = res_RuleID res, ee_CtxKeys = wire_keys ec, ee_ValueSource = call_site_default\<rparr>)]
            else []))) (\<lambda>_.
         ret \<lparr>es_Flag = key, es_Environment = env, es_Value = res_Value res, es_Reason = reason,
           es_RuleID = res_RuleID res, es_Bucket = res_Bucket res,
           es_Generation = (if res_Generation res = 0 then gen else res_Generation res),
           es_Fallback = fallback, es_TraceID = tr_TraceID (cx_trace cx)\<rparr>))"

text \<open>\<^const>\<open>None\<close> says that the error envelope was already written.\<close>

definition evaluateOne :: "http_context \<Rightarrow> http_evaluator \<Rightarrow> snapshot_view option \<Rightarrow> string \<Rightarrow> string \<Rightarrow>
    EvalContextWire \<Rightarrow> Value \<Rightarrow> EvaluateResponse option run" where
  "evaluateOne cx ev snap key env ec def1 =
     andThen (generationOf snap) (\<lambda>gen.
       case snap of
         None \<Rightarrow>
           andThen (http_finish cx key env ec (mk_result def1 ReasonFlagNotFound NoBucket 0) 0) (\<lambda>r. ret (Some r))
       | Some s \<Rightarrow>
           (case safe_Do (cx_onPanic cx) SiteEvaluate ([], ev s key (wire_toCore ec) (Value_Type def1) def1) of
              (as, None) \<Rightarrow>
                andThen (perform (as @
                  [Emit (LEvaluationError \<lparr>ee_Flag = key, ee_Env = env, ee_Reason = Reason_String ReasonError,
                     ee_Generation = gen, ee_RuleID = [], ee_CtxKeys = wire_keys ec,
                     ee_ValueSource = call_site_default\<rparr>),
                   Emit (MEvaluation key env (Reason_String ReasonError) True)] @
                  WriteInternal (cx_trace cx) (cx_now cx))) (\<lambda>_. ret None)
            | (as, Some res) \<Rightarrow>
                andThen (perform as) (\<lambda>_.
                  andThen (http_finish cx key env ec res gen) (\<lambda>r. ret (Some r)))))"

definition validateEnv :: "http_context \<Rightarrow> string \<Rightarrow> bool run" where
  "validateEnv cx env =
     (if validEnv env then ret True
      else andThen (fail cx CodeInvalidArgument ''environment must be 1-32 characters of [A-Za-z0-9_.-]'') (\<lambda>_. ret False))"

definition evaluate_decoded :: "http_context \<Rightarrow> http_evaluator \<Rightarrow> snapshot_source \<Rightarrow> EvaluateRequest \<Rightarrow> unit run" where
  "evaluate_decoded cx ev src req =
     andThen (validateEnv cx (er_Environment req)) (\<lambda>ok.
       if \<not> ok then ret ()
       else if \<not> validFlagKey (er_Flag req)
         then fail cx CodeInvalidArgument ''flag must be 1-128 characters of [A-Za-z0-9_.-]''
       else if Value_IsUnknown (er_Default req)
         then fail cx CodeInvalidArgument ''default is required and must be a bool, string, or integer''
       else andThen (pin src (er_Environment req)) (\<lambda>snap.
         andThen (evaluateOne cx ev snap (er_Flag req) (er_Environment req) (er_Context req) (er_Default req)) (\<lambda>r.
           case r of None \<Rightarrow> ret () | Some res \<Rightarrow> writeJSON cx 200 (Some (marshal_response res)))))"

definition handleEvaluate :: "scanner \<Rightarrow> http_context \<Rightarrow> http_evaluator \<Rightarrow> snapshot_source \<Rightarrow> request \<Rightarrow> unit run" where
  "handleEvaluate scan cx ev src rq =
     andThen (decodeJSON scan cx into_request zero_request rq) (\<lambda>r.
       case r of None \<Rightarrow> ret () | Some req \<Rightarrow> evaluate_decoded cx ev src req)"

definition writeTooManyFlags :: "http_context \<Rightarrow> unit run" where
  "writeTooManyFlags cx = fail cx CodeTooManyFlags
     (''batch exceeds the maximum of '' @ strconv_FormatInt (cfg_MaxBatchFlags (cx_cfg cx)) @ '' flags'')"

fun batch_flag_error :: "BatchFlag list \<Rightarrow> string option" where
  "batch_flag_error [] = None"
| "batch_flag_error (f # fs) =
     (if \<not> validFlagKey (bf_Flag f) then Some ''every flag must be 1-128 characters of [A-Za-z0-9_.-]''
      else if Value_IsUnknown (bf_Default f) then Some ''every flag entry requires a default''
      else batch_flag_error fs)"

text \<open>The loop over the flags, all against one snapshot; \<^const>\<open>None\<close> when one of them wrote an error.\<close>

fun batch_results :: "http_context \<Rightarrow> http_evaluator \<Rightarrow> snapshot_view option \<Rightarrow> string \<Rightarrow> EvalContextWire \<Rightarrow>
    BatchFlag list \<Rightarrow> EvaluateResponse list option run" where
  "batch_results cx ev snap env ec [] = ret (Some [])"
| "batch_results cx ev snap env ec (f # fs) =
     andThen (evaluateOne cx ev snap (bf_Flag f) env ec (bf_Default f)) (\<lambda>r.
       case r of
         None \<Rightarrow> ret None
       | Some res \<Rightarrow> andThen (batch_results cx ev snap env ec fs) (\<lambda>rs. ret (map_option ((#) res) rs)))"

definition batch_decoded :: "http_context \<Rightarrow> http_evaluator \<Rightarrow> snapshot_source \<Rightarrow> EvaluateBatchRequest \<Rightarrow> unit run" where
  "batch_decoded cx ev src req =
     andThen (validateEnv cx (br_Environment req)) (\<lambda>ok.
       if \<not> ok then ret ()
       else if length (br_Flags req) = 0
         then fail cx CodeInvalidArgument ''flags must contain at least one entry''
       else if int (length (br_Flags req)) > cfg_MaxBatchFlags (cx_cfg cx) then writeTooManyFlags cx
       else
         (case batch_flag_error (br_Flags req) of
            Some msg \<Rightarrow> fail cx CodeInvalidArgument msg
          | None \<Rightarrow>
              andThen (pin src (br_Environment req)) (\<lambda>snap.
              andThen (generationOf snap) (\<lambda>gen.
              andThen (batch_results cx ev snap (br_Environment req) (br_Context req) (br_Flags req)) (\<lambda>rs.
                case rs of
                  None \<Rightarrow> ret ()
                | Some results \<Rightarrow>
                    andThen (perform [Emit MBatchLatency]) (\<lambda>_.
                      writeJSON cx 200 (Some (marshal_batch
                        \<lparr>bs_Environment = br_Environment req, bs_Generation = gen,
                         bs_TraceID = tr_TraceID (cx_trace cx), bs_Results = results\<rparr>))))))))"

definition handleEvaluateBatch :: "scanner \<Rightarrow> http_context \<Rightarrow> http_evaluator \<Rightarrow> snapshot_source \<Rightarrow> request \<Rightarrow> unit run" where
  "handleEvaluateBatch scan cx ev src rq =
     andThen (decodeJSON scan cx into_batch zero_batch rq) (\<lambda>r.
       case r of None \<Rightarrow> ret () | Some req \<Rightarrow> batch_decoded cx ev src req)"

section \<open>Every request is answered once\<close>

text \<open>A weakest precondition: what holds of the actions, the loads and the result.\<close>

definition wp :: "'a run \<Rightarrow> (act list \<Rightarrow> nat \<Rightarrow> panic_value + 'a \<Rightarrow> bool) \<Rightarrow> nat \<Rightarrow> bool" where
  "wp m Q n = (case m n of (as, n', r) \<Rightarrow> Q as n' r)"

named_theorems wp_simps \<open>weakest preconditions of the computations\<close>

lemma wp_ret [wp_simps]: "wp (ret x) Q n \<longleftrightarrow> Q [] n (Inr x)"
  by (simp add: wp_def ret_def)

lemma wp_panic [wp_simps]: "wp (panic v) Q n \<longleftrightarrow> Q [] n (Inl v)"
  by (simp add: wp_def panic_def)

lemma wp_perform [wp_simps]: "wp (perform as) Q n \<longleftrightarrow> Q as n (Inr ())"
  by (simp add: wp_def perform_def)

lemma wp_andThen [wp_simps]:
  "wp (andThen m k) Q n \<longleftrightarrow>
     wp m (\<lambda>as n' r. case r of Inl v \<Rightarrow> Q as n' (Inl v) | Inr x \<Rightarrow> wp (k x) (\<lambda>bs. Q (as @ bs)) n') n"
  by (simp add: wp_def andThen_def split: prod.split sum.split)

lemma wp_pin [wp_simps]:
  "wp (pin src env) Q n \<longleftrightarrow> Q [] (Suc n) (Inr (case src n env of (snap, ok) \<Rightarrow> if ok then snap else None))"
  by (simp add: wp_def pin_def)

lemma wp_mono: "wp m Q n \<Longrightarrow> (\<And>as n' r. Q as n' r \<Longrightarrow> R as n' r) \<Longrightarrow> wp m R n"
  by (simp add: wp_def split: prod.splits)

lemma wp_result: "wp m Q n \<Longrightarrow> m n = (as, n', r) \<Longrightarrow> Q as n' r"
  by (simp add: wp_def)

definition writes :: "act list \<Rightarrow> act list" where
  "writes as = filter (\<lambda>a. case a of WriteHeader _ \<Rightarrow> True | Write _ \<Rightarrow> True | _ \<Rightarrow> False) as"

lemma writes_simps [simp]:
  "writes [] = []" "writes (SetHeader k v # as) = writes as" "writes (Emit e # as) = writes as"
  "writes (WriteHeader c # as) = WriteHeader c # writes as" "writes (Write b # as) = Write b # writes as"
  "writes (as @ bs) = writes as @ writes bs"
  by (simp_all add: writes_def)

lemma writes_Emits [simp]: "writes (map Emit es) = []"
  by (induction es) simp_all

lemma writes_report [simp]: "writes (report onPanic site v) = []"
  using report_Emits [of onPanic site v] by auto

lemma writes_error [simp]: "writes (write_error t now code msg) = [WriteHeader (Status code), Write [Doc (envelope t now code msg)]]"
  by (simp add: write_error_def)

lemma writes_internal [simp]:
  "writes (WriteInternal t now) = [WriteHeader 500, Write [Doc (envelope t now CodeInternal internalMessage)]]"
  by (simp add: WriteInternal_def)

text \<open>The labels of the evaluation counters are tokens of the permitted alphabet and length.\<close>

fun label_ok :: "act \<Rightarrow> bool" where
  "label_ok (Emit (MEvaluation key env reason fallback)) \<longleftrightarrow>
     validFlagKey key \<and> validEnv env \<and> reason \<in> range Reason_String"
| "label_ok _ \<longleftrightarrow> True"

definition replied :: "act list \<Rightarrow> bool" where
  "replied as \<longleftrightarrow> (\<exists>code doc. writes as = [WriteHeader code, Write [Doc doc]] \<and> (code = 200 \<or> 400 \<le> code))"

text \<open>One reply, or a panic before anything was written; at most \<^term>\<open>k\<close> loads.\<close>

definition answers :: "nat \<Rightarrow> act list \<Rightarrow> nat \<Rightarrow> panic_value + 'a \<Rightarrow> bool" where
  "answers k as n r \<longleftrightarrow>
     n \<le> k \<and> (case r of Inl v \<Rightarrow> writes as = [] | Inr _ \<Rightarrow> replied as)"

lemma answers_fail [wp_simps]: "wp (fail cx code msg) (answers k) n \<longleftrightarrow> n \<le> k"
  by (auto simp: fail_def wp_perform answers_def replied_def Status_error)

lemma label_ok_error [simp]: "list_all label_ok (write_error t now code msg)"
  by (simp add: write_error_def)

text \<open>Panics of a hook are swallowed, so it could still count evaluations itself; the one of the server does not.\<close>

definition counts_nothing :: "panic_func option \<Rightarrow> bool" where
  "counts_nothing onPanic \<longleftrightarrow> (\<forall>site v. list_all label_ok (report onPanic site v))"

lemma Reporter_counts_nothing [simp]: "counts_nothing (Some Reporter)"
  by (simp add: counts_nothing_def report_def Reporter_def)

lemma reason_names [simp]: "''FLAG_NOT_FOUND'' \<in> range Reason_String" "''ERROR'' \<in> range Reason_String"
  by (metis Reason_String.simps rangeI)+

text \<open>What an evaluation of one flag leaves: nothing written and a result, or one error reply and none.\<close>

lemma wp_evaluateOne:
  "wp (evaluateOne cx ev snap key env ec def1)
     (\<lambda>as n' r. n' = n \<and>
        (case r of
           Inl v \<Rightarrow> writes as = []
         | Inr None \<Rightarrow> writes as = [WriteHeader 500, Write [Doc (envelope (cx_trace cx) (cx_now cx) CodeInternal internalMessage)]]
         | Inr (Some res) \<Rightarrow> writes as = []) \<and>
        (counts_nothing (cx_onPanic cx) \<longrightarrow> validFlagKey key \<longrightarrow> validEnv env \<longrightarrow> list_all label_ok as)) n"
  by (auto simp: evaluateOne_def generationOf_def http_finish_def safe_Do_def Let_def wp_simps counts_nothing_def
      WriteInternal_def split: option.split sum.split)

lemma wp_batch_results:
  "list_all (\<lambda>f. validFlagKey (bf_Flag f)) fs \<Longrightarrow>
   wp (batch_results cx ev snap env ec fs)
     (\<lambda>as n' r. n' = n \<and>
        (case r of
           Inl v \<Rightarrow> writes as = []
         | Inr None \<Rightarrow> writes as = [WriteHeader 500, Write [Doc (envelope (cx_trace cx) (cx_now cx) CodeInternal internalMessage)]]
         | Inr (Some res) \<Rightarrow> writes as = []) \<and>
        (counts_nothing (cx_onPanic cx) \<longrightarrow> validEnv env \<longrightarrow> list_all label_ok as)) n"
proof (induction fs)
  case (Cons f fs)
  show ?case
    unfolding batch_results.simps wp_andThen
    by (rule wp_mono [OF wp_evaluateOne [of cx ev snap "bf_Flag f" env ec "bf_Default f" n]])
      (use Cons in \<open>auto simp: wp_simps split: sum.splits option.splits elim!: wp_mono\<close>)
qed (simp add: wp_simps)

lemma batch_flag_error_None:
  "batch_flag_error fs = None \<longleftrightarrow> list_all (\<lambda>f. validFlagKey (bf_Flag f) \<and> bf_Default f \<noteq> VUnset) fs"
  by (induction fs) auto

definition sound :: "http_context \<Rightarrow> nat \<Rightarrow> act list \<Rightarrow> nat \<Rightarrow> panic_value + 'a \<Rightarrow> bool" where
  "sound cx k as n r \<longleftrightarrow> answers k as n r \<and> (counts_nothing (cx_onPanic cx) \<longrightarrow> list_all label_ok as)"

lemma wp_fail: "wp (fail cx code msg) Q n \<longleftrightarrow> Q (write_error (cx_trace cx) (cx_now cx) code msg) n (Inr ())"
  by (simp add: fail_def wp_perform)

lemma wp_writeJSON:
  "wp (writeJSON cx 200 (Some doc)) Q n \<longleftrightarrow>
     Q [SetHeader content_type application_json, SetHeader content_type_options ''nosniff'',
        WriteHeader 200, Write [Doc doc]] n (Inr ())"
  by (simp add: writeJSON_def wp_perform)

lemma sound_error [simp]: "sound cx k (write_error (cx_trace cx) (cx_now cx) code msg) n (Inr x) \<longleftrightarrow> n \<le> k"
  by (auto simp: sound_def answers_def replied_def Status_error)

lemma sound_reply [simp]:
  "writes as = [] \<Longrightarrow> sound cx k (as @ [SetHeader a b, SetHeader c d, WriteHeader 200, Write [Doc doc]]) n (Inr x) \<longleftrightarrow>
     n \<le> k \<and> (counts_nothing (cx_onPanic cx) \<longrightarrow> list_all label_ok as)"
  by (auto simp: sound_def answers_def replied_def)

lemmas sound_batch_reply [simp] = sound_reply [where as = "as @ [Emit MBatchLatency]" for as, simplified]

lemma sound_panic [simp]:
  "writes as = [] \<Longrightarrow> sound cx k as n (Inl v) \<longleftrightarrow> n \<le> k \<and> (counts_nothing (cx_onPanic cx) \<longrightarrow> list_all label_ok as)"
  by (auto simp: sound_def answers_def)

lemma sound_internal [simp]:
  "writes as = [WriteHeader 500, Write [Doc doc]] \<Longrightarrow> sound cx k as n (Inr x) \<longleftrightarrow>
     n \<le> k \<and> (counts_nothing (cx_onPanic cx) \<longrightarrow> list_all label_ok as)"
  by (auto simp: sound_def answers_def replied_def)

lemma evaluate_decoded_sound: "wp (evaluate_decoded cx ev src req) (sound cx (Suc n)) n"
proof -
  have one: "wp (evaluateOne cx ev snap key env ec def1)
      (\<lambda>as n' r. case r of
         Inl v \<Rightarrow> sound cx (Suc n) as n' (Inl v)
       | Inr x \<Rightarrow> wp (case x of None \<Rightarrow> ret () | Some res \<Rightarrow> writeJSON cx 200 (Some (marshal_response res)))
           (\<lambda>bs. sound cx (Suc n) (as @ bs)) n') (Suc n)"
    if "validFlagKey key" "validEnv env" for snap key env ec def1
    by (rule wp_mono [OF wp_evaluateOne])
      (use that in \<open>auto simp: wp_simps wp_writeJSON split: sum.splits option.splits\<close>)
  show ?thesis
    using one by (auto simp: evaluate_decoded_def validateEnv_def wp_simps wp_fail)
qed

lemma wp_generationOf:
  "(\<And>v. Q [] n (Inl v)) \<Longrightarrow> (\<And>g. Q [] n (Inr g)) \<Longrightarrow> wp (generationOf s) Q n"
  by (auto simp: generationOf_def wp_simps split: option.split)

lemma batch_decoded_sound: "wp (batch_decoded cx ev src req) (sound cx (Suc n)) n"
proof -
  have one: "wp (batch_results cx ev snap env ec fs)
      (\<lambda>as n' r. case r of
         Inl v \<Rightarrow> sound cx (Suc n) as n' (Inl v)
       | Inr x \<Rightarrow> wp (case x of None \<Rightarrow> ret ()
           | Some rs \<Rightarrow> andThen (perform [Emit MBatchLatency]) (\<lambda>_. writeJSON cx 200 (Some (marshal_batch
               \<lparr>bs_Environment = env, bs_Generation = gen, bs_TraceID = tr_TraceID (cx_trace cx), bs_Results = rs\<rparr>))))
           (\<lambda>bs. sound cx (Suc n) (as @ bs)) n') (Suc n)"
    if "batch_flag_error fs = None" "validEnv env" for snap env ec fs gen
  proof (rule wp_mono [OF wp_batch_results])
    show "list_all (\<lambda>f. validFlagKey (bf_Flag f)) fs"
      using that(1) by (auto simp: batch_flag_error_None list_all_iff)
  qed (use that(2) in \<open>auto simp: wp_simps wp_writeJSON split: sum.splits option.splits\<close>)
  show ?thesis
    by (cases "batch_flag_error (br_Flags req)")
      (auto simp: batch_decoded_def validateEnv_def writeTooManyFlags_def wp_simps wp_fail
        intro!: wp_generationOf intro: one)
qed

text \<open>Both evaluation endpoints, on any request, body and scanner, with any evaluator and any snapshot source,
  panicking ones included: at most one snapshot is loaded, and the handler either writes exactly one document
  with status 200 or an error status, or panics before it wrote a byte, so that the boundary can still answer.
  No evaluation is counted under a flag or environment label outside the permitted alphabet and length.
\<close>

theorem evaluation_answers_once:
  "wp (handleEvaluate scan cx ev src rq)
     (\<lambda>as n r. answers 1 as n r \<and> (cx_onPanic cx = Some Reporter \<longrightarrow> list_all label_ok as)) 0 \<and>
   wp (handleEvaluateBatch scan cx ev src rq)
     (\<lambda>as n r. answers 1 as n r \<and> (cx_onPanic cx = Some Reporter \<longrightarrow> list_all label_ok as)) 0"
proof -
  have weaken: "wp m (sound cx (Suc 0)) 0 \<Longrightarrow>
      wp m (\<lambda>as n r. answers 1 as n r \<and> (cx_onPanic cx = Some Reporter \<longrightarrow> list_all label_ok as)) 0" for m :: "unit run"
    by (erule wp_mono) (simp add: sound_def)
  show ?thesis
  proof (intro conjI weaken)
    show "wp (handleEvaluate scan cx ev src rq) (sound cx (Suc 0)) 0"
      using evaluate_decoded_sound [of cx ev src _ 0]
      by (auto simp: handleEvaluate_def decodeJSON_def wp_simps wp_fail split: sum.split)
    show "wp (handleEvaluateBatch scan cx ev src rq) (sound cx (Suc 0)) 0"
      using batch_decoded_sound [of cx ev src _ 0]
      by (auto simp: handleEvaluateBatch_def decodeJSON_def wp_simps wp_fail split: sum.split)
  qed
qed


section \<open>A batch is its single evaluations\<close>

definition answer_of :: "act list \<Rightarrow> nat \<times> body" where
  "answer_of as = (resp_status (respond as), resp_body (respond as))"

lemma conn_writes:
  "map_option fst (cn_sent (fold conn_act as c)) = map_option fst (cn_sent (fold conn_act (writes as) c)) \<and>
   cn_body (fold conn_act as c) = cn_body (fold conn_act (writes as) c)"
proof -
  have "map_option fst (cn_sent c) = map_option fst (cn_sent c') \<Longrightarrow> cn_body c = cn_body c' \<Longrightarrow>
      map_option fst (cn_sent (fold conn_act as c)) = map_option fst (cn_sent (fold conn_act (writes as) c')) \<and>
      cn_body (fold conn_act as c) = cn_body (fold conn_act (writes as) c')" for c'
  proof (induction as arbitrary: c c')
    case (Cons a as)
    show ?case
    proof (cases a)
      case (WriteHeader code)
      then show ?thesis using Cons.prems Cons.IH [of "conn_act a c" "conn_act a c'"] by (auto simp: conn_commit_def)
    next
      case (Write b)
      then show ?thesis
        using Cons.prems Cons.IH [of "conn_act a c" "conn_act a c'"] by (auto simp: conn_commit_def Let_def)
    qed (use Cons.prems Cons.IH [of "conn_act a c" c'] in auto)
  qed simp
  then show ?thesis by blast
qed

lemma answer_of_writes: "writes as = [WriteHeader code, Write b] \<Longrightarrow> answer_of as = (code, b)"
  using conn_writes [of as new_conn]
  by (auto simp: answer_of_def respond_def conn_response_def conn_commit_def new_conn_def split: option.splits)

definition pinned :: "snapshot_source \<Rightarrow> nat \<Rightarrow> string \<Rightarrow> snapshot_view option" where
  "pinned src n env = (case src n env of (snap, ok) \<Rightarrow> if ok then snap else None)"

lemma evaluateOne_any: "evaluateOne cx ev snap key env ec d n = (as, n', r) \<Longrightarrow> evaluateOne cx ev snap key env ec d m = (as, m, r)"
  by (auto simp: evaluateOne_def generationOf_def http_finish_def andThen_def ret_def panic_def perform_def Let_def
      split: option.splits sum.splits prod.splits)

lemma batch_results_Some:
  "batch_results cx ev snap env ec fs n = (as, n', Inr (Some rs)) \<Longrightarrow>
     n' = n \<and> writes as = [] \<and>
     list_all2 (\<lambda>f r. \<exists>bs. writes bs = [] \<and>
       (\<forall>m. evaluateOne cx ev snap (bf_Flag f) env ec (bf_Default f) m = (bs, m, Inr (Some r)))) fs rs"
proof (induction fs arbitrary: as rs)
  case (Cons f fs)
  obtain bs m r where one: "evaluateOne cx ev snap (bf_Flag f) env ec (bf_Default f) n = (bs, m, r)"
    by (metis prod_cases3)
  have w: "m = n \<and> (case r of Inr (Some res) \<Rightarrow> writes bs = [] | _ \<Rightarrow> True)"
    using wp_result [OF wp_evaluateOne one] by (auto split: sum.split option.split)
  from Cons.prems obtain res cs rs' where r: "r = Inr (Some res)"
    and rest: "batch_results cx ev snap env ec fs n = (cs, n', Inr (Some rs'))" "as = bs @ cs" "rs = res # rs'"
    using one w
    by (auto simp: andThen_def ret_def map_option_case split: sum.splits option.splits prod.splits)
  have "\<forall>m. evaluateOne cx ev snap (bf_Flag f) env ec (bf_Default f) m = (bs, m, Inr (Some res))"
    using evaluateOne_any [OF one] r by blast
  then show ?case using Cons.IH [OF rest(1)] w r rest by auto
qed (auto simp: ret_def)

lemma single_answer:
  assumes "validEnv (er_Environment req)" "validFlagKey (er_Flag req)" "er_Default req \<noteq> VUnset"
    and "\<And>m. evaluateOne cx ev (pinned src 0 (er_Environment req)) (er_Flag req) (er_Environment req) (er_Context req)
      (er_Default req) m = (bs, m, Inr (Some r))" "writes bs = []"
  shows "answer_of (fst (outcome_of (evaluate_decoded cx ev src req))) = (200, [Doc (marshal_response r)])"
proof -
  have "evaluate_decoded cx ev src req 0 = (bs @ [SetHeader content_type application_json,
      SetHeader content_type_options ''nosniff'', WriteHeader 200, Write [Doc (marshal_response r)]], 1, Inr ())"
    using assms by (simp add: evaluate_decoded_def validateEnv_def pin_def pinned_def andThen_def writeJSON_def
        perform_def ret_def)
  then show ?thesis using assms(5) by (simp add: outcome_of_def answer_of_writes)
qed

lemma andThen_pin: "andThen (pin src env) k n = k (pinned src n env) (Suc n)"
  by (simp add: andThen_def pin_def pinned_def split: prod.split)

text \<open>A batch that answers 200: its checks passed, one load, one generation, and every flag has a result.\<close>

lemma batch_200:
  assumes "batch_decoded cx ev src req 0 = (as, n, Inr u)" "fst (answer_of as) = 200"
  obtains gen bs rs where "validEnv (br_Environment req)" "batch_flag_error (br_Flags req) = None" "n = 1"
    and "generationOf (pinned src 0 (br_Environment req)) 1 = ([], 1, Inr gen)"
    and "batch_results cx ev (pinned src 0 (br_Environment req)) (br_Environment req) (br_Context req)
      (br_Flags req) 1 = (bs, 1, Inr (Some rs))"
    and "snd (answer_of as) = [Doc (marshal_batch
      \<lparr>bs_Environment = br_Environment req, bs_Generation = gen, bs_TraceID = tr_TraceID (cx_trace cx), bs_Results = rs\<rparr>)]"
proof -
  have not_200: "fst (answer_of (write_error t now code msg)) \<noteq> 200" for t now code msg
    using Status_error [of code] by (simp add: answer_of_writes)
  let ?env = "br_Environment req"
  let ?snap = "pinned src 0 ?env"
  have env: "validEnv ?env"
    using assms not_200 by (auto simp: batch_decoded_def validateEnv_def andThen_def fail_def perform_def ret_def split: if_splits)
  have flags: "batch_flag_error (br_Flags req) = None"
    using assms env not_200
    by (auto simp: batch_decoded_def validateEnv_def fail_def perform_def writeTooManyFlags_def
        split: if_splits option.splits)
  have sizes: "br_Flags req \<noteq> []" "\<not> int (length (br_Flags req)) > cfg_MaxBatchFlags (cx_cfg cx)"
    using assms env not_200
    by (auto simp: batch_decoded_def validateEnv_def fail_def perform_def writeTooManyFlags_def split: if_splits)
  obtain gs m g where gen: "generationOf ?snap 1 = (gs, m, g)" by (metis prod_cases3)
  have gen': "gs = []" "m = 1" using gen by (auto simp: generationOf_def ret_def panic_def split: option.splits)
  obtain bs k r where res: "batch_results cx ev ?snap ?env (br_Context req) (br_Flags req) 1 = (bs, k, r)"
    by (metis prod_cases3)
  have k: "k = 1 \<and> (case r of Inl v \<Rightarrow> writes bs = [] | Inr None \<Rightarrow>
      writes bs = [WriteHeader 500, Write [Doc (envelope (cx_trace cx) (cx_now cx) CodeInternal internalMessage)]]
      | Inr (Some _) \<Rightarrow> writes bs = [])"
    using wp_result [OF wp_batch_results res] flags by (auto simp: batch_flag_error_None list_all_iff)
  have main: "andThen (generationOf ?snap) (\<lambda>gen.
      andThen (batch_results cx ev ?snap ?env (br_Context req) (br_Flags req)) (\<lambda>rs.
        case rs of None \<Rightarrow> ret () | Some results \<Rightarrow>
          andThen (perform [Emit MBatchLatency]) (\<lambda>_. writeJSON cx 200 (Some (marshal_batch
            \<lparr>bs_Environment = ?env, bs_Generation = gen, bs_TraceID = tr_TraceID (cx_trace cx), bs_Results = results\<rparr>))))) 1
      = (as, n, Inr u)"
    using assms(1) env flags sizes by (simp add: batch_decoded_def validateEnv_def andThen_pin)
  show thesis
  proof (cases g)
    case (Inl v)
    then show ?thesis using main gen by (simp add: andThen_def)
  next
    case (Inr x)
    note G = this
    show ?thesis
    proof (cases r)
      case (Inl v)
      then show ?thesis using main gen gen' G res by (simp add: andThen_def)
    next
      case (Inr o1)
      show ?thesis
      proof (cases o1)
        case None
        then have "as = bs" using main gen gen' G res Inr k by (simp add: andThen_def ret_def)
        then show ?thesis using None k Inr assms(2) by (simp add: answer_of_writes)
      next
        case (Some rs)
        then have "as = bs @ [Emit MBatchLatency, SetHeader content_type application_json,
            SetHeader content_type_options ''nosniff'', WriteHeader 200, Write [Doc (marshal_batch
            \<lparr>bs_Environment = ?env, bs_Generation = x, bs_TraceID = tr_TraceID (cx_trace cx), bs_Results = rs\<rparr>)]]" "n = 1"
          using main gen gen' G res Inr k by (auto simp: andThen_def ret_def perform_def writeJSON_def)
        then show ?thesis
          using that [of x bs rs] env flags gen gen' G res Inr Some k by (simp add: answer_of_writes)
      qed
    qed
  qed
qed

text \<open>C31. A batch that answers 200 loaded one snapshot, whatever is published meanwhile, and names its generation;
  its results are, flag by flag and in order, the documents the single endpoint answers for that flag
  against the snapshot that was live when the batch began.
\<close>

theorem batch_agrees_with_singles:
  assumes "batch_decoded cx ev src req 0 = (as, n, Inr u)" "fst (answer_of as) = 200"
  shows "\<exists>gen rs. n = 1 \<and> length rs = length (br_Flags req) \<and>
    generationOf (pinned src 0 (br_Environment req)) 0 = ([], 0, Inr gen) \<and>
    snd (answer_of as) = [Doc (marshal_batch
      \<lparr>bs_Environment = br_Environment req, bs_Generation = gen, bs_TraceID = tr_TraceID (cx_trace cx), bs_Results = rs\<rparr>)] \<and>
    map (\<lambda>f. answer_of (fst (outcome_of (evaluate_decoded cx ev (\<lambda>_. src 0)
        \<lparr>er_Environment = br_Environment req, er_Flag = bf_Flag f, er_Default = bf_Default f, er_Context = br_Context req\<rparr>))))
      (br_Flags req) = map (\<lambda>r. (200, [Doc (marshal_response r)])) rs"
proof -
  from assms obtain gen bs rs where b: "validEnv (br_Environment req)" "batch_flag_error (br_Flags req) = None" "n = 1"
    "generationOf (pinned src 0 (br_Environment req)) 1 = ([], 1, Inr gen)"
    "batch_results cx ev (pinned src 0 (br_Environment req)) (br_Environment req) (br_Context req)
      (br_Flags req) 1 = (bs, 1, Inr (Some rs))"
    "snd (answer_of as) = [Doc (marshal_batch
      \<lparr>bs_Environment = br_Environment req, bs_Generation = gen, bs_TraceID = tr_TraceID (cx_trace cx), bs_Results = rs\<rparr>)]"
    by (rule batch_200)
  have g: "generationOf (pinned src 0 (br_Environment req)) 0 = ([], 0, Inr gen)"
    using b(4) by (auto simp: generationOf_def ret_def panic_def split: option.splits)
  let ?answer = "\<lambda>f. answer_of (fst (outcome_of (evaluate_decoded cx ev (\<lambda>_. src 0)
        \<lparr>er_Environment = br_Environment req, er_Flag = bf_Flag f, er_Default = bf_Default f, er_Context = br_Context req\<rparr>)))"
  note rel = batch_results_Some [OF b(5), THEN conjunct2, THEN conjunct2]
  have pair: "?answer f = (200, [Doc (marshal_response r)])"
    if fr: "(f, r) \<in> set (zip (br_Flags req) rs)" for f r
  proof -
    have "f \<in> set (br_Flags req)" using fr by (rule set_zip_leftD)
    then have f: "validFlagKey (bf_Flag f)" "bf_Default f \<noteq> VUnset"
      using b(2) by (auto simp: batch_flag_error_None list_all_iff)
    from rel fr obtain cs where "writes cs = []"
      "\<forall>m. evaluateOne cx ev (pinned src 0 (br_Environment req)) (bf_Flag f) (br_Environment req) (br_Context req)
        (bf_Default f) m = (cs, m, Inr (Some r))"
      by (auto simp: list_all2_iff)
    then show ?thesis using f b(1) by (intro single_answer [where bs = cs]) (simp_all add: pinned_def)
  qed
  have "?answer (br_Flags req ! i) = (200, [Doc (marshal_response (rs ! i))])" if "i < length rs" for i
    using that list_all2_lengthD [OF rel] by (intro pair) (auto simp: in_set_zip)
  then have "map ?answer (br_Flags req) = map (\<lambda>r. (200, [Doc (marshal_response r)])) rs"
    using list_all2_lengthD [OF rel] by (intro nth_equalityI) simp_all
  then show ?thesis using b(3,6) g rel by (auto simp: list_all2_lengthD)
qed

text \<open>Two flags of one snapshot, for which the evaluator echoes the default; the source moves on after the first load.\<close>

definition demo_cx :: http_context where
  "demo_cx = \<lparr>cx_cfg = withDefaults \<lparr>cfg_EvalAddr = [], cfg_AdminAddr = [], cfg_ReadHeaderTimeout = 0, cfg_ReadTimeout = 0,
     cfg_WriteTimeout = 0, cfg_IdleTimeout = 0, cfg_HandlerTimeout = 0, cfg_MaxBodyBytes = 0, cfg_MaxBatchFlags = 0,
     cfg_RequiredEnvs = [], cfg_StaleAfter = 0, cfg_Service = [], cfg_InstanceID = []\<rparr>,
     cx_onPanic = Some Reporter, cx_trace = \<lparr>tr_TraceID = ''abcd'', tr_SpanID = []\<rparr>, cx_now = []\<rparr>"

definition demo_source :: snapshot_source where
  "demo_source n env = (if n = 0 then (Some (one_flag 7 (bool_flag ''a'' True [] None)), True) else (None, False))"

definition demo_evaluator :: http_evaluator where
  "demo_evaluator s key c want d = Inr (mk_result d ReasonFallthrough NoBucket 7)"

definition demo_batch :: EvaluateBatchRequest where
  "demo_batch = \<lparr>br_Environment = ''prod'', br_Context = zero_context,
     br_Flags = [\<lparr>bf_Flag = ''a'', bf_Default = VBool True\<rparr>, \<lparr>bf_Flag = ''b'', bf_Default = VInt 3\<rparr>]\<rparr>"

lemma demo_valid [simp]: "validEnv ''prod''" "validFlagKey ''a''" "validFlagKey ''b''"
  by (simp_all add: validEnv_def validFlagKey_def validToken_def is_lower_def)

lemma demo_evaluateOne:
  "evaluateOne demo_cx demo_evaluator (Some (one_flag 7 f)) key env ec d n =
     ([Emit (MEvaluation key env ''FALLTHROUGH'' False)], n, Inr (Some
       \<lparr>es_Flag = key, es_Environment = env, es_Value = d, es_Reason = ''FALLTHROUGH'', es_RuleID = [],
        es_Bucket = NoBucket, es_Generation = 7, es_Fallback = False, es_TraceID = ''abcd''\<rparr>))"
  by (simp add: evaluateOne_def generationOf_def one_flag_def safe_Do_def demo_evaluator_def http_finish_def
      andThen_def ret_def perform_def Result_IsFallback_def Let_def demo_cx_def)

lemma demo_results:
  "\<exists>rs. batch_results demo_cx demo_evaluator (Some (one_flag 7 f)) env ec fs n =
     (map (\<lambda>b. Emit (MEvaluation (bf_Flag b) env ''FALLTHROUGH'' False)) fs, n, Inr (Some rs))"
  by (induction fs) (auto simp: ret_def andThen_def demo_evaluateOne)

lemma andThen_perform: "andThen (perform as) k n = (case k () n of (bs, n'', r) \<Rightarrow> (as @ bs, n'', r))"
  by (simp add: andThen_def perform_def)

lemma andThen_value: "m n = (as, n', Inr x) \<Longrightarrow> andThen m k n = (case k x n' of (bs, n'', r) \<Rightarrow> (as @ bs, n'', r))"
  by (simp add: andThen_def)

lemma demo_batch_runs:
  "\<exists>as. batch_decoded demo_cx demo_evaluator demo_source demo_batch 0 = (as, 1, Inr ()) \<and> fst (answer_of as) = 200"
proof -
  have snap: "pinned demo_source 0 env = Some (one_flag 7 (bool_flag ''a'' True [] None))" for env
    by (simp add: pinned_def demo_source_def)
  have gen: "generationOf (Some (one_flag 7 f)) = ret 7" for f
    by (simp add: generationOf_def one_flag_def)
  have max: "cfg_MaxBatchFlags (cx_cfg demo_cx) = 500" by (simp add: demo_cx_def withDefaults_def)
  obtain rs where rs: "batch_results demo_cx demo_evaluator (Some (one_flag 7 (bool_flag ''a'' True [] None))) ''prod''
      zero_context (br_Flags demo_batch) 1 =
      (map (\<lambda>b. Emit (MEvaluation (bf_Flag b) ''prod'' ''FALLTHROUGH'' False)) (br_Flags demo_batch), 1, Inr (Some rs))"
    using demo_results by blast
  have "batch_flag_error (br_Flags demo_batch) = None" by (simp add: demo_batch_def)
  moreover have "length (br_Flags demo_batch) = 2" "br_Environment demo_batch = ''prod''" "br_Context demo_batch = zero_context"
    by (simp_all add: demo_batch_def)
  moreover have "writes (map (\<lambda>b. Emit (MEvaluation (bf_Flag b) env r x)) fs) = []" for fs :: "BatchFlag list" and env r x
    by (induction fs) simp_all
  ultimately show ?thesis
    by (simp add: batch_decoded_def validateEnv_def andThen_pin snap gen max andThen_perform perform_def
        andThen_value [where m = "batch_results demo_cx demo_evaluator (Some (one_flag 7 (bool_flag ''a'' True [] None)))
          ''prod'' zero_context (br_Flags demo_batch)", OF rs [simplified]] writeJSON_def answer_of_writes)
qed

theorem batch_agrees_with_singles_witness:
  "\<exists>as gen rs. batch_decoded demo_cx demo_evaluator demo_source demo_batch 0 = (as, 1, Inr ()) \<and> length rs = 2 \<and>
    generationOf (pinned demo_source 0 ''prod'') 0 = ([], 0, Inr gen) \<and>
    snd (answer_of as) = [Doc (marshal_batch
      \<lparr>bs_Environment = ''prod'', bs_Generation = gen, bs_TraceID = ''abcd'', bs_Results = rs\<rparr>)]"
proof -
  obtain as where as: "batch_decoded demo_cx demo_evaluator demo_source demo_batch 0 = (as, 1, Inr ())"
    "fst (answer_of as) = 200"
    using demo_batch_runs by blast
  show ?thesis
    using batch_agrees_with_singles [OF as] as(1)
    by (elim exE conjE, intro exI conjI) (simp_all add: demo_batch_def demo_cx_def)
qed

end
