(* ===== verification/Transport_Admin.thy ===== *)
theory Transport_Admin
  imports Transport_Eval
begin

text \<open>
  The rest of the HTTP surface: health and readiness (\<^verbatim>\<open>health.go\<close>), the admin handlers (\<^verbatim>\<open>admin.go\<close>), and the two
  listeners with their routes (\<^verbatim>\<open>server.go\<close>). A path has no escapes and an unclean one is redirected by
  \<^verbatim>\<open>net/http\<close>, whose redirect is an argument. Ages are nanoseconds; their rendering as seconds, the uptime and the page of
  \<^verbatim>\<open>expvar\<close> are arguments too.
\<close>

section \<open>The server\<close>

record apply_error =
  ae_Text :: string
  ae_Validation :: bool

record AppliedEnv =
  ap_Env :: string
  ap_Generation :: int64
  ap_Flags :: nat

record ApplyResult =
  ar_Applied :: "AppliedEnv list"
  ar_FlagsChanged :: "string list"

text \<open>
  The dependencies. The environments may change from one moment to the next, like the snapshots; a source
  that does not report freshness has \<^const>\<open>None\<close>; the keys are those the snapshot of a load lists, if it does.
\<close>

record Deps =
  dp_Snapshot :: snapshot_source
  dp_Environments :: "nat \<Rightarrow> string list"
  dp_Fresh :: "(string \<Rightarrow> int option) option"
  dp_Keys :: "nat \<Rightarrow> string \<Rightarrow> string list option"
  dp_Evaluator :: http_evaluator
  dp_Applier :: "(string \<Rightarrow> panic_value + apply_error + ApplyResult) option"
  dp_Expvar :: "act list"
  dp_scan :: scanner
  dp_seconds :: "int \<Rightarrow> string"
  dp_uptime :: string
  dp_redirect :: "request \<Rightarrow> act list"

section \<open>Health and readiness\<close>

record EnvHealth =
  eh_Env :: string
  eh_Loaded :: bool
  eh_Generation :: int64
  eh_Flags :: nat
  eh_Age :: "int option"
  eh_Stale :: bool

definition marshal_health :: "Deps \<Rightarrow> EnvHealth \<Rightarrow> json" where
  "marshal_health dp e =
     JObj [(''env'', JStr (eh_Env e)), (''loaded'', JBool (eh_Loaded e)), (''generation'', JInt (sint (eh_Generation e))),
           (''flags'', JInt (int (eh_Flags e))),
           (''age_seconds'', JNum (case eh_Age e of None \<Rightarrow> ''-1'' | Some a \<Rightarrow> dp_seconds dp a)),
           (''stale'', JBool (eh_Stale e))]"

definition marshal_ready :: "Deps \<Rightarrow> bool \<Rightarrow> string \<Rightarrow> bool \<Rightarrow> EnvHealth list \<Rightarrow> json" where
  "marshal_ready dp ready reason degraded envs =
     JObj ([(''ready'', JBool ready)] @ omitempty (reason = []) ''reason'' (JStr reason) @
           [(''degraded'', JBool degraded), (''environments'', JArr (map (marshal_health dp) envs))])"

definition marshal_health_response :: "Deps \<Rightarrow> Config \<Rightarrow> EnvHealth list \<Rightarrow> json" where
  "marshal_health_response dp cfg envs =
     JObj ([(''status'', JStr ''ok''), (''service'', JStr (cfg_Service cfg))] @
           omitempty (cfg_InstanceID cfg = []) ''instance_id'' (JStr (cfg_InstanceID cfg)) @
           [(''uptime_seconds'', JNum (dp_uptime dp)), (''environments'', JArr (map (marshal_health dp) envs))])"

definition health_row :: "http_context \<Rightarrow> Deps \<Rightarrow> string \<Rightarrow> EnvHealth run" where
  "health_row cx dp env =
     andThen (pin (dp_Snapshot dp) env) (\<lambda>snap.
     andThen (generationOf snap) (\<lambda>gen.
       let age = (case dp_Fresh dp of None \<Rightarrow> None | Some fresh \<Rightarrow> fresh env)
       in ret \<lparr>eh_Env = env, eh_Loaded = (snap \<noteq> None), eh_Generation = gen,
            eh_Flags = (case snap of None \<Rightarrow> 0 | Some s \<Rightarrow> snap_Len s), eh_Age = age,
            eh_Stale = (case age of None \<Rightarrow> False | Some a \<Rightarrow> a > cfg_StaleAfter (cx_cfg cx))\<rparr>))"

fun health_rows :: "http_context \<Rightarrow> Deps \<Rightarrow> string list \<Rightarrow> EnvHealth list run" where
  "health_rows cx dp [] = ret []"
| "health_rows cx dp (env # envs) =
     andThen (health_row cx dp env) (\<lambda>row. andThen (health_rows cx dp envs) (\<lambda>rows. ret (row # rows)))"

definition health_names :: "http_context \<Rightarrow> Deps \<Rightarrow> nat \<Rightarrow> string list" where
  "health_names cx dp n =
     (if length (cfg_RequiredEnvs (cx_cfg cx)) = 0 then dp_Environments dp n else cfg_RequiredEnvs (cx_cfg cx))"

definition envHealth :: "http_context \<Rightarrow> Deps \<Rightarrow> EnvHealth list run" where
  "envHealth cx dp n = health_rows cx dp (health_names cx dp n) n"

definition handleLive :: "http_context \<Rightarrow> unit run" where
  "handleLive cx = writeJSON cx 200 (Some (JObj [(''status'', JStr ''alive'')]))"

definition handleHealth :: "http_context \<Rightarrow> Deps \<Rightarrow> unit run" where
  "handleHealth cx dp =
     andThen (envHealth cx dp) (\<lambda>envs. writeJSON cx 200 (Some (marshal_health_response dp (cx_cfg cx) envs)))"

text \<open>The loop over the rows: ready, its reason, degraded.\<close>

definition ready_row :: "EnvHealth \<Rightarrow> bool \<times> string \<times> bool \<Rightarrow> bool \<times> string \<times> bool" where
  "ready_row e st =
     (case st of
        (ready, reason, degraded) \<Rightarrow>
          (if \<not> eh_Loaded e then False else ready, if \<not> eh_Loaded e then ''no_snapshot'' else reason,
           if eh_Stale e then True else degraded))"

definition handleReady :: "http_context \<Rightarrow> Deps \<Rightarrow> unit run" where
  "handleReady cx dp =
     andThen (envHealth cx dp) (\<lambda>envs.
       case fold ready_row envs (True, [], False) of
         (ready, reason, degraded) \<Rightarrow>
           (let ready = (if length envs = 0 then False else ready);
                reason = (if length envs = 0 then ''no_snapshot'' else reason)
            in writeJSON cx (if \<not> ready then 503 else 200) (Some (marshal_ready dp ready reason degraded envs))))"

section \<open>The admin handlers\<close>

definition marshal_applied :: "AppliedEnv \<Rightarrow> json" where
  "marshal_applied a =
     JObj [(''env'', JStr (ap_Env a)), (''generation'', JInt (sint (ap_Generation a))), (''flags'', JInt (int (ap_Flags a)))]"

text \<open>A slice that was never appended to is nil, and so null.\<close>

definition marshal_apply :: "ApplyResult \<Rightarrow> json" where
  "marshal_apply r =
     JObj ([(''applied'', if ar_Applied r = [] then JNull else JArr (map marshal_applied (ar_Applied r)))] @
           omitempty (ar_FlagsChanged r = []) ''flags_changed'' (JArr (map JStr (ar_FlagsChanged r))))"

text \<open>\<^verbatim>\<open>io.ReadAll\<close> on a limited body: too large, broken off, or the bytes.\<close>

definition read_all :: "int \<Rightarrow> request \<Rightarrow> (Code \<times> string) + string" where
  "read_all limit rq =
     (if int (length (rq_Body rq)) > limit then Inl (CodePayloadTooLarge, ''config layer exceeds the size limit'')
      else if rq_BodyErr rq then Inl (CodeInvalidArgument, ''could not read request body'')
      else Inr (rq_Body rq))"

definition apply_ok :: string where "apply_ok = ''ok''"
definition apply_rejected_validation :: string where "apply_rejected_validation = ''rejected_validation''"
definition apply_rejected_internal :: string where "apply_rejected_internal = ''rejected_internal''"

definition handleApplyLayer :: "http_context \<Rightarrow> Deps \<Rightarrow> request \<Rightarrow> unit run" where
  "handleApplyLayer cx dp rq =
     (case dp_Applier dp of
        None \<Rightarrow> fail cx CodeUnavailable ''config apply is not wired on this instance''
      | Some applier \<Rightarrow>
          (case read_all (cfg_MaxBodyBytes (cx_cfg cx)) rq of
             Inl (code, msg) \<Rightarrow> fail cx code msg
           | Inr body \<Rightarrow>
               if length body = 0 then fail cx CodeInvalidArgument ''config layer body is empty''
               else
                 (case applier body of
                    Inl v \<Rightarrow> panic v
                  | Inr (Inr res) \<Rightarrow>
                      andThen (perform ([Emit (MConfigApply apply_ok)] @
                        concat (map (\<lambda>a. [Emit (MSnapshotGeneration (ap_Env a) (ap_Generation a)),
                          Emit (MSnapshotFlags (ap_Env a) (ap_Flags a))]) (ar_Applied res)) @
                        [Emit (LConfig ''config applied'')])) (\<lambda>_. writeJSON cx 200 (Some (marshal_apply res)))
                  | Inr (Inl e) \<Rightarrow>
                      if ae_Validation e
                      then andThen (perform [Emit (MConfigApply apply_rejected_validation),
                             Emit (LConfig ''config rejected by validation'')]) (\<lambda>_. fail cx CodeInvalidConfig (ae_Text e))
                      else andThen (perform [Emit (MConfigApply apply_rejected_internal),
                             Emit (LConfig ''config apply failed'')]) (\<lambda>_.
                             perform (WriteInternal (cx_trace cx) (cx_now cx))))))"

definition marshal_debug :: "string \<Rightarrow> int64 \<Rightarrow> nat \<Rightarrow> string list option \<Rightarrow> Flag option \<Rightarrow> json" where
  "marshal_debug env gen flags keys flag =
     JObj ([(''environment'', JStr env), (''generation'', JInt (sint gen)), (''flags'', JInt (int flags))] @
           (case keys of None \<Rightarrow> [] | Some ks \<Rightarrow> omitempty (ks = []) ''keys'' (JArr (map JStr ks))) @
           (case flag of None \<Rightarrow> [] | Some f \<Rightarrow> [(''flag'', Flag_json f)]))"

definition snapshot_debug :: "http_context \<Rightarrow> Deps \<Rightarrow> string \<Rightarrow> string \<Rightarrow> string list option \<Rightarrow> unit run" where
  "snapshot_debug cx dp env key keys =
     andThen (validateEnv cx env) (\<lambda>ok.
       if \<not> ok then ret ()
       else andThen (pin (dp_Snapshot dp) env) (\<lambda>snap.
         case snap of
           None \<Rightarrow> fail cx CodeNotFound ''no snapshot has been published for this environment''
         | Some s \<Rightarrow>
             andThen (generationOf (Some s)) (\<lambda>gen.
               let doc = marshal_debug (snap_Env s) gen (snap_Len s) keys
               in if key = [] then writeJSON cx 200 (Some (doc None))
                  else if \<not> validFlagKey key
                    then fail cx CodeInvalidArgument ''flag must be 1-128 characters of [A-Za-z0-9_.-]''
                  else (case snap_Flag s key of
                          None \<Rightarrow> panic (PanicValue ''Flag'')
                        | Some (f, False) \<Rightarrow> fail cx CodeNotFound ''no such flag in this snapshot''
                        | Some (f, True) \<Rightarrow> writeJSON cx 200 (Some (doc f))))))"

text \<open>The keys are those of the snapshot that is loaded.\<close>

definition handleSnapshotDebug :: "http_context \<Rightarrow> Deps \<Rightarrow> string \<Rightarrow> request \<Rightarrow> unit run" where
  "handleSnapshotDebug cx dp env rq n = snapshot_debug cx dp env (rq_Query_flag rq) (dp_Keys dp n env) n"

section \<open>The listeners\<close>

definition handleNotFound :: "http_context \<Rightarrow> unit run" where
  "handleNotFound cx = fail cx CodeNotFound ''no such endpoint''"

text \<open>A path is clean when it starts with a slash and has no empty, dot or dot-dot segment before its last one.\<close>

definition clean_path :: "string \<Rightarrow> bool" where
  "clean_path p \<longleftrightarrow>
     (case strings_Split p (CHR ''/'') of
        [] # segs \<Rightarrow> segs \<noteq> [] \<and> [] \<notin> set (butlast segs) \<and> ''.'' \<notin> set segs \<and> ''..'' \<notin> set segs
      | _ \<Rightarrow> False)"

text \<open>A pattern for GET also serves HEAD.\<close>

definition is_get :: "request \<Rightarrow> bool" where
  "is_get rq \<longleftrightarrow> rq_Method rq = ''GET'' \<or> rq_Method rq = ''HEAD''"

definition mountHealth :: "http_context \<Rightarrow> Deps \<Rightarrow> request \<Rightarrow> unit run option" where
  "mountHealth cx dp rq =
     (if is_get rq \<and> rq_Path rq = ''/health'' then Some (handleHealth cx dp)
      else if is_get rq \<and> rq_Path rq = ''/live'' then Some (handleLive cx)
      else if is_get rq \<and> rq_Path rq = ''/ready'' then Some (handleReady cx dp)
      else None)"

definition eval_mux :: "http_context \<Rightarrow> Deps \<Rightarrow> request \<Rightarrow> unit run" where
  "eval_mux cx dp rq =
     (if rq_Method rq \<noteq> ''CONNECT'' \<and> \<not> clean_path (rq_Path rq) then perform (dp_redirect dp rq)
      else if rq_Method rq = ''POST'' \<and> rq_Path rq = ''/v1/evaluate''
        then handleEvaluate (dp_scan dp) cx (dp_Evaluator dp) (dp_Snapshot dp) rq
      else if rq_Method rq = ''POST'' \<and> rq_Path rq = ''/v1/evaluate/batch''
        then handleEvaluateBatch (dp_scan dp) cx (dp_Evaluator dp) (dp_Snapshot dp) rq
      else (case mountHealth cx dp rq of Some h \<Rightarrow> h | None \<Rightarrow> handleNotFound cx))"

definition snapshot_route :: "string \<Rightarrow> string option" where
  "snapshot_route p =
     (case strings_Split p (CHR ''/'') of
        [a, v, c, s, env] \<Rightarrow>
          if a = [] \<and> v = ''v1'' \<and> c = ''config'' \<and> s = ''snapshot'' \<and> env \<noteq> [] then Some env else None
      | _ \<Rightarrow> None)"

definition admin_mux :: "http_context \<Rightarrow> Deps \<Rightarrow> request \<Rightarrow> unit run" where
  "admin_mux cx dp rq =
     (if rq_Method rq \<noteq> ''CONNECT'' \<and> \<not> clean_path (rq_Path rq) then perform (dp_redirect dp rq)
      else if rq_Method rq = ''POST'' \<and> rq_Path rq = ''/v1/config/layers'' then handleApplyLayer cx dp rq
      else if is_get rq \<and> snapshot_route (rq_Path rq) \<noteq> None
        then handleSnapshotDebug cx dp (the (snapshot_route (rq_Path rq))) rq
      else if is_get rq \<and> rq_Path rq = ''/debug/vars'' then perform (dp_Expvar dp)
      else (case mountHealth cx dp rq of Some h \<Rightarrow> h | None \<Rightarrow> handleNotFound cx))"

definition listener :: "(http_context \<Rightarrow> Deps \<Rightarrow> request \<Rightarrow> unit run) \<Rightarrow> Config \<Rightarrow> Deps \<Rightarrow> world \<Rightarrow> request \<Rightarrow> outcome" where
  "listener mux cfg dp w rq =
     wrap (Some Reporter) w rq (\<lambda>t. outcome_of (mux
       \<lparr>cx_cfg = withDefaults cfg, cx_onPanic = Some Reporter, cx_trace = t, cx_now = w_now w\<rparr> dp rq))"

definition EvalHandler :: "Config \<Rightarrow> Deps \<Rightarrow> world \<Rightarrow> request \<Rightarrow> outcome" where
  "EvalHandler = listener eval_mux"

definition AdminHandler :: "Config \<Rightarrow> Deps \<Rightarrow> world \<Rightarrow> request \<Rightarrow> outcome" where
  "AdminHandler = listener admin_mux"

section \<open>Readiness\<close>

text \<open>A snapshot tells its generation unless its provider panics; the ones of the store always do.\<close>

definition tells_generation :: "snapshot_view option \<Rightarrow> bool" where
  "tells_generation s \<longleftrightarrow> (case s of None \<Rightarrow> True | Some s \<Rightarrow> snap_Generation s \<noteq> None)"

lemma generationOf_tells: "tells_generation s \<Longrightarrow> \<exists>g. generationOf s = ret g"
  by (cases s) (auto simp: tells_generation_def generationOf_def)

lemma health_rows_run:
  assumes "\<forall>i < length names. tells_generation (pinned (dp_Snapshot dp) (n + i) (names ! i))"
  shows "\<exists>rows. health_rows cx dp names n = ([], n + length names, Inr rows) \<and> length rows = length names \<and>
    (\<forall>i < length names. eh_Loaded (rows ! i) = (pinned (dp_Snapshot dp) (n + i) (names ! i) \<noteq> None))"
  using assms
proof (induction names arbitrary: n)
  case (Cons env names)
  let ?snap = "pinned (dp_Snapshot dp) n env"
  obtain g where g: "generationOf ?snap = ret g"
    using Cons.prems generationOf_tells [of ?snap] by fastforce
  obtain rows where rows: "health_rows cx dp names (Suc n) = ([], Suc n + length names, Inr rows)"
    "length rows = length names"
    "\<forall>i < length names. eh_Loaded (rows ! i) = (pinned (dp_Snapshot dp) (Suc n + i) (names ! i) \<noteq> None)"
    using Cons.IH [of "Suc n"] Cons.prems by fastforce
  have "\<exists>row. health_row cx dp env n = ([], Suc n, Inr row) \<and> eh_Loaded row = (?snap \<noteq> None)"
    by (simp add: health_row_def andThen_pin g Let_def ret_def)
  then obtain row where row: "health_row cx dp env n = ([], Suc n, Inr row)" "eh_Loaded row = (?snap \<noteq> None)" by blast
  have "health_rows cx dp (env # names) n = ([], n + length (env # names), Inr (row # rows))"
    using row rows by (simp add: andThen_def ret_def)
  moreover have "eh_Loaded ((row # rows) ! i) = (pinned (dp_Snapshot dp) (n + i) ((env # names) ! i) \<noteq> None)"
    if "i < length (env # names)" for i
    using that row rows by (cases i) auto
  ultimately show ?case using rows(2) by (intro exI [of _ "row # rows"]) simp
qed (simp add: ret_def)

lemma fold_ready_row: "fst (fold ready_row rows st) \<longleftrightarrow> fst st \<and> (\<forall>r \<in> set rows. eh_Loaded r)"
  by (induction rows arbitrary: st) (auto simp: ready_row_def split: prod.splits)

lemma writeJSON_apply:
  "writeJSON cx status (Some j) n = ([SetHeader content_type application_json,
     SetHeader content_type_options ''nosniff'', WriteHeader status, Write [Doc j]], n, Inr ())"
  by (simp add: writeJSON_def perform_def)

lemma ready_lemma:
  assumes "\<And>i. i < length (health_names cx dp 0) \<Longrightarrow>
      tells_generation (pinned (dp_Snapshot dp) i (health_names cx dp 0 ! i))"
  shows "\<exists>as. handleReady cx dp 0 = (as, length (health_names cx dp 0), Inr ()) \<and>
    fst (answer_of as) =
      (if health_names cx dp 0 \<noteq> [] \<and>
          (\<forall>i < length (health_names cx dp 0). pinned (dp_Snapshot dp) i (health_names cx dp 0 ! i) \<noteq> None)
       then 200 else 503)"
proof -
  let ?names = "health_names cx dp 0"
  obtain rows where rows: "health_rows cx dp ?names 0 = ([], length ?names, Inr rows)" "length rows = length ?names"
    "\<forall>i < length ?names. eh_Loaded (rows ! i) = (pinned (dp_Snapshot dp) i (?names ! i) \<noteq> None)"
    using health_rows_run [of ?names dp 0 cx] assms by auto
  obtain ready reason degraded where st: "fold ready_row rows (True, [], False) = (ready, reason, degraded)"
    by (metis prod_cases3)
  then have "ready \<longleftrightarrow> (\<forall>i < length ?names. pinned (dp_Snapshot dp) i (?names ! i) \<noteq> None)"
    using fold_ready_row [of rows "(True, [], False)"] rows(2,3) by (auto simp: all_set_conv_all_nth)
  then show ?thesis
    using rows(1,2) st
    by (auto simp: handleReady_def envHealth_def andThen_def Let_def writeJSON_apply answer_of_writes)
qed

text \<open>The pod is ready exactly when the environments that readiness looks at (the required ones when any
  are configured, otherwise the ones the source names) are at least one, and each of them has a snapshot
  loaded. How old a snapshot is plays no part, and the answer is 200 or 503.
\<close>

theorem ready_means_loaded:
  assumes "\<And>i. i < length (health_names cx dp 0) \<Longrightarrow>
      tells_generation (pinned (dp_Snapshot dp) i (health_names cx dp 0 ! i))"
  shows "\<exists>as. handleReady cx dp 0 = (as, length (health_names cx dp 0), Inr ()) \<and>
    fst (answer_of as) =
      (if health_names cx dp 0 \<noteq> [] \<and>
          (\<forall>i < length (health_names cx dp 0). pinned (dp_Snapshot dp) i (health_names cx dp 0 ! i) \<noteq> None)
       then 200 else 503)"
  using assms by (rule ready_lemma)

section \<open>Both listeners answer every request once\<close>

text \<open>What \<^verbatim>\<open>net/http\<close> and \<^verbatim>\<open>expvar\<close> write is taken to be one reply each.\<close>

definition one_reply :: "act list \<Rightarrow> bool" where
  "one_reply as \<longleftrightarrow> (\<exists>code body. writes as = [WriteHeader code, Write body])"

definition settled :: "act list \<Rightarrow> nat \<Rightarrow> panic_value + unit \<Rightarrow> bool" where
  "settled as n r \<longleftrightarrow> (case r of Inl v \<Rightarrow> writes as = [] | Inr _ \<Rightarrow> one_reply as)"

lemma answers_settled: "answers k as n r \<Longrightarrow> settled as n r"
  by (auto simp: answers_def settled_def replied_def one_reply_def split: sum.splits)

lemma settled_error [simp]: "writes as = [] \<Longrightarrow> settled (as @ write_error t now code msg) n (Inr ())"
  by (simp add: settled_def one_reply_def)

lemma settled_error' [simp]: "settled (write_error t now code msg) n (Inr ())"
  using settled_error [of "[]"] by simp

lemma settled_reply [simp]: "writes as = [] \<Longrightarrow>
    settled (as @ [SetHeader a b, SetHeader c d, WriteHeader s, Write [Doc doc]]) n (Inr ())"
  by (simp add: settled_def one_reply_def)

lemma settled_reply' [simp]: "settled [SetHeader a b, SetHeader c d, WriteHeader s, Write [Doc doc]] n (Inr ())"
  using settled_reply [of "[]"] by simp

lemma settled_panic [simp]: "settled as n (Inl v) \<longleftrightarrow> writes as = []"
  by (simp add: settled_def)

lemma wp_writeJSON_any:
  "wp (writeJSON cx s (Some doc)) Q n \<longleftrightarrow>
     Q [SetHeader content_type application_json, SetHeader content_type_options ''nosniff'', WriteHeader s,
        Write [Doc doc]] n (Inr ())"
  by (simp add: writeJSON_def wp_perform)

lemma wp_health_rows:
  "(\<And>n r. Q [] n r) \<Longrightarrow> wp (health_rows cx dp names) Q n"
proof (induction names arbitrary: n Q)
  case (Cons env names)
  then show ?case
    by (auto simp: health_row_def wp_simps Let_def intro!: wp_generationOf Cons.IH split: sum.split)
qed (simp add: wp_simps)

lemma wp_envHealth: "(\<And>n r. Q [] n r) \<Longrightarrow> wp (envHealth cx dp) Q n"
  using wp_health_rows [of Q cx dp "health_names cx dp n" n] by (simp add: envHealth_def wp_def)

lemma writes_applied: "writes (concat (map (\<lambda>a. [Emit (f a), Emit (g a)]) xs)) = []"
  by (induction xs) simp_all

lemma handleApplyLayer_settled: "wp (handleApplyLayer cx dp rq) settled n"
  using settled_reply [where as = "Emit e # concat (map (\<lambda>a. [Emit (f a), Emit (g a)]) xs) @ [Emit e']" for e f g xs e']
    settled_error [where as = "[Emit e, Emit e']" for e e']
  by (auto simp: handleApplyLayer_def wp_simps wp_fail wp_writeJSON_any writes_applied WriteInternal_def
      split: option.split sum.split)

lemma snapshot_debug_settled: "wp (snapshot_debug cx dp env key keys) settled n"
  by (auto simp: snapshot_debug_def validateEnv_def wp_simps wp_fail wp_writeJSON_any Let_def
      intro!: wp_generationOf split: option.split bool.split)

lemma handleSnapshotDebug_settled: "wp (handleSnapshotDebug cx dp env rq) settled n"
  using snapshot_debug_settled [of cx dp env "rq_Query_flag rq" "dp_Keys dp n env" n]
  by (simp add: wp_def handleSnapshotDebug_def)

lemma mountHealth_settled: "mountHealth cx dp rq = Some h \<Longrightarrow> wp h settled n"
  by (auto simp: mountHealth_def handleHealth_def handleLive_def handleReady_def wp_simps wp_writeJSON_any Let_def
      intro!: wp_envHealth split: if_splits sum.split prod.split)


lemma mux_tail_settled: "wp (case mountHealth cx dp rq of Some h \<Rightarrow> h | None \<Rightarrow> handleNotFound cx) settled n"
  by (cases "mountHealth cx dp rq") (simp_all add: mountHealth_settled handleNotFound_def wp_fail)

lemma evaluation_settled:
  "wp (handleEvaluate scan cx ev src rq) settled n" "wp (handleEvaluateBatch scan cx ev src rq) settled n"
proof -
  have "wp (evaluate_decoded cx ev src req) settled n" "wp (batch_decoded cx ev src breq) settled n" for req breq n
    by (rule wp_mono [OF evaluate_decoded_sound], auto simp: sound_def intro: answers_settled)
      (rule wp_mono [OF batch_decoded_sound], auto simp: sound_def intro: answers_settled)
  then show "wp (handleEvaluate scan cx ev src rq) settled n" "wp (handleEvaluateBatch scan cx ev src rq) settled n"
    by (auto simp: handleEvaluate_def handleEvaluateBatch_def decodeJSON_def wp_simps wp_fail split: sum.split)
qed

lemma settled_one_reply: "one_reply as \<Longrightarrow> settled as n (Inr ())"
  by (simp add: settled_def)

text \<open>Every request to either listener, on any path and with any method, gets exactly one reply, or its handler
  panics before writing, which the boundary turns into the one internal envelope; so with a handler in
  time, and no deliberate abort, the client always receives a status and a body.
\<close>

theorem listeners_answer_once:
  assumes "one_reply (dp_redirect dp rq)" "one_reply (dp_Expvar dp)"
  shows "wp (eval_mux cx dp rq) settled 0 \<and> wp (admin_mux cx dp rq) settled 0"
  using assms mux_tail_settled [of cx dp rq 0] settled_one_reply
  by (auto simp: eval_mux_def admin_mux_def evaluation_settled handleApplyLayer_settled handleSnapshotDebug_settled
      wp_perform)

lemma eval_listener_closed:
  assumes "clean_path (rq_Path rq)" "prefix ''/v1/config/'' (rq_Path rq) \<or> prefix ''/debug/'' (rq_Path rq)"
  shows "eval_mux cx dp rq = handleNotFound cx"
  using assms by (auto simp: eval_mux_def mountHealth_def prefix_def)

text \<open>A server whose source serves one environment at every load.\<close>

definition demo_deps :: Deps where
  "demo_deps = \<lparr>dp_Snapshot = (\<lambda>n env. if env = ''prod'' then (Some (one_flag 7 (bool_flag ''a'' True [] None)), True)
       else (None, False)),
     dp_Environments = (\<lambda>n. [''prod'', ''dev'']), dp_Fresh = None, dp_Keys = (\<lambda>n env. None), dp_Evaluator = demo_evaluator,
     dp_Applier = None, dp_Expvar = [WriteHeader 200, Write [Text ''{}'']], dp_scan = (\<lambda>e b. Malformed),
     dp_seconds = (\<lambda>a. ''0''), dp_uptime = ''1'', dp_redirect = (\<lambda>rq. [WriteHeader 301, Write []])\<rparr>"

definition demo_get :: "string \<Rightarrow> request" where
  "demo_get path = \<lparr>rq_Method = ''GET'', rq_Path = path, rq_Headers = [], rq_Query_flag = [], rq_Body = [], rq_BodyErr = False\<rparr>"

theorem ready_means_loaded_witness:
  "\<exists>as. handleReady demo_cx demo_deps 0 = (as, 2, Inr ()) \<and> fst (answer_of as) = 503"
proof -
  have names: "health_names demo_cx demo_deps 0 = [''prod'', ''dev'']"
    by (simp add: health_names_def demo_cx_def withDefaults_def demo_deps_def)
  have "tells_generation (pinned (dp_Snapshot demo_deps) i env)" for i env
    by (simp add: tells_generation_def pinned_def demo_deps_def one_flag_def)
  moreover have "pinned (dp_Snapshot demo_deps) 1 ''dev'' = None"
    by (simp add: pinned_def demo_deps_def)
  ultimately show ?thesis
    using ready_means_loaded [of demo_cx demo_deps] by (auto simp: names less_Suc_eq numeral_2_eq_2)
qed

theorem listeners_answer_once_witness:
  "wp (eval_mux demo_cx demo_deps (demo_get ''/nowhere'')) settled 0 \<and>
   wp (admin_mux demo_cx demo_deps (demo_get ''//'')) settled 0"
  using listeners_answer_once [of demo_deps "demo_get ''/nowhere''" demo_cx]
    listeners_answer_once [of demo_deps "demo_get ''//''" demo_cx]
  by (simp add: demo_deps_def one_reply_def)

section \<open>Errors are envelopes\<close>

text \<open>Records alone; and records, and then one error through \<^verbatim>\<open>apierr.Write\<close>.\<close>

definition quiet :: "act list \<Rightarrow> bool" where
  "quiet as \<longleftrightarrow> list_all (\<lambda>a. case a of Emit e \<Rightarrow> True | _ \<Rightarrow> False) as"

definition errored :: "http_context \<Rightarrow> act list \<Rightarrow> bool" where
  "errored cx as \<longleftrightarrow> (\<exists>pre code msg. as = pre @ write_error (cx_trace cx) (cx_now cx) code msg \<and> quiet pre)"

definition below_400 :: "act list \<Rightarrow> bool" where
  "below_400 as \<longleftrightarrow> list_all (\<lambda>a. case a of WriteHeader c \<Rightarrow> c < 400 | _ \<Rightarrow> True) as"

lemma quiet_simps [simp]:
  "quiet []" "quiet (Emit e # as) = quiet as" "quiet (as @ bs) \<longleftrightarrow> quiet as \<and> quiet bs" "quiet (report f site p)"
  "\<not> quiet (SetHeader k v # as)" "\<not> quiet (WriteHeader c # as)" "\<not> quiet (Write b # as)"
  using report_Emits [of f site p] by (auto simp: quiet_def list_all_iff)

lemma quiet_records [simp]: "quiet (concat (map (\<lambda>a. [Emit (f a), Emit (g a)]) xs))"
  by (induction xs) simp_all

lemma below_400_simps [simp]:
  "below_400 []" "below_400 (Emit e # as) = below_400 as" "below_400 (SetHeader k v # as) = below_400 as"
  "below_400 (Write b # as) = below_400 as" "below_400 (WriteHeader c # as) \<longleftrightarrow> c < 400 \<and> below_400 as"
  "below_400 (as @ bs) \<longleftrightarrow> below_400 as \<and> below_400 bs"
  by (simp_all add: below_400_def)

lemma quiet_below_400: "quiet as \<Longrightarrow> below_400 as"
  by (auto simp: quiet_def below_400_def list_all_iff split: act.splits)

lemma errored_error: "quiet as \<Longrightarrow> errored cx (as @ write_error (cx_trace cx) (cx_now cx) code msg)"
  by (auto simp: errored_def)

lemma errored_error' [simp]: "errored cx (write_error (cx_trace cx) (cx_now cx) code msg)"
  using errored_error [of "[]"] by simp

lemma errored_after [simp]: "quiet as \<Longrightarrow> errored cx bs \<Longrightarrow> errored cx (as @ bs)"
  by (metis append.assoc errored_def quiet_simps(3))

lemma errored_internal [simp]: "errored cx (WriteInternal (cx_trace cx) (cx_now cx))"
  by (simp add: WriteInternal_def)

lemma errored_Emit [simp]: "errored cx bs \<Longrightarrow> errored cx (Emit e # bs)"
  using errored_after [of "[Emit e]"] by simp

text \<open>A handler that returns has either reported one error so, or has sent no error status.\<close>

definition reported :: "http_context \<Rightarrow> act list \<Rightarrow> nat \<Rightarrow> panic_value + 'a \<Rightarrow> bool" where
  "reported cx as n r \<longleftrightarrow> (case r of Inl v \<Rightarrow> True | Inr x \<Rightarrow> below_400 as \<or> errored cx as)"

lemma reported_simps [simp]:
  "reported cx as n (Inl v)" "errored cx as \<Longrightarrow> reported cx as n (Inr x)" "below_400 as \<Longrightarrow> reported cx as n (Inr x)"
  by (simp_all add: reported_def)

lemma reported_after: "quiet as \<Longrightarrow> reported cx bs n r \<Longrightarrow> reported cx (as @ bs) n r"
  by (auto simp: reported_def quiet_below_400 split: sum.splits)

lemma wp_evaluateOne_reported:
  "wp (evaluateOne cx ev snap key env ec def1)
     (\<lambda>as n r. case r of Inl v \<Rightarrow> True | Inr None \<Rightarrow> errored cx as | Inr (Some res) \<Rightarrow> quiet as) n"
  by (auto simp: evaluateOne_def generationOf_def http_finish_def safe_Do_def Let_def wp_simps split: option.split sum.split)

lemma wp_batch_results_reported:
  "wp (batch_results cx ev snap env ec fs)
     (\<lambda>as n r. case r of Inl v \<Rightarrow> True | Inr None \<Rightarrow> errored cx as | Inr (Some res) \<Rightarrow> quiet as) n"
proof (induction fs arbitrary: n)
  case (Cons f fs)
  show ?case
    unfolding batch_results.simps wp_andThen
    by (rule wp_mono [OF wp_evaluateOne_reported])
      (auto simp: wp_simps split: sum.splits option.splits intro!: wp_mono [OF Cons])
qed (simp add: wp_simps)

lemma evaluate_decoded_reported: "wp (evaluate_decoded cx ev src req) (reported cx) n"
  by (auto simp: evaluate_decoded_def validateEnv_def wp_simps wp_fail wp_writeJSON_any quiet_below_400
      intro!: wp_mono [OF wp_evaluateOne_reported] split: sum.splits option.splits)

lemma batch_decoded_reported: "wp (batch_decoded cx ev src req) (reported cx) n"
  by (auto simp: batch_decoded_def validateEnv_def writeTooManyFlags_def wp_simps wp_fail wp_writeJSON_any quiet_below_400
      intro!: wp_generationOf wp_mono [OF wp_batch_results_reported] split: sum.splits option.splits)

lemma evaluation_reported:
  "wp (handleEvaluate scan cx ev src rq) (reported cx) n" "wp (handleEvaluateBatch scan cx ev src rq) (reported cx) n"
  by (auto simp: handleEvaluate_def handleEvaluateBatch_def decodeJSON_def wp_simps wp_fail evaluate_decoded_reported
      batch_decoded_reported split: sum.split)

lemma handleApplyLayer_reported: "wp (handleApplyLayer cx dp rq) (reported cx) n"
  by (auto simp: handleApplyLayer_def wp_simps wp_fail wp_writeJSON_any quiet_below_400 split: option.split sum.split)

lemma snapshot_debug_reported: "wp (snapshot_debug cx dp env key keys) (reported cx) n"
  by (auto simp: snapshot_debug_def validateEnv_def wp_simps wp_fail wp_writeJSON_any Let_def
      intro!: wp_generationOf split: option.split bool.split)

lemma handleSnapshotDebug_reported: "wp (handleSnapshotDebug cx dp env rq) (reported cx) n"
  using snapshot_debug_reported [of cx dp env "rq_Query_flag rq" "dp_Keys dp n env" n]
  by (simp add: wp_def handleSnapshotDebug_def)

definition readiness_probe :: "request \<Rightarrow> bool" where
  "readiness_probe rq \<longleftrightarrow> is_get rq \<and> rq_Path rq = ''/ready''"

lemma mux_tail_reported:
  "\<not> readiness_probe rq \<Longrightarrow> wp (case mountHealth cx dp rq of Some h \<Rightarrow> h | None \<Rightarrow> handleNotFound cx) (reported cx) n"
  by (auto simp: mountHealth_def readiness_probe_def handleHealth_def handleLive_def handleNotFound_def wp_simps
      wp_writeJSON_any wp_fail intro!: wp_envHealth split: sum.split)

lemma muxes_reported:
  assumes "\<not> readiness_probe rq" and "below_400 (dp_redirect dp rq)" and "below_400 (dp_Expvar dp)"
  shows "wp (eval_mux cx dp rq) (reported cx) n" "wp (admin_mux cx dp rq) (reported cx) n"
  using mux_tail_reported [OF assms(1)] assms(2,3)
  by (auto simp: eval_mux_def admin_mux_def wp_perform evaluation_reported handleApplyLayer_reported
      handleSnapshotDebug_reported)

text \<open>What the buffer of the time-out handler makes of it.\<close>

lemma timed_quiet: "quiet as \<Longrightarrow> fold tw_act as tw = tw"
  by (induction as arbitrary: tw) (auto simp: quiet_def split: act.splits)

lemma timed_below_400:
  "below_400 as \<Longrightarrow> (case tw_code tw of None \<Rightarrow> True | Some c \<Rightarrow> c < 400) \<Longrightarrow>
     (case tw_code (fold tw_act as tw) of None \<Rightarrow> True | Some c \<Rightarrow> c < 400)"
proof (induction as arbitrary: tw)
  case (Cons a as)
  then show ?case by (cases a) (auto simp: Let_def split: option.splits)
qed simp

lemma timed_errored:
  assumes "errored cx as" and "tr_TraceID (cx_trace cx) \<noteq> []"
  shows "\<exists>code msg. chain_response InTime (cx_trace cx) (cx_now cx) (as, None)
    = Some (error_response (cx_trace cx) (cx_now cx) code msg)"
proof -
  obtain pre code msg where as: "as = pre @ write_error (cx_trace cx) (cx_now cx) code msg" "quiet pre"
    using assms(1) by (auto simp: errored_def)
  have "chain_response InTime (cx_trace cx) (cx_now cx) (as, None)
      = Some (error_response (cx_trace cx) (cx_now cx) code msg)"
    using assms(2)
    by (simp add: as(1) timed_def timed_quiet [OF as(2)] write_error_def error_response_def content_type_def
        content_type_options_def HeaderTraceID_def)
  then show ?thesis by blast
qed

lemma mux_error_response:
  assumes "wp m (reported cx) 0" and "tr_TraceID (cx_trace cx) \<noteq> []"
    and "chain_response InTime (cx_trace cx) (cx_now cx) (outcome_of m) = Some r" and "400 \<le> resp_status r"
  shows "\<exists>code msg. r = error_response (cx_trace cx) (cx_now cx) code msg"
proof -
  obtain as n out where m: "m 0 = (as, n, out)" by (rule prod_cases3)
  show ?thesis
  proof (cases out)
    case (Inl v)
    then show ?thesis using assms(3) m by (cases v) (auto simp: outcome_of_def)
  next
    case (Inr x)
    then have o: "outcome_of m = (as, None)" using m by (simp add: outcome_of_def)
    have "below_400 as \<or> errored cx as" using wp_result [OF assms(1) m] Inr by (simp add: reported_def)
    then show ?thesis
    proof
      assume "below_400 as"
      then have "resp_status r < 400"
        using timed_below_400 [of as "\<lparr>tw_headers = [], tw_code = None, tw_buf = []\<rparr>"] assms(3)
        by (auto simp: o timed_def split: option.splits)
      then show ?thesis using assms(4) by simp
    next
      assume "errored cx as"
      then show ?thesis using timed_errored assms(2,3) by (fastforce simp: o)
    qed
  qed
qed

text \<open>C34. Every error of the service is one envelope. On either listener, whatever the method and path, the body, the
  evaluator, the snapshot source and the text of a rejected config layer, panics included: a response within the
  handler deadline whose status is 400 or above (the readiness probe's own 503 document apart) is a single JSON
  document that carries the code of its status, the trace id that is in the response's header too, the request's time,
  and a message that is not empty, at most 200 bytes, and of one line, so that no stack trace can pass. The redirects of
  the multiplexer and the expvar page, which are parameters, are taken not to be errors. A path or an address within
  the line does pass, see \<^verbatim>\<open>Sanitize_passes_paths\<close>.\<close>

theorem errors_are_envelopes:
  assumes "h = EvalHandler cfg dp w rq \<or> h = AdminHandler cfg dp w rq"
    and "served h = Some r" and "400 \<le> resp_status r" and "w_deadline w = InTime" and "\<not> readiness_probe rq"
    and "below_400 (dp_redirect dp rq)" and "below_400 (dp_Expvar dp)"
  shows "\<exists>code msg. resp_status r = Status code
    \<and> resp_body r = [Doc (marshal_envelope \<lparr>env_ErrorCode = code, env_Message = msg,
         env_TraceID = tr_TraceID (request_trace w rq), env_SpanID = tr_SpanID (request_trace w rq),
         env_Timestamp = w_now w\<rparr>)]
    \<and> msg \<noteq> [] \<and> length msg \<le> 200 \<and> \<not> strings_ContainsAny msg [CHR 0x0A, CHR 0x0D, CHR 0x09]
    \<and> hdr_Get (resp_headers r) content_type = application_json
    \<and> hdr_Get (resp_headers r) HeaderTraceID = tr_TraceID (request_trace w rq)"
proof -
  let ?t = "request_trace w rq"
  define cx where "cx = \<lparr>cx_cfg = withDefaults cfg, cx_onPanic = Some Reporter, cx_trace = ?t, cx_now = w_now w\<rparr>"
  have t: "cx_trace cx = ?t" "cx_now cx = w_now w" by (simp_all add: cx_def)
  obtain mux where mux: "mux = eval_mux \<or> mux = admin_mux" "h = listener mux cfg dp w rq"
    using assms(1) by (auto simp: EvalHandler_def AdminHandler_def)
  have m: "wp (mux cx dp rq) (reported cx) 0" using mux(1) muxes_reported [OF assms(5-7)] by blast
  have h: "chain_response InTime ?t (w_now w) (outcome_of (mux cx dp rq)) = Some r"
    using assms(2,4) mux(2) wrap_response [of w rq] by (simp add: listener_def cx_def)
  obtain code msg where r: "r = error_response ?t (w_now w) code msg"
    using mux_error_response [OF m, unfolded t] request_trace_nonempty h assms(3) by blast
  show ?thesis
    using Sanitize_shape [of msg]
    by (intro exI [of _ code] exI [of _ "Sanitize msg"])
      (auto simp: r error_response_def envelope_def hdr_Get_def gm_get_def HeaderTraceID_def content_type_def content_type_options_def)
qed

text \<open>A config layer that the applier rejects with a message of two lines.\<close>

definition rejecting_deps :: Deps where
  "rejecting_deps = demo_deps\<lparr>dp_Applier :=
     Some (\<lambda>body. Inr (Inl \<lparr>ae_Text = ''a'' @ [CHR 0x0A] @ ''b'', ae_Validation = True\<rparr>))\<rparr>"

definition rejected_post :: request where
  "rejected_post = \<lparr>rq_Method = ''POST'', rq_Path = ''/v1/config/layers'', rq_Headers = [], rq_Query_flag = [],
     rq_Body = ''{}'', rq_BodyErr = False\<rparr>"

definition prompt_world :: world where
  "prompt_world = \<lparr>w_rand1 = None, w_rand2 = None, w_nano = 0, w_now = ''now'', w_deadline = InTime\<rparr>"

lemma rejected_status:
  "map_option resp_status (served (AdminHandler (cx_cfg demo_cx) rejecting_deps prompt_world rejected_post)) = Some 400"
  by code_simp

theorem errors_are_envelopes_witness:
  "\<exists>r. served (AdminHandler (cx_cfg demo_cx) rejecting_deps prompt_world rejected_post) = Some r
     \<and> hdr_Get (resp_headers r) content_type = application_json"
proof -
  obtain r where r: "served (AdminHandler (cx_cfg demo_cx) rejecting_deps prompt_world rejected_post) = Some r"
      "resp_status r = 400"
    using rejected_status by auto
  have "\<not> readiness_probe rejected_post" "below_400 (dp_redirect rejecting_deps rejected_post)"
    "below_400 (dp_Expvar rejecting_deps)"
    by (simp_all add: readiness_probe_def rejected_post_def rejecting_deps_def demo_deps_def)
  with errors_are_envelopes [OF disjI2 [OF refl] r(1)] r show ?thesis
    by (auto simp: prompt_world_def)
qed

end
