(* ===== verification/Config_Ops.thy ===== *)
theory Config_Ops
  imports Config_Serve
begin

text \<open>
  The kill switch: what an override of the ops layer does to the flag an environment serves, and how long. The
  theory adds no definitions of code; it follows an override through the writes and the timed rebuilds of
  \<^verbatim>\<open>internal/config/store.go\<close>. Which override is in force is said here on the entries of the layer itself, not by
  the map the builds make of them.
\<close>

section \<open>The override in force\<close>

text \<open>An entry lapses at the time it names; an entry that names none does not lapse.\<close>

definition lapsed :: "time \<Rightarrow> OpsOverride \<Rightarrow> bool" where
  "lapsed now x \<longleftrightarrow> (case op_ExpiresAt x of OptVal t \<Rightarrow> t \<le> now | _ \<Rightarrow> False)"

text \<open>The entries an environment's ops layer holds for a flag, and the one in force: the last that has not lapsed.\<close>

definition overrides_of :: "Store \<Rightarrow> string \<Rightarrow> string \<Rightarrow> OpsOverride list" where
  "overrides_of s env k =
     filter (\<lambda>x. op_Key x = k) (case gm_get (st_ops s) env of None \<Rightarrow> [] | Some l \<Rightarrow> opl_Overrides l)"

definition in_force :: "Store \<Rightarrow> string \<Rightarrow> time \<Rightarrow> string \<Rightarrow> OpsOverride option" where
  "in_force s env now k =
     (let xs = filter (\<lambda>x. \<not> lapsed now x) (overrides_of s env k) in if xs = [] then None else Some (last xs))"

lemma gm_get_by_key:
  "gm_get (foldl (\<lambda>m x. gm_set (f x) x m) [] xs) k =
     (let ys = filter (\<lambda>x. f x = k) xs in if ys = [] then None else Some (last ys))"
  by (induction xs rule: rev_induct) (auto simp: Let_def)

lemma opsExpired_lapsed: "opsExpired x now \<longleftrightarrow> lapsed now x"
  by (cases "op_ExpiresAt x") (auto simp: opsExpired_def lapsed_def)

lemma live_override_in_force: "live_override s env now k = in_force s env now k"
  by (cases "gm_get (st_ops s) env")
    (simp_all add: live_override_def in_force_def overrides_of_def ops_by_key_def gm_get_by_key opsExpired_lapsed
      conj_commute)

section \<open>Kill switches\<close>

text \<open>The environment serves the flag, switched off.\<close>

definition killed :: "Store \<Rightarrow> string \<Rightarrow> string \<Rightarrow> bool" where
  "killed s env k \<longleftrightarrow> (case store_Get s k env of None \<Rightarrow> False | Some f \<Rightarrow> \<not> flag_Enabled f)"

text \<open>The override in force switches the flag off.\<close>

definition kill_live :: "Store \<Rightarrow> string \<Rightarrow> time \<Rightarrow> string \<Rightarrow> bool" where
  "kill_live s env now k \<longleftrightarrow>
     (case in_force s env now k of None \<Rightarrow> False | Some x \<Rightarrow> op_Enabled x = OptVal False)"

text \<open>A write of anything but this environment's ops layer, or a rebuild.\<close>

definition other_writer :: "string \<Rightarrow> Layer option \<Rightarrow> bool" where
  "other_writer env w \<longleftrightarrow> (case w of Some (LOps l) \<Rightarrow> opl_Environment l \<noteq> env | _ \<Rightarrow> True)"

lemma kill_live_built_from:
  "other_writer env w \<Longrightarrow> kill_live (built_from w s) env now k = kill_live s env now k"
  by (auto simp: other_writer_def kill_live_def in_force_def overrides_of_def built_from_def installed_def
      split: Layer.splits option.splits)

lemma merged_disabled: "op_Enabled x = OptVal False \<Longrightarrow> \<not> flag_Enabled (fst (mergeFlag bf ov (Some x)))"
  by (simp add: mergeFlag_def merge_ops_enabled supplied_def)

lemma unpublished_Get:
  assumes "store_ok s" and "\<not> PublishedIn (fst (store_build h now w s)) env"
  shows "store_Get (snd (store_build h now w s)) k env = store_Get s k env"
proof -
  have "env_state (built_from w s) env = env_state s env" by (simp add: built_from_def split: option.split)
  then have "env_state (snd (store_build h now w s)) env = env_state s env"
    using store_build_effect(1,2) [OF assms(1), of h now w env] assms(2) by (auto simp: built_env_def)
  then show ?thesis by (simp add: store_Get_state [of _ _ _ now] prev_flag_def)
qed

lemma kill_survives_build:
  assumes "store_reachable h s" and "killed s env k" and "kill_live (built_from w s) env now k"
  shows "killed (snd (store_build h now w s)) env k"
proof (cases "PublishedIn (fst (store_build h now w s)) env")
  case False
  then show ?thesis
    using unpublished_Get [OF reachable_store_ok [OF assms(1)] False] assms(2) by (simp add: killed_def)
next
  case True
  obtain base where base: "st_base (snd (store_build h now w s)) = Some base"
    using build_lookup [OF reachable_store_ok [OF assms(1)] True] by blast
  note content = build_content_served [OF assms(1) prod.collapse [symmetric] True base]
  obtain x where x: "live_override (built_from w s) env now k = Some x" "op_Enabled x = OptVal False"
    using assms(3) by (auto simp: kill_live_def live_override_in_force split: option.splits)
  show ?thesis
  proof (cases "k \<in> bf_Key ` set (bl_Flags base)")
    case True
    then obtain bf where bf: "bf \<in> set (bl_Flags base)" "bf_Key bf = k" by blast
    then show ?thesis
      using content [of bf k] assms(2) x merged_disabled [OF x(2)] by (auto simp: killed_def split: option.splits)
  next
    case False
    then show ?thesis using content [of _ k] assms(2) x(1) by (auto simp: killed_def)
  qed
qed

text \<open>What any evaluator answers on a flag that is off: the type asked for is checked first.\<close>

lemma off_flag_evaluates:
  assumes "snapshot_ok env snap" and "rs_Flag snap k = Some f" and "\<not> flag_Enabled f"
  shows "Evaluate e (Some (view_of snap)) k c want cd =
    (if want = TypeUnknown \<or> want = flag_Type f
     then mk_result (flag_OffValue f) ReasonDisabled NoBucket (rs_generation snap)
     else mk_result cd ReasonTypeMismatch NoBucket (rs_generation snap), [])"
proof -
  have "Value_Type (flag_OffValue f) = flag_Type f" using assms(1,2) by (auto simp: snapshot_ok_def flag_wt_def)
  then show ?thesis
    using assms(2,3) by (auto simp: Evaluate_def view_of_def eval_at_def finish_def recovered_known)
qed

text \<open>C18. A kill switch outlasts every other writer. As long as an entry of an environment's ops layer that has not lapsed, the
  last for its flag, switches the flag off, a flag it has switched off stays off: no write of a base layer, of any
  overlay, or of another environment's ops layer, accepted or rejected, and no timed rebuild, even one that finds the
  flag removed from the base or sends it to quarantine, brings it back. Every evaluation of it, by any evaluator and
  whatever its observer does, then answers \<^verbatim>\<open>DISABLED\<close> with the flag's off value to a caller that asks for the flag's
  type or for none, and \<^verbatim>\<open>TYPE_MISMATCH\<close> with the caller's default to any other, and consults no rule.\<close>

theorem kill_switch_holds:
  fixes h :: hashing and now :: time and w :: "Layer option" and s :: Store
    and e :: evaluator and c :: EvalContext and want :: ValueType and cd :: Value
  assumes "store_reachable h s" and "killed s env k" and "kill_live s env now k" and "other_writer env w"
  defines "s' \<equiv> snd (store_build h now w s)"
  shows "\<exists>snap f. store_Snapshot s' env = Some snap \<and> store_Get s' k env = Some f \<and> \<not> flag_Enabled f
    \<and> Evaluate e (Some (view_of snap)) k c want cd =
        (if want = TypeUnknown \<or> want = flag_Type f
         then mk_result (flag_OffValue f) ReasonDisabled NoBucket (rs_generation snap)
         else mk_result cd ReasonTypeMismatch NoBucket (rs_generation snap), [])"
proof -
  have ok: "store_ok s'"
    using store_ok_Set [OF reachable_store_ok [OF assms(1)]] store_ok_Rebuild [OF reachable_store_ok [OF assms(1)]]
    by (simp add: s'_def store_build_def split: option.split)
  have "killed s' env k"
    unfolding s'_def using assms by (intro kill_survives_build) (simp_all add: kill_live_built_from)
  then obtain snap f where sf: "store_Snapshot s' env = Some snap" "store_Get s' k env = Some f" "\<not> flag_Enabled f"
      "rs_Flag snap k = Some f"
    by (auto simp: killed_def store_Get_state [of _ _ _ 0] prev_flag_def store_Snapshot_state split: option.splits)
  have "snapshot_ok env snap"
    using env_ok_state [OF ok, of env] sf(1) by (simp add: store_Snapshot_state env_ok_def)
  from off_flag_evaluates [OF this sf(4,3)] sf(1-3) show ?thesis by blast
qed

lemma kill_lands:
  assumes "store_reachable h s" and "store_build h now w s = (rep, s')" and "PublishedIn rep env"
    and "st_base s' = Some base" and "bf \<in> set (bl_Flags base)"
    and "flag_rejections (built_from w s) env now bf = []"
  shows "(kill_live (built_from w s) env now (bf_Key bf) \<longrightarrow> killed s' env (bf_Key bf))
    \<and> (list_all (lapsed now) (overrides_of (built_from w s) env (bf_Key bf)) \<longrightarrow>
        store_Get s' (bf_Key bf) env =
          Some (fst (mergeFlag bf (overlay_entry (built_from w s) env (bf_Key bf)) None)))"
proof -
  let ?t = "built_from w s"
  have served: "store_Get s' (bf_Key bf) env =
      Some (fst (mergeFlag bf (overlay_entry ?t env (bf_Key bf)) (in_force ?t env now (bf_Key bf))))"
    using build_content_served [OF assms(1-4), of bf "bf_Key bf"] assms(5,6) by (simp add: live_override_in_force)
  moreover have "in_force ?t env now (bf_Key bf) = None" if "list_all (lapsed now) (overrides_of ?t env (bf_Key bf))"
    using that by (simp add: in_force_def list_all_iff filter_False)
  ultimately show ?thesis
    using merged_disabled by (auto simp: killed_def kill_live_def split: option.splits)
qed

text \<open>C19. A kill switch lands and expires by itself. When a write or a timed rebuild publishes an environment, every base
  flag that neither validation pass rejects is served off if, of the entries the ops layer holds for it, the last that
  has not lapsed switches it off; and if every entry for it has lapsed by the time of the build, it is served exactly as
  its base and overlay alone say, though the entries are still in the layer and nobody has removed them.\<close>

theorem kill_switch_lands_and_expires:
  assumes "store_reachable h s" and "store_build h now w s = (rep, s')" and "PublishedIn rep env"
    and "st_base s' = Some base" and "bf \<in> set (bl_Flags base)"
    and "flag_rejections (built_from w s) env now bf = []"
  shows "(kill_live (built_from w s) env now (bf_Key bf) \<longrightarrow> killed s' env (bf_Key bf))
    \<and> (list_all (lapsed now) (overrides_of (built_from w s) env (bf_Key bf)) \<longrightarrow>
        store_Get s' (bf_Key bf) env =
          Some (fst (mergeFlag bf (overlay_entry (built_from w s) env (bf_Key bf)) None)))"
  using kill_lands [OF assms] .

section \<open>Examples\<close>

definition kill_override :: "time \<Rightarrow> string \<Rightarrow> OpsOverride" where
  "kill_override exp why = (empty_override ''checkout'')\<lparr>op_Enabled := OptVal False, op_ExpiresAt := OptVal exp,
     op_Reason := why, op_Owner := ''oncall''\<rparr>"

definition kill_layer :: "time \<Rightarrow> string \<Rightarrow> Layer" where
  "kill_layer exp why = LOps \<lparr>opl_SchemaVersion = 1, opl_Environment = ''prod'', opl_Overrides = [kill_override exp why]\<rparr>"

definition killed_store :: Store where
  "killed_store = snd (store_Set demo_hash 10 (kill_layer 1000 ''incident'') demo_store)"

lemma killed_store_reachable: "store_reachable demo_hash killed_store"
  unfolding killed_store_def by (rule step [OF demo_reachable step_Set])

lemma kill_published: "PublishedIn (fst (store_build demo_hash 10 (Some (kill_layer 1000 ''incident'')) demo_store)) ''prod''"
  unfolding store_build_write by code_simp

lemma kill_base: "st_base killed_store = Some (demo_base 500)"
  using store_Set_effect(3) [OF reachable_store_ok [OF demo_reachable], of demo_hash 10 "kill_layer 1000 ''incident''"]
    demo_store_base
  by (simp add: killed_store_def installed_def kill_layer_def)

lemma killed_store_build: "store_build demo_hash 10 (Some (kill_layer 1000 ''incident'')) demo_store =
    (fst (store_build demo_hash 10 (Some (kill_layer 1000 ''incident'')) demo_store), killed_store)"
  by (simp add: store_build_write killed_store_def)

lemma kill_no_rejections:
  "flag_rejections (built_from (Some (kill_layer 1000 ''incident'')) demo_store) ''prod'' 10
     (plain_base ''checkout'' (Some (plain_rollout 500))) = []"
  "flag_rejections (built_from None killed_store) ''prod'' 1000
     (plain_base ''checkout'' (Some (plain_rollout 500))) = []"
  unfolding built_from_def option.case by code_simp+

lemma killed_store_ops: "gm_get (st_ops killed_store) ''prod'' =
    Some \<lparr>opl_SchemaVersion = 1, opl_Environment = ''prod'', opl_Overrides = [kill_override 1000 ''incident'']\<rparr>"
  using store_Set_effect(5) [OF reachable_store_ok [OF demo_reachable], of demo_hash 10 "kill_layer 1000 ''incident''"]
  by (simp add: killed_store_def installed_def kill_layer_def)

lemma kill_entries:
  "overrides_of killed_store ''prod'' ''checkout'' = [kill_override 1000 ''incident'']"
  "overrides_of (built_from (Some (kill_layer 1000 ''incident'')) demo_store) ''prod'' ''checkout''
     = [kill_override 1000 ''incident'']"
  by (simp_all add: overrides_of_def killed_store_ops built_from_def installed_def kill_layer_def kill_override_def
      empty_override_def)

lemma kill_live_landed: "kill_live (built_from (Some (kill_layer 1000 ''incident'')) demo_store) ''prod'' 10 ''checkout''"
  by (simp add: kill_live_def in_force_def kill_entries lapsed_def kill_override_def)

lemma killed_store_killed: "killed killed_store ''prod'' ''checkout''"
  using kill_lands [OF demo_reachable killed_store_build kill_published kill_base _ kill_no_rejections(1)] kill_live_landed
  by (simp add: demo_base_def plain_base_def)

lemma killed_store_rebuilt:
  "PublishedIn (fst (store_build demo_hash 1000 None killed_store)) ''prod''"
  "st_base (snd (store_build demo_hash 1000 None killed_store)) = Some (demo_base 500)"
  subgoal unfolding store_build_def option.case by code_simp
  subgoal using store_build_effect(3) [OF reachable_store_ok [OF killed_store_reachable], of demo_hash 1000 None]
    by (simp add: built_from_def kill_base)
  done

text \<open>The switch lands at 10, and at 1000 a rebuild alone takes it back.\<close>

theorem kill_switch_lands_and_expires_witness:
  "killed killed_store ''prod'' ''checkout''
   \<and> \<not> killed (snd (store_build demo_hash 1000 None killed_store)) ''prod'' ''checkout''"
proof -
  let ?bf = "plain_base ''checkout'' (Some (plain_rollout 500))"
  have bf: "?bf \<in> set (bl_Flags (demo_base 500))" "bf_Key ?bf = ''checkout''" by (simp_all add: demo_base_def plain_base_def)
  have "killed killed_store ''prod'' ''checkout''"
    using kill_switch_lands_and_expires [OF demo_reachable killed_store_build kill_published kill_base bf(1)
        kill_no_rejections(1)] kill_live_landed
    by (simp add: bf(2))
  moreover have "list_all (lapsed 1000) (overrides_of (built_from None killed_store) ''prod'' ''checkout'')"
    by (simp add: built_from_def kill_entries lapsed_def kill_override_def)
  then have "store_Get (snd (store_build demo_hash 1000 None killed_store)) ''checkout'' ''prod'' =
      Some (fst (mergeFlag ?bf (overlay_entry (built_from None killed_store) ''prod'' ''checkout'') None))"
    using kill_switch_lands_and_expires [OF killed_store_reachable prod.collapse [symmetric] killed_store_rebuilt bf(1)
        kill_no_rejections(2)]
    by (simp add: bf(2))
  moreover have "overlay_entry (built_from None killed_store) ''prod'' ''checkout'' = None"
    unfolding built_from_def option.case by code_simp
  ultimately show ?thesis
    by (simp add: killed_def mergeFlag_def merge_overlay_def merge_ops_def) (simp add: plain_base_def)
qed

lemma killed_store_live: "kill_live killed_store ''prod'' 20 ''checkout''"
  by (simp add: kill_live_def in_force_def kill_entries lapsed_def kill_override_def)

theorem kill_switch_holds_witness:
  "\<exists>snap. store_Snapshot (snd (store_build demo_hash 20 (Some (LBase (Some (demo_base 10000)))) killed_store)) ''prod'' = Some snap
     \<and> res_Reason (fst (Evaluate (shipped (\<lambda>_. 0) (Some (\<lambda>_ _ _ _. False))) (Some (view_of snap)) ''checkout''
          (user_ctx ''u'') TypeUnknown (VBool True))) = ReasonDisabled"
  using kill_switch_holds [OF killed_store_reachable killed_store_killed killed_store_live,
      of "Some (LBase (Some (demo_base 10000)))" "shipped (\<lambda>_. 0) (Some (\<lambda>_ _ _ _. False))" "user_ctx ''u''"
        TypeUnknown "VBool True"]
  by (auto simp: other_writer_def)

section \<open>Two consequences of quarantine\<close>

text \<open>
  An override that has expired still rejects its flag when it is malformed as well: the flag stays in quarantine until the
  entry is removed, although an expired entry is dropped from the merge.
\<close>

lemma expired_override_quarantines:
  "live_override (installed (kill_layer 5 []) demo_store) ''prod'' 10 ''checkout'' = None
   \<and> flag_rejections (installed (kill_layer 5 []) demo_store) ''prod'' 10
       (plain_base ''checkout'' (Some (plain_rollout 500))) \<noteq> []"
  by (intro conjI; code_simp)

text \<open>
  A valid kill switch does not take effect while the flag's overlay entry is rejected: the flag is carried as it was, on.
\<close>

definition bad_overlay :: Layer where
  "bad_overlay = LOverlay \<lparr>ol_SchemaVersion = 1, ol_Environment = ''prod'',
     ol_Flags = [(empty_overlay ''checkout'')\<lparr>of_Type := OptVal ''bool''\<rparr>]\<rparr>"

lemma kill_blocked_by_overlay:
  "\<not> killed (snd (store_Set demo_hash 10 (kill_layer 1000 ''incident'') (snd (store_Set demo_hash 5 bad_overlay demo_store))))
      ''prod'' ''checkout''"
proof -
  have "case store_Get (snd (store_Set demo_hash 10 (kill_layer 1000 ''incident'')
          (snd (store_Set demo_hash 5 bad_overlay demo_store)))) ''checkout'' ''prod''
      of None \<Rightarrow> False | Some f \<Rightarrow> flag_Enabled f"
    by code_simp
  then show ?thesis by (auto simp: killed_def split: option.splits)
qed

end
