(* ===== verification/Flagd.thy ===== *)
theory Flagd
  imports Transport_Admin Config_Serve Config_Ops
begin

text \<open>
  The service: the adapters of \<^verbatim>\<open>cmd/flagd/wiring.go\<close> that join the configuration store and the evaluator to the HTTP
  surface, and the two listeners over them. The decoding of a layer document by \<^verbatim>\<open>encoding/json\<close> and the texts of its errors
  and of findings are arguments. The result of a push is read from the store as the push left it.
\<close>

section \<open>The adapters\<close>

definition storeSource_Snapshot :: "Store \<Rightarrow> string \<Rightarrow> snapshot_view option \<times> bool" where
  "storeSource_Snapshot st env =
     (case store_Snapshot st env of None \<Rightarrow> (None, False) | Some snap \<Rightarrow> (Some (view_of snap), True))"

definition storeSource_Environments :: "Store \<Rightarrow> string list" where
  "storeSource_Environments st = Environments st"

record layerEnvelope =
  le_Kind :: string
  le_Body :: "json option"

text \<open>\<^verbatim>\<open>json.Unmarshal\<close> into a struct: an unknown member is skipped.\<close>

fun into_known :: "(string \<Rightarrow> 'a into option) \<Rightarrow> (string \<times> json) list \<Rightarrow> 'a \<Rightarrow> 'a option" where
  "into_known field [] x = Some x"
| "into_known field ((name, j) # ms) x =
     (case field (strings_fold name) of
        None \<Rightarrow> into_known field ms x
      | Some d \<Rightarrow> (case d j x of None \<Rightarrow> None | Some y \<Rightarrow> into_known field ms y))"

fun into_envelope :: "layerEnvelope into" where
  "into_envelope JNull e = Some e"
| "into_envelope (JObj ms) e = into_known (\<lambda>name.
     if name = ''kind'' then Some (via into_string le_Kind (\<lambda>s e. e\<lparr>le_Kind := s\<rparr>))
     else if name = ''body'' then Some (\<lambda>j e. Some (e\<lparr>le_Body := Some j\<rparr>))
     else None) ms e"
| "into_envelope _ e = None"

record codecs =
  cd_parse :: "string \<Rightarrow> json option"
  cd_base :: "json \<Rightarrow> BaseLayer option"
  cd_overlay :: "json \<Rightarrow> OverlayLayer option"
  cd_ops :: "json \<Rightarrow> OpsLayer option"
  cd_error :: string
  cd_findings :: "Findings \<Rightarrow> string"

text \<open>\<^verbatim>\<open>fmt.Errorf("...: %w", ErrValidation)\<close>.\<close>

definition validation_error :: "string \<Rightarrow> apply_error" where
  "validation_error s = \<lparr>ae_Text = s @ '': config validation failed'', ae_Validation = True\<rparr>"

definition decode_layer :: "codecs \<Rightarrow> string \<Rightarrow> apply_error + Layer" where
  "decode_layer cd body =
     (let decoded = (\<lambda>dec what b.
            case Option.bind b dec of
              None \<Rightarrow> Inl (validation_error (''malformed '' @ what @ '': '' @ cd_error cd))
            | Some l \<Rightarrow> Inr l)
      in case Option.bind (cd_parse cd body) (\<lambda>j. into_envelope j \<lparr>le_Kind = [], le_Body = None\<rparr>) of
           None \<Rightarrow> Inl (validation_error (''malformed layer envelope: '' @ cd_error cd))
         | Some env \<Rightarrow>
             (let kind = strings_ToLower (strings_TrimSpace (le_Kind env)) in
              if kind = ''base'' then decoded (\<lambda>b. map_option (\<lambda>l. LBase (Some l)) (cd_base cd b)) ''base layer'' (le_Body env)
              else if kind = ''overlay'' then decoded (\<lambda>b. map_option LOverlay (cd_overlay cd b)) ''overlay layer'' (le_Body env)
              else if kind = ''ops'' then decoded (\<lambda>b. map_option LOps (cd_ops cd b)) ''ops layer'' (le_Body env)
              else Inl (validation_error
                (''unknown layer kind '' @ quoted (le_Kind env) @ '', want base or overlay or ops''))))"

text \<open>One environment of the report, in the order in which the range over the map visits them.\<close>

definition report_env :: "Store \<Rightarrow> BuildReport \<Rightarrow> string \<Rightarrow> ApplyResult \<Rightarrow> ApplyResult" where
  "report_env s rep env out =
     (case gm_get (br_PerEnv rep) env of
        None \<Rightarrow> out
      | Some e \<Rightarrow>
          if \<not> er_Published e then out
          else
            (let flags = (case store_Snapshot s (er_Env e) of None \<Rightarrow> 0 | Some snap \<Rightarrow> rs_Len snap);
                 out = out\<lparr>ar_Applied := ar_Applied out @
                   [\<lparr>ap_Env = er_Env e, ap_Generation = er_Generation e, ap_Flags = flags\<rparr>]\<rparr>
             in if er_ContentChanged e then out\<lparr>ar_FlagsChanged := ar_FlagsChanged out @ [er_Env e]\<rparr> else out))"

definition ApplyLayer :: "codecs \<Rightarrow> hashing \<Rightarrow> time \<Rightarrow> string list \<Rightarrow> string \<Rightarrow> Store \<Rightarrow> (apply_error + ApplyResult) \<times> Store" where
  "ApplyLayer cd h now order body s =
     (case decode_layer cd body of
        Inl e \<Rightarrow> (Inl e, s)
      | Inr layer \<Rightarrow>
          (case store_Set h now layer s of
             (rep, s') \<Rightarrow>
               (case BuildReport_Err rep of
                  Some fs \<Rightarrow> (Inl (validation_error (cd_findings cd fs)), s')
                | None \<Rightarrow> (Inr (fold (report_env s' rep) order \<lparr>ar_Applied = [], ar_FlagsChanged = []\<rparr>), s'))))"

text \<open>\<^verbatim>\<open>wire\<close>: what the server is given, over a store that moves on between the loads.\<close>

record plumbing =
  pl_codecs :: codecs
  pl_hash :: hashing
  pl_sum64 :: "string \<Rightarrow> uint64"
  pl_scan :: scanner
  pl_seconds :: "int \<Rightarrow> string"
  pl_uptime :: string
  pl_expvar :: "act list"
  pl_redirect :: "request \<Rightarrow> act list"

definition wire :: "plumbing \<Rightarrow> (nat \<Rightarrow> Store) \<Rightarrow> time \<Rightarrow> string list \<Rightarrow> Deps" where
  "wire pl sts now order =
     \<lparr>dp_Snapshot = (\<lambda>n. storeSource_Snapshot (sts n)),
      dp_Environments = (\<lambda>n. storeSource_Environments (sts n)),
      dp_Fresh = None,
      dp_Keys = (\<lambda>n env. map_option rs_keys (store_Snapshot (sts n) env)),
      dp_Evaluator = (\<lambda>s k c want d. Inr (fst (Evaluate (core_New (pl_sum64 pl) []) (Some s) k c want d))),
      dp_Applier = Some (\<lambda>body. Inr (fst (ApplyLayer (pl_codecs pl) (pl_hash pl) now order body (sts 0)))),
      dp_Expvar = pl_expvar pl, dp_scan = pl_scan pl, dp_seconds = pl_seconds pl, dp_uptime = pl_uptime pl,
      dp_redirect = pl_redirect pl\<rparr>"

section \<open>A push\<close>

text \<open>The report of a write speaks of the snapshots that are served after it.\<close>

definition report_true :: "BuildReport \<times> Store \<Rightarrow> bool" where
  "report_true rs \<longleftrightarrow>
     (\<forall>env e. gm_get (br_PerEnv (fst rs)) env = Some e \<longrightarrow>
        er_Env e = env \<and>
        (er_Published e \<longrightarrow> (\<exists>snap. store_Snapshot (snd rs) env = Some snap \<and> er_Generation e = rs_generation snap)))"

lemma buildEnv_reports:
  assumes "buildEnv h env now s = (e, s')"
  shows "er_Env e = env \<and>
    (er_Published e \<longrightarrow> (\<exists>snap. store_Snapshot s' env = Some snap \<and> er_Generation e = rs_generation snap))"
  using assms
  by (auto simp: buildEnv_def publish_def mk_EnvResult_def Let_def store_Snapshot_def gm_get_set notify_def
      split: option.splits if_splits)

lemma report_true_step:
  assumes "report_true (r, s)" "env_step = (e, s')"
    and "er_Env e = env \<and>
      (er_Published e \<longrightarrow> (\<exists>snap. store_Snapshot s' env = Some snap \<and> er_Generation e = rs_generation snap))"
    and "\<And>env'. env' \<noteq> env \<Longrightarrow> env_state s' env' = env_state s env'"
  shows "report_true (r\<lparr>br_PerEnv := gm_set env e (br_PerEnv r)\<rparr>, s')"
  using assms by (auto simp: report_true_def gm_get_set store_Snapshot_state)

lemma report_true_build:
  "report_true (r, s) \<Longrightarrow> report_true (for_envs (\<lambda>env. buildEnv h env now) envs (r, s))"
proof (induction envs arbitrary: r s)
  case (Cons env envs)
  obtain e s' where b: "buildEnv h env now s = (e, s')" by (rule prod.exhaust)
  have "env_state s' env' = env_state s env'" if "env' \<noteq> env" for env'
    using buildEnv_built(1) [of h env now s env'] that b by simp
  then have "report_true (r\<lparr>br_PerEnv := gm_set env e (br_PerEnv r)\<rparr>, s')"
    using report_true_step [OF Cons.prems refl buildEnv_reports [OF b]] by blast
  then show ?case using Cons.IH b by (simp add: for_envs_Cons)
qed (simp add: for_envs_def)

lemma report_true_status:
  "report_true (r, s) \<Longrightarrow> report_true (for_envs (\<lambda>env. envStatus env w) envs (r, s))"
proof (induction envs arbitrary: r s)
  case (Cons env envs)
  obtain e s' where b: "envStatus env w s = (e, s')" by (rule prod.exhaust)
  have "er_Env e = env \<and> \<not> er_Published e"
    using b by (auto simp: envStatus_def mk_EnvResult_def Let_def split: option.splits)
  then have "report_true (r\<lparr>br_PerEnv := gm_set env e (br_PerEnv r)\<rparr>, s')"
    using report_true_step [OF Cons.prems refl, of e env s'] envStatus_env_state [of env w s] b by simp
  then show ?case using Cons.IH b by (simp add: for_envs_Cons)
qed (simp add: for_envs_def)

lemma report_true_Set: "report_true (store_Set h now layer s)"
proof -
  have empty: "report_true (r, s)" if "br_PerEnv r = []" for r s using that by (simp add: report_true_def)
  show ?thesis
    by (auto simp: store_Set_def Let_def empty_report_def split: Layer.split
        intro!: empty report_true_build report_true_status)
qed

definition applied_env :: "Store \<Rightarrow> BuildReport \<Rightarrow> string \<Rightarrow> AppliedEnv list" where
  "applied_env s rep env =
     (case gm_get (br_PerEnv rep) env of
        None \<Rightarrow> []
      | Some e \<Rightarrow>
          if er_Published e
          then [\<lparr>ap_Env = er_Env e, ap_Generation = er_Generation e,
            ap_Flags = (case store_Snapshot s (er_Env e) of None \<Rightarrow> 0 | Some snap \<Rightarrow> rs_Len snap)\<rparr>]
          else [])"

lemma fold_report_env: "ar_Applied (fold (report_env s rep) order out) = ar_Applied out @ concat (map (applied_env s rep) order)"
proof (induction order arbitrary: out)
  case (Cons env order)
  have "ar_Applied (report_env s rep env out) = ar_Applied out @ applied_env s rep env"
    by (simp add: report_env_def applied_env_def Let_def split: option.split)
  then show ?case using Cons by simp
qed simp

lemma applied_env_true:
  assumes "report_true (rep, s)"
  shows "map ap_Env (applied_env s rep env) = (if PublishedIn rep env then [env] else [])"
    and "a \<in> set (applied_env s rep env) \<Longrightarrow> \<exists>snap. store_Snapshot s (ap_Env a) = Some snap \<and>
      ap_Generation a = rs_generation snap \<and> ap_Flags a = rs_Len snap"
proof -
  note t = assms [unfolded report_true_def, simplified, rule_format, of env]
  show "map ap_Env (applied_env s rep env) = (if PublishedIn rep env then [env] else [])"
    using t by (auto simp: applied_env_def PublishedIn_def split: option.split)
  show "a \<in> set (applied_env s rep env) \<Longrightarrow> \<exists>snap. store_Snapshot s (ap_Env a) = Some snap \<and>
      ap_Generation a = rs_generation snap \<and> ap_Flags a = rs_Len snap"
    using t by (cases "gm_get (br_PerEnv rep) env") (auto simp: applied_env_def split: if_splits)
qed

lemma concat_if: "concat (map (\<lambda>x. if P x then [x] else []) xs) = filter P xs"
  by (induction xs) auto

text \<open>The order in which a range may visit the environments of a report.\<close>

definition visits :: "string list \<Rightarrow> BuildReport \<Rightarrow> bool" where
  "visits order rep \<longleftrightarrow> distinct order \<and> set order = set (gm_keys (br_PerEnv rep))"

text \<open>C33. A push either is refused as a validation error, never as a fault of the service, or it reports exactly
  the environments it published, each once and in whatever order the map is walked, with the generation and
  the number of flags of the snapshot that is served from then on. The store it leaves is one that a write
  reaches.
\<close>

theorem push_reports:
  assumes "store_reachable h s" "ApplyLayer cd h now order body s = (r, s')"
    and "\<And>layer. decode_layer cd body = Inr layer \<Longrightarrow> visits order (fst (store_Set h now layer s))"
  shows "store_reachable h s' \<and>
    (case r of
       Inl e \<Rightarrow> ae_Validation e
     | Inr res \<Rightarrow>
         (\<exists>layer. decode_layer cd body = Inr layer \<and> s' = snd (store_Set h now layer s) \<and>
            distinct (map ap_Env (ar_Applied res)) \<and>
            set (map ap_Env (ar_Applied res)) = {env. PublishedIn (fst (store_Set h now layer s)) env} \<and>
            (\<forall>a \<in> set (ar_Applied res). \<exists>snap. store_Snapshot s' (ap_Env a) = Some snap \<and>
               ap_Generation a = rs_generation snap \<and> ap_Flags a = rs_Len snap)))"
proof (cases "decode_layer cd body")
  case (Inl e)
  then have "ae_Validation e"
    by (auto simp: decode_layer_def validation_error_def Let_def split: option.splits if_splits)
  then show ?thesis using assms(1,2) Inl by (auto simp: ApplyLayer_def)
next
  case (Inr layer)
  obtain rep st where set: "store_Set h now layer s = (rep, st)" by (rule prod.exhaust)
  have st: "s' = st" using assms(2) Inr set by (auto simp: ApplyLayer_def split: option.splits)
  have reach: "store_reachable h s'"
    using store_reachable.step [OF assms(1) step_Set, of now layer] st set by simp
  have true: "report_true (rep, st)" using report_true_Set [of h now layer s] set by simp
  show ?thesis
  proof (cases "BuildReport_Err rep")
    case (Some fs)
    then show ?thesis using assms(2) Inr set reach by (auto simp: ApplyLayer_def validation_error_def)
  next
    case None
    define res where "res = fold (report_env st rep) order \<lparr>ar_Applied = [], ar_FlagsChanged = []\<rparr>"
    have r: "r = Inr res" using assms(2) Inr set None by (auto simp: ApplyLayer_def res_def)
    have applied: "ar_Applied res = concat (map (applied_env st rep) order)"
      by (simp add: res_def fold_report_env)
    have envs: "map ap_Env (ar_Applied res) = filter (PublishedIn rep) order"
      by (simp add: applied map_concat comp_def applied_env_true(1) [OF true] concat_if)
    have v: "distinct order" "set order = set (gm_keys (br_PerEnv rep))"
      using assms(3) [OF Inr] set by (simp_all add: visits_def)
    have "PublishedIn rep env \<Longrightarrow> env \<in> set order" for env
      unfolding v(2) by (auto simp: PublishedIn_def gm_keys_iff split: option.splits)
    then have "set (map ap_Env (ar_Applied res)) = {env. PublishedIn rep env}"
      unfolding envs by auto
    moreover have "distinct (map ap_Env (ar_Applied res))" unfolding envs using v(1) by simp
    moreover have "\<exists>snap. store_Snapshot s' (ap_Env a) = Some snap \<and>
        ap_Generation a = rs_generation snap \<and> ap_Flags a = rs_Len snap" if "a \<in> set (ar_Applied res)" for a
      using that applied applied_env_true(2) [OF true] st by auto
    ultimately show ?thesis using reach r Inr set st by simp
  qed
qed

section \<open>An evaluation\<close>

definition http_answer :: "Trace \<Rightarrow> string \<Rightarrow> string \<Rightarrow> Result \<Rightarrow> int64 \<Rightarrow> EvaluateResponse" where
  "http_answer t key env res gen =
     \<lparr>es_Flag = key, es_Environment = env, es_Value = res_Value res, es_Reason = Reason_String (res_Reason res),
      es_RuleID = res_RuleID res, es_Bucket = res_Bucket res,
      es_Generation = (if res_Generation res = 0 then gen else res_Generation res),
      es_Fallback = Result_IsFallback res, es_TraceID = tr_TraceID t\<rparr>"

lemma http_finish_value:
  "\<exists>as. http_finish cx key env ec res gen n = (as, n, Inr (http_answer (cx_trace cx) key env res gen)) \<and> writes as = []"
  by (simp add: http_finish_def Let_def andThen_perform ret_def http_answer_def)

lemma evaluateOne_value:
  assumes "generationOf snap = ret gen"
    and "case snap of None \<Rightarrow> res = mk_result d ReasonFlagNotFound NoBucket 0
      | Some s \<Rightarrow> ev s key (wire_toCore ec) (Value_Type d) d = Inr res"
  shows "\<exists>as. evaluateOne cx ev snap key env ec d n =
      (as, n, Inr (Some (http_answer (cx_trace cx) key env res gen))) \<and> writes as = []"
proof (cases snap)
  case None
  then have "gen = 0" using assms(1) by (simp add: generationOf_def ret_def fun_eq_iff)
  then show ?thesis
    using None assms http_finish_value [of cx key env ec res 0 n]
    by (auto simp: evaluateOne_def andThen_def ret_def)
next
  case (Some s)
  then show ?thesis
    using assms http_finish_value [of cx key env ec res gen n]
    by (auto simp: evaluateOne_def safe_Do_def andThen_def ret_def perform_def)
qed

lemma timed_writes:
  "writes as = [WriteHeader code, Write b] \<Longrightarrow> tw_code (timed as) = Some code \<and> tw_buf (timed as) = b"
proof -
  have "tw_code (fold tw_act as w) = tw_code (fold tw_act (writes as) w') \<and>
      tw_buf (fold tw_act as w) = tw_buf (fold tw_act (writes as) w')"
    if "tw_code w = tw_code w'" "tw_buf w = tw_buf w'" for w w'
    using that
  proof (induction as arbitrary: w w')
    case (Cons a as)
    show ?case
    proof (cases a)
      case (WriteHeader code)
      then show ?thesis using Cons.prems Cons.IH [of "tw_act a w" "tw_act a w'"] by auto
    next
      case (Write b)
      then show ?thesis using Cons.prems Cons.IH [of "tw_act a w" "tw_act a w'"] by (auto simp: Let_def)
    qed (use Cons.prems Cons.IH [of "tw_act a w" w'] in auto)
  qed simp
  from this [OF refl refl] show "writes as = [WriteHeader code, Write b] \<Longrightarrow> ?thesis"
    by (simp add: timed_def Let_def)
qed

text \<open>The result an environment's snapshot gives, and the generation it is reported under.\<close>

definition served_result :: "(string \<Rightarrow> uint64) \<Rightarrow> Store \<Rightarrow> string \<Rightarrow> string \<Rightarrow> EvalContext \<Rightarrow> Value \<Rightarrow> Result \<times> int64" where
  "served_result sum64 st env key c d =
     (case store_Snapshot st env of
        None \<Rightarrow> (mk_result d ReasonFlagNotFound NoBucket 0, 0)
      | Some snap \<Rightarrow> (fst (Evaluate (core_New sum64 []) (Some (view_of snap)) key c (Value_Type d) d), rs_generation snap))"

lemma served_result_no_error:
  assumes "store_reachable h st"
  shows "res_Reason (fst (served_result sum64 st env key c d)) \<noteq> ReasonError"
proof (cases "store_Snapshot st env")
  case (Some snap)
  have ok: "snapshot_ok env snap"
    using env_ok_state [OF reachable_store_ok [OF assms], of env] Some
    by (simp add: store_Snapshot_state env_ok_def)
  have "core_New sum64 [] = shipped sum64 None"
    by (simp add: core_New_def WithConditionObserver_def)
  then show ?thesis
    using published.never_error [OF ok, of None sum64 key c "Value_Type d" d] Some
    by (simp add: served_result_def well_behaved_def)
qed (simp add: served_result_def)

definition post_evaluate :: "request \<Rightarrow> bool" where
  "post_evaluate rq \<longleftrightarrow> rq_Method rq = ''POST'' \<and> rq_Path rq = ''/v1/evaluate''"

lemma eval_mux_post: "post_evaluate rq \<Longrightarrow>
    eval_mux cx dp rq = handleEvaluate (dp_scan dp) cx (dp_Evaluator dp) (dp_Snapshot dp) rq"
  by (simp add: eval_mux_def post_evaluate_def clean_path_def)

text \<open>C30. The service answers what the evaluator decides on what was published. A well-formed evaluation request
  that is handled in time gets status 200 and one document: the evaluator's result on the snapshot the
  environment served when the request loaded it, under that snapshot's generation, or the caller's default with
  \<^verbatim>\<open>FLAG_NOT_FOUND\<close> when nothing was ever published; after any pushes before and during the request, the
  reason is never \<^verbatim>\<open>ERROR\<close>, and the metrics count the request as a 200.
\<close>

theorem service_answers:
  fixes cfg pl sts now order w rq req
  defines "t \<equiv> request_trace w rq"
    and "res \<equiv> served_result (pl_sum64 pl) (sts 0) (er_Environment req) (er_Flag req) (wire_toCore (er_Context req))
        (er_Default req)"
  assumes "\<And>n. store_reachable h (sts n)" "post_evaluate rq" "w_deadline w = InTime"
    and "decode_body (pl_scan pl) (cfg_MaxBodyBytes (withDefaults cfg)) into_request zero_request rq = Inr req"
    and "validEnv (er_Environment req)" "validFlagKey (er_Flag req)" "er_Default req \<noteq> VUnset"
  shows "\<exists>resp. served (EvalHandler cfg (wire pl sts now order) w rq) = Some resp \<and> resp_status resp = 200 \<and>
    resp_body resp = [Doc (marshal_response (http_answer t (er_Flag req) (er_Environment req) (fst res) (snd res)))] \<and>
    res_Reason (fst res) \<noteq> ReasonError \<and>
    last (emitted (fst (EvalHandler cfg (wire pl sts now order) w rq))) = MHTTPRequest ''eval'' ''POST'' 200"
proof -
  define cx where "cx = \<lparr>cx_cfg = withDefaults cfg, cx_onPanic = Some Reporter, cx_trace = t, cx_now = w_now w\<rparr>"
  let ?dp = "wire pl sts now order" and ?env = "er_Environment req"
  let ?snap = "pinned (dp_Snapshot ?dp) 0 ?env"
  have gen: "generationOf ?snap = ret (snd res)"
    by (simp add: pinned_def wire_def storeSource_Snapshot_def generationOf_def view_of_def res_def served_result_def
        split: option.split)
  have ev: "case ?snap of None \<Rightarrow> fst res = mk_result (er_Default req) ReasonFlagNotFound NoBucket 0
      | Some s \<Rightarrow> dp_Evaluator ?dp s (er_Flag req) (wire_toCore (er_Context req)) (Value_Type (er_Default req)) (er_Default req)
          = Inr (fst res)"
    by (simp add: pinned_def wire_def storeSource_Snapshot_def res_def served_result_def split: option.split)
  obtain as where as: "evaluateOne cx (dp_Evaluator ?dp) ?snap (er_Flag req) ?env (er_Context req) (er_Default req) 1
      = (as, 1, Inr (Some (http_answer (cx_trace cx) (er_Flag req) ?env (fst res) (snd res))))" "writes as = []"
    using evaluateOne_value [where cx = cx and env = ?env and n = 1 and ev = "dp_Evaluator ?dp" and ec = "er_Context req"
        and key = "er_Flag req" and d = "er_Default req", OF gen ev] by blast
  define doc where "doc = marshal_response (http_answer t (er_Flag req) ?env (fst res) (snd res))"
  define out where "out = as @ [SetHeader content_type application_json, SetHeader content_type_options ''nosniff'',
      WriteHeader 200, Write [Doc doc]]"
  have t: "cx_trace cx = t" "cx_cfg cx = withDefaults cfg" by (simp_all add: cx_def)
  have "eval_mux cx ?dp rq 0 = evaluate_decoded cx (dp_Evaluator ?dp) (dp_Snapshot ?dp) req 0"
    using assms(6) by (simp add: eval_mux_post [OF assms(4)] handleEvaluate_def decodeJSON_def t wire_def)
  also have "\<dots> = (out, 1, Inr ())"
    using assms(7-9) as
    by (simp add: evaluate_decoded_def validateEnv_def pin_def pinned_def [symmetric] andThen_def writeJSON_apply
        out_def doc_def t)
  finally have h: "outcome_of (eval_mux cx ?dp rq) = (out, None)" by (simp add: outcome_of_def)
  have wr: "writes out = [WriteHeader 200, Write [Doc doc]]" by (simp add: out_def as(2))
  have label: "routeLabel (rq_Path rq) = ''eval''" "rq_Method rq = ''POST''"
    using assms(4) by (simp_all add: post_evaluate_def routeLabel_def routes_def)
  note chain = wrap_response [of w rq "\<lambda>t. outcome_of (eval_mux
       \<lparr>cx_cfg = withDefaults cfg, cx_onPanic = Some Reporter, cx_trace = t, cx_now = w_now w\<rparr> ?dp rq)",
       folded t_def, folded cx_def, unfolded h assms(5)]
  show ?thesis
    using chain timed_writes [OF wr] label served_result_no_error [OF assms(3)]
    by (auto simp: EvalHandler_def listener_def doc_def res_def)
qed

section \<open>Examples, and what a push does not say\<close>

definition demo_codecs :: "Layer \<Rightarrow> codecs" where
  "demo_codecs l = \<lparr>cd_parse = (\<lambda>b. Some (JObj [(''kind'', JStr '' Base ''), (''body'', JNull)])),
     cd_base = (\<lambda>j. case l of LBase b \<Rightarrow> b | _ \<Rightarrow> None), cd_overlay = (\<lambda>j. None), cd_ops = (\<lambda>j. None),
     cd_error = [], cd_findings = (\<lambda>fs. [])\<rparr>"

definition demo_plumbing :: plumbing where
  "demo_plumbing = \<lparr>pl_codecs = demo_codecs LOther, pl_hash = demo_hash, pl_sum64 = (\<lambda>_. 0),
     pl_scan = (\<lambda>ends b. Complete (JObj [(''environment'', JStr ''prod''), (''Flag'', JStr ''checkout''),
       (''default'', JBool True)]) []),
     pl_seconds = (\<lambda>a. ''0''), pl_uptime = ''0'', pl_expvar = [], pl_redirect = (\<lambda>rq. [])\<rparr>"

definition demo_post :: request where
  "demo_post = \<lparr>rq_Method = ''POST'', rq_Path = ''/v1/evaluate'', rq_Headers = [], rq_Query_flag = [], rq_Body = ''x'',
     rq_BodyErr = False\<rparr>"

definition demo_world :: world where
  "demo_world = \<lparr>w_rand1 = None, w_rand2 = None, w_nano = 0, w_now = [], w_deadline = InTime\<rparr>"

lemma demo_decodes:
  "decode_body (pl_scan demo_plumbing) (cfg_MaxBodyBytes (withDefaults (cx_cfg demo_cx))) into_request zero_request demo_post =
     Inr \<lparr>er_Environment = ''prod'', er_Flag = ''checkout'', er_Default = VBool True, er_Context = zero_context\<rparr>"
proof -
  have "strings_fold ''environment'' = ''environment''" "strings_fold ''Flag'' = ''flag''"
    "strings_fold ''default'' = ''default''"
    by code_simp+
  moreover have "cfg_MaxBodyBytes (withDefaults (cx_cfg demo_cx)) = 1048576"
    by (simp add: demo_cx_def withDefaults_def)
  ultimately show ?thesis
    by (simp add: decode_body_def demo_plumbing_def demo_post_def hdr_Get_def Let_def into_request_def via_def
        into_value_def zero_request_def)
qed

theorem service_answers_witness:
  "\<exists>resp. served (EvalHandler (cx_cfg demo_cx) (wire demo_plumbing (\<lambda>n. demo_store) 0 []) demo_world demo_post) = Some resp
     \<and> resp_status resp = 200"
proof -
  have "validFlagKey ''checkout''" by code_simp
  then show ?thesis
    using service_answers [where cfg = "cx_cfg demo_cx" and pl = demo_plumbing and sts = "\<lambda>n. demo_store" and now = 0
        and order = "[]" and w = demo_world, OF demo_reachable _ _ demo_decodes]
    by (auto simp: post_evaluate_def demo_post_def demo_world_def)
qed

lemma demo_push: "decode_layer (demo_codecs (LBase (Some (demo_base 500)))) [] = Inr (LBase (Some (demo_base 500)))"
  by code_simp

lemma demo_visits: "visits [''prod''] (fst (store_Set demo_hash 0 (LBase (Some (demo_base 500))) demo_start))"
  unfolding visits_def by code_simp

lemma singleton_list: "distinct xs \<Longrightarrow> set xs = {a} \<Longrightarrow> xs = [a]"
  by (cases xs; cases "tl xs") auto

theorem push_reports_witness:
  "\<exists>r s'. ApplyLayer (demo_codecs (LBase (Some (demo_base 500)))) demo_hash 0 [''prod''] [] demo_start = (r, s') \<and>
     store_reachable demo_hash s' \<and> (case r of Inl e \<Rightarrow> ae_Validation e | Inr res \<Rightarrow> map ap_Env (ar_Applied res) = [''prod''])"
proof -
  obtain r s' where app: "ApplyLayer (demo_codecs (LBase (Some (demo_base 500)))) demo_hash 0 [''prod''] [] demo_start = (r, s')"
    by (rule prod.exhaust)
  have v: "visits [''prod''] (fst (store_Set demo_hash 0 layer demo_start))"
    if "decode_layer (demo_codecs (LBase (Some (demo_base 500)))) [] = Inr layer" for layer
    using that demo_push demo_visits by auto
  define rep where "rep = fst (store_Set demo_hash 0 (LBase (Some (demo_base 500))) demo_start)"
  have pub: "{env. PublishedIn rep env} = {''prod''}"
  proof -
    have "PublishedIn rep env \<Longrightarrow> env \<in> set (gm_keys (br_PerEnv rep))" for env
      by (auto simp: PublishedIn_def gm_keys_iff split: option.splits)
    moreover have "set (gm_keys (br_PerEnv rep)) = {''prod''}"
      using demo_visits unfolding visits_def rep_def [symmetric] by (metis list.set(1) list.set(2))
    moreover have "PublishedIn rep ''prod''" using demo_published by (simp only: rep_def)
    ultimately show ?thesis by blast
  qed
  have out: "store_reachable demo_hash s' \<and> (case r of Inl e \<Rightarrow> ae_Validation e
     | Inr res \<Rightarrow> distinct (map ap_Env (ar_Applied res)) \<and> set (map ap_Env (ar_Applied res)) = {env. PublishedIn rep env})"
  proof (cases r)
    case (Inl e)
    then show ?thesis using push_reports [OF demo_start_reachable app v] by simp
  next
    case (Inr res)
    obtain layer where "decode_layer (demo_codecs (LBase (Some (demo_base 500)))) [] = Inr layer"
      and l: "distinct (map ap_Env (ar_Applied res))"
        "set (map ap_Env (ar_Applied res)) = {env. PublishedIn (fst (store_Set demo_hash 0 layer demo_start)) env}"
      using push_reports [OF demo_start_reachable app v] unfolding Inr sum.case by blast
    then have "layer = LBase (Some (demo_base 500))" using demo_push by simp
    then show ?thesis
      using l push_reports [OF demo_start_reachable app v, THEN conjunct1] unfolding Inr sum.case rep_def by blast
  qed
  then have "case r of Inl e \<Rightarrow> ae_Validation e | Inr res \<Rightarrow> map ap_Env (ar_Applied res) = [''prod'']"
    unfolding pub by (cases r) (simp_all only: sum.case singleton_list)
  then show ?thesis using app out by blast
qed

text \<open>The store does not report freshness, so no row is ever stale, whatever \<^verbatim>\<open>--stale-after\<close> says.\<close>

lemma wired_never_stale:
  "health_row cx (wire pl sts now order) env n = (as, n', Inr row) \<Longrightarrow> \<not> eh_Stale row \<and> eh_Age row = None"
  by (auto simp: health_row_def wire_def Let_def andThen_def ret_def split: prod.splits sum.splits)

text \<open>
  Without required environments the pod waits for every environment of its store, not for any one: a single
  one that never published keeps it out.
\<close>

lemma one_unpublished_blocks:
  assumes "cfg_RequiredEnvs (cx_cfg cx) = []" "env \<in> set (Environments st)" "store_Snapshot st env = None"
  shows "\<exists>as n. handleReady cx (wire pl (\<lambda>_. st) now order) 0 = (as, n, Inr ()) \<and> fst (answer_of as) = 503"
proof -
  let ?dp = "wire pl (\<lambda>_. st) now order"
  have names: "health_names cx ?dp 0 = Environments st"
    using assms(1) by (simp add: health_names_def wire_def storeSource_Environments_def)
  have "tells_generation (pinned (dp_Snapshot ?dp) i e)" for i e
    by (simp add: tells_generation_def pinned_def wire_def storeSource_Snapshot_def view_of_def split: option.split)
  moreover obtain i where "i < length (Environments st)" "Environments st ! i = env"
    using assms(2) by (auto simp: in_set_conv_nth)
  moreover from this have "pinned (dp_Snapshot ?dp) i (Environments st ! i) = None"
    using assms(3) by (simp add: pinned_def wire_def storeSource_Snapshot_def)
  ultimately show ?thesis using ready_lemma [of cx ?dp] by (auto simp: names)
qed

text \<open>What a push lists as changed flags are the names of environments.\<close>

lemma changed_flags_are_environments:
  "set (ar_FlagsChanged (fold (report_env s rep) order out)) \<subseteq>
     set (ar_FlagsChanged out) \<union> {er_Env e | e env. gm_get (br_PerEnv rep) env = Some e}"
proof (induction order arbitrary: out)
  case (Cons env order)
  have "set (ar_FlagsChanged (report_env s rep env out)) \<subseteq>
      set (ar_FlagsChanged out) \<union> {er_Env e | e env. gm_get (br_PerEnv rep) env = Some e}"
    by (auto simp: report_env_def Let_def split: option.splits)
  then show ?case using Cons.IH [of "report_env s rep env out"] by auto
qed simp

text \<open>
  A push that is answered with a validation error may have published: a bad overlay entry quarantines its
  flag, and the environment moves on to a new generation all the same.
\<close>

lemma rejected_push_publishes:
  assumes "decode_layer cd body = Inr bad_overlay"
  shows "\<exists>e s'. ApplyLayer cd demo_hash 5 order body demo_store = (Inl e, s') \<and> ae_Validation e \<and>
    (\<exists>snap. store_Snapshot s' ''prod'' = Some snap \<and> rs_generation snap = 2)"
proof -
  obtain rep s' where set: "store_Set demo_hash 5 bad_overlay demo_store = (rep, s')" by (rule prod.exhaust)
  have "BuildReport_Err (fst (store_Set demo_hash 5 bad_overlay demo_store)) \<noteq> None" by code_simp
  moreover have "case store_Snapshot (snd (store_Set demo_hash 5 bad_overlay demo_store)) ''prod'' of
      None \<Rightarrow> False | Some snap \<Rightarrow> rs_generation snap = 2"
    by code_simp
  ultimately show ?thesis
    using assms set by (auto simp: ApplyLayer_def validation_error_def split: option.splits)
qed

end
