(* ===== verification/Std_Quote.thy ===== *)
theory Std_Quote
  imports Std_Strings
begin

text \<open>
  \<^verbatim>\<open>strconv.Quote\<close> and the part of \<^verbatim>\<open>unicode/utf8\<close> it rests on. Which characters beyond ASCII are printable is
  Unicode data, an argument here. A quoted text can be read back in one way only, whatever that table says.
\<close>

section \<open>UTF-8\<close>

definition RuneError :: nat where "RuneError = 0xFFFD"

definition cont_byte :: "nat \<Rightarrow> bool" where
  "cont_byte b \<longleftrightarrow> 0x80 \<le> b \<and> b \<le> 0xBF"

text \<open>The bounds of the second byte after a first byte.\<close>

definition second_ok :: "nat \<Rightarrow> nat \<Rightarrow> bool" where
  "second_ok a b \<longleftrightarrow>
     (if a = 0xE0 then 0xA0 \<le> b \<and> b \<le> 0xBF
      else if a = 0xED then 0x80 \<le> b \<and> b \<le> 0x9F
      else if a = 0xF0 then 0x90 \<le> b \<and> b \<le> 0xBF
      else if a = 0xF4 then 0x80 \<le> b \<and> b \<le> 0x8F
      else cont_byte b)"

text \<open>\<^verbatim>\<open>utf8.DecodeRuneInString\<close> of a text that is not empty.\<close>

definition decode_rune :: "string \<Rightarrow> nat \<times> nat" where
  "decode_rune s =
     (case map byte (take 4 s) of
        [] \<Rightarrow> (RuneError, 0)
      | a # r \<Rightarrow>
          if a < 0x80 then (a, 1)
          else if 0xC2 \<le> a \<and> a \<le> 0xDF
          then (case r of
                  b # _ \<Rightarrow> if cont_byte b then ((a - 0xC0) * 64 + (b - 0x80), 2) else (RuneError, 1)
                | _ \<Rightarrow> (RuneError, 1))
          else if 0xE0 \<le> a \<and> a \<le> 0xEF
          then (case r of
                  b # c # _ \<Rightarrow>
                    if second_ok a b \<and> cont_byte c
                    then ((a - 0xE0) * 4096 + (b - 0x80) * 64 + (c - 0x80), 3) else (RuneError, 1)
                | _ \<Rightarrow> (RuneError, 1))
          else if 0xF0 \<le> a \<and> a \<le> 0xF4
          then (case r of
                  [b, c, d] \<Rightarrow>
                    if second_ok a b \<and> cont_byte c \<and> cont_byte d
                    then ((a - 0xF0) * 262144 + (b - 0x80) * 4096 + (c - 0x80) * 64 + (d - 0x80), 4)
                    else (RuneError, 1)
                | _ \<Rightarrow> (RuneError, 1))
          else (RuneError, 1))"

text \<open>\<^verbatim>\<open>utf8.AppendRune\<close> of a valid character.\<close>

definition encode_bytes :: "nat \<Rightarrow> nat list" where
  "encode_bytes r =
     (if r < 0x80 then [r]
      else if r < 0x800 then [0xC0 + r div 64, 0x80 + r mod 64]
      else if r < 0x10000 then [0xE0 + r div 4096, 0x80 + r div 64 mod 64, 0x80 + r mod 64]
      else [0xF0 + r div 262144, 0x80 + r div 4096 mod 64, 0x80 + r div 64 mod 64, 0x80 + r mod 64])"

definition encode_rune :: "nat \<Rightarrow> string" where
  "encode_rune r = map char_of (encode_bytes r)"

lemma cat2:
  assumes "y < 64"
  shows "(x * 64 + y) div 64 = (x :: nat)" "(x * 64 + y) mod 64 = y"
  using assms by simp_all

lemma cat3:
  assumes "y < 64" "z < 64"
  shows "(x * 4096 + y * 64 + z) div 4096 = (x :: nat)" "(x * 4096 + y * 64 + z) div 64 mod 64 = y"
    "(x * 4096 + y * 64 + z) mod 64 = z"
proof -
  have e: "x * 4096 + y * 64 + z = (x * 64 + y) * 64 + z" by simp
  show "(x * 4096 + y * 64 + z) div 64 mod 64 = y" "(x * 4096 + y * 64 + z) mod 64 = z"
    unfolding e using assms by (simp_all only: cat2)
  have "(x * 4096 + y * 64 + z) div 4096 = (x * 4096 + y * 64 + z) div 64 div 64"
    by (simp add: div_mult2_eq [symmetric])
  then show "(x * 4096 + y * 64 + z) div 4096 = x"
    unfolding e using assms by (simp only: cat2)
qed

lemma cat4:
  assumes "y < 64" "z < 64" "u < 64"
  shows "(x * 262144 + y * 4096 + z * 64 + u) div 262144 = (x :: nat)"
    "(x * 262144 + y * 4096 + z * 64 + u) div 4096 mod 64 = y"
    "(x * 262144 + y * 4096 + z * 64 + u) div 64 mod 64 = z"
    "(x * 262144 + y * 4096 + z * 64 + u) mod 64 = u"
proof -
  let ?n = "x * 262144 + y * 4096 + z * 64 + u"
  have e: "?n = (x * 4096 + y * 64 + z) * 64 + u" by simp
  have d: "?n div 64 = x * 4096 + y * 64 + z" unfolding e using assms by (simp only: cat2)
  show "?n mod 64 = u" unfolding e using assms by (simp only: cat2)
  show "?n div 64 mod 64 = z" unfolding d using assms by (simp only: cat3)
  have "?n div 4096 = ?n div 64 div 64" by (simp add: div_mult2_eq [symmetric])
  also have "\<dots> = x * 64 + y" unfolding d using cat2 [of z "x * 64 + y"] assms by (simp add: algebra_simps)
  finally have d': "?n div 4096 = x * 64 + y" .
  then show "?n div 4096 mod 64 = y" using assms by (simp only: cat2)
  have "?n div 262144 = ?n div 4096 div 64" by (simp add: div_mult2_eq [symmetric])
  then show "?n div 262144 = x" unfolding d' using assms by (simp only: cat2)
qed

lemma encode2:
  assumes "0xC2 \<le> a" "a \<le> 0xDF" "cont_byte b"
  shows "encode_bytes ((a - 0xC0) * 64 + (b - 0x80)) = [a, b]"
proof -
  define x y where "x = a - 0xC0" "y = b - 0x80"
  then have e: "a = 0xC0 + x" "b = 0x80 + y" and b: "2 \<le> x" "x < 32" "y < 64"
    using assms by (auto simp: cont_byte_def)
  then have "0x80 \<le> x * 64 + y" "x * 64 + y < 0x800" by simp_all
  then have "encode_bytes (x * 64 + y) = [0xC0 + x, 0x80 + y]"
    using b by (simp add: encode_bytes_def cat2)
  then show ?thesis by (simp add: e)
qed

lemma encode3:
  assumes "0xE0 \<le> a" "a \<le> 0xEF" "second_ok a b" "cont_byte c"
  shows "encode_bytes ((a - 0xE0) * 4096 + (b - 0x80) * 64 + (c - 0x80)) = [a, b, c]"
proof -
  define x y z where "x = a - 0xE0" "y = b - 0x80" "z = c - 0x80"
  then have e: "a = 0xE0 + x" "b = 0x80 + y" "c = 0x80 + z" and b: "x < 16" "y < 64" "z < 64" "x = 0 \<Longrightarrow> 32 \<le> y"
    using assms by (auto simp: cont_byte_def second_ok_def split: if_splits)
  have "0x800 \<le> x * 4096 + y * 64 + z" using b by (cases "x = 0") simp_all
  moreover have "x * 4096 + y * 64 + z < 0x10000" using b by simp
  ultimately have "encode_bytes (x * 4096 + y * 64 + z) = [0xE0 + x, 0x80 + y, 0x80 + z]"
    using b cat3 [of y z x] by (simp add: encode_bytes_def)
  then show ?thesis by (simp add: e)
qed

lemma encode4:
  assumes "0xF0 \<le> a" "a \<le> 0xF4" "second_ok a b" "cont_byte c" "cont_byte d"
  shows "encode_bytes ((a - 0xF0) * 262144 + (b - 0x80) * 4096 + (c - 0x80) * 64 + (d - 0x80)) = [a, b, c, d]"
    and "(a - 0xF0) * 262144 + (b - 0x80) * 4096 + (c - 0x80) * 64 + (d - 0x80) < 0x110000"
proof -
  define x y z u where "x = a - 0xF0" "y = b - 0x80" "z = c - 0x80" "u = d - 0x80"
  then have e: "a = 0xF0 + x" "b = 0x80 + y" "c = 0x80 + z" "d = 0x80 + u"
    and b: "x < 5" "y < 64" "z < 64" "u < 64" "x = 0 \<Longrightarrow> 16 \<le> y" "x = 4 \<Longrightarrow> y < 16"
    using assms by (auto simp: cont_byte_def second_ok_def split: if_splits)
  have ge: "0x10000 \<le> x * 262144 + y * 4096 + z * 64 + u" using b by (cases "x = 0") simp_all
  have "x * 262144 + y * 4096 + z * 64 + u < 0x110000" using b by (cases "x = 4") simp_all
  then show "(a - 0xF0) * 262144 + (b - 0x80) * 4096 + (c - 0x80) * 64 + (d - 0x80) < 0x110000" by (simp add: e)
  have "encode_bytes (x * 262144 + y * 4096 + z * 64 + u) = [0xF0 + x, 0x80 + y, 0x80 + z, 0x80 + u]"
    using b ge cat4 [of y z u x] by (simp add: encode_bytes_def)
  then show "encode_bytes ((a - 0xF0) * 262144 + (b - 0x80) * 4096 + (c - 0x80) * 64 + (d - 0x80)) = [a, b, c, d]"
    by (simp add: e)
qed

text \<open>What was decoded encodes back to the bytes it was read from.\<close>

lemma encode_decode:
  assumes "s \<noteq> []" "decode_rune s = (r, w)" "\<not> (w = 1 \<and> r = RuneError)"
  shows "encode_bytes r = take w (map byte s) \<and> 0 < w"
proof -
  obtain a t where s: "s = a # t" using assms(1) by (cases s) auto
  have e1: "encode_bytes x = [x]" if "x < 128" for x using that by (simp add: encode_bytes_def)
  consider "t = []" | b where "t = [b]" | b c where "t = [b, c]" | b c d u where "t = b # c # d # u"
    by (cases t rule: remdups_adj.cases; cases "tl (tl t)") auto
  then show ?thesis
    using assms(2,3) unfolding s decode_rune_def
    by cases (auto simp: e1 encode2 encode3 encode4(1) split: if_splits)
qed

lemma decode_bounds: "(r, w) = decode_rune s \<Longrightarrow> s \<noteq> [] \<Longrightarrow> 0 < w"
  using encode_decode [of s r w] by (cases "w = 1") auto

lemma short_limit:
  "a \<le> 0xDF \<Longrightarrow> cont_byte b \<Longrightarrow> (a - 0xC0) * 64 + (b - 0x80) < 0x110000"
  "a \<le> 0xEF \<Longrightarrow> second_ok a b \<Longrightarrow> cont_byte c \<Longrightarrow> (a - 0xE0) * 4096 + (b - 0x80) * 64 + (c - 0x80) < 0x110000"
  by (auto simp: cont_byte_def second_ok_def split: if_splits)

lemma decode_limit:
  assumes "s \<noteq> []" "decode_rune s = (r, w)"
  shows "r < 0x110000"
proof -
  obtain a t where s: "s = a # t" using assms(1) by (cases s) auto
  show ?thesis
    using assms(2) unfolding s decode_rune_def
    by (auto simp: RuneError_def encode4(2) [simplified] short_limit [simplified] split: if_splits list.splits)
qed

section \<open>Quoting\<close>

definition unicode_IsPrint :: "(nat \<Rightarrow> bool) \<Rightarrow> nat \<Rightarrow> bool" where
  "unicode_IsPrint table r \<longleftrightarrow>
     (if r \<le> 0xFF then 0x20 \<le> r \<and> r < 0x7F \<or> 0xA1 \<le> r \<and> r \<noteq> 0xAD else table r)"

text \<open>The lowest hexadecimal digits of a number, the highest of them first.\<close>

fun hex_n :: "nat \<Rightarrow> nat \<Rightarrow> string" where
  "hex_n 0 r = []"
| "hex_n (Suc k) r = hex_n k (r div 16) @ [hex_digits ! (r mod 16)]"

text \<open>The escapes of one letter.\<close>

definition letter_escapes :: "(nat \<times> char) list" where
  "letter_escapes = [(7, CHR ''a''), (8, CHR ''b''), (12, CHR ''f''), (10, CHR ''n''), (13, CHR ''r''),
     (9, CHR ''t''), (11, CHR ''v'')]"

abbreviation backslash :: char where "backslash \<equiv> CHR 0x5C"

definition appendEscapedRune :: "(nat \<Rightarrow> bool) \<Rightarrow> nat \<Rightarrow> string" where
  "appendEscapedRune table r =
     (if r = 0x22 \<or> r = 0x5C then [backslash, char_of r]
      else if unicode_IsPrint table r then encode_rune r
      else case map_of letter_escapes r of
             Some c \<Rightarrow> [backslash, c]
           | None \<Rightarrow>
               if r < 0x20 \<or> r = 0x7F then backslash # CHR ''x'' # hex_n 2 r
               else if r < 0x10000 then backslash # CHR ''u'' # hex_n 4 r
               else backslash # CHR ''U'' # hex_n 8 r)"

function quote_body :: "(nat \<Rightarrow> bool) \<Rightarrow> string \<Rightarrow> string" where
  "quote_body table s =
     (if s = [] then []
      else case decode_rune s of
             (r, w) \<Rightarrow>
               if w = 1 \<and> r = RuneError
               then backslash # CHR ''x'' # hex_n 2 (byte (hd s)) @ quote_body table (drop 1 s)
               else appendEscapedRune table r @ quote_body table (drop w s))"
  by pat_completeness auto

termination quote_body
  by (relation "measure (\<lambda>(t, s). length s)") (auto dest: decode_bounds)

declare quote_body.simps [simp del]

definition strconv_Quote :: "(nat \<Rightarrow> bool) \<Rightarrow> string \<Rightarrow> string" where
  "strconv_Quote table s = CHR 0x22 # quote_body table s @ [CHR 0x22]"

section \<open>Reading a quoted text back\<close>

definition hex_value :: "char \<Rightarrow> nat" where
  "hex_value c = (if is_digit c then byte c - 48 else byte c - 87)"

definition unhex :: "string \<Rightarrow> nat" where
  "unhex s = foldl (\<lambda>n c. 16 * n + hex_value c) 0 s"

lemma hex_value_digit: "d < 16 \<Longrightarrow> hex_value (hex_digits ! d) = d"
proof -
  have "list_all (\<lambda>d. hex_value (hex_digits ! d) = d) [0..<16]" by code_simp
  then show "d < 16 \<Longrightarrow> hex_value (hex_digits ! d) = d" by (simp add: list_all_iff)
qed

lemma hex_n_length [simp]: "length (hex_n k r) = k"
  by (induction k arbitrary: r) simp_all

lemma unhex_hex_n: "r < 16 ^ k \<Longrightarrow> unhex (hex_n k r) = r"
proof (induction k arbitrary: r)
  case (Suc k)
  then have "r div 16 < 16 ^ k" by (simp add: less_mult_imp_div_less mult.commute)
  then show ?case using Suc.IH [of "r div 16"] by (simp add: unhex_def hex_value_digit)
qed (simp add: unhex_def)

text \<open>The bytes the first piece of a quoted text stands for, and what follows it.\<close>

definition raw_width :: "nat \<Rightarrow> nat" where
  "raw_width a = (if a < 0x80 then 1 else if a < 0xE0 then 2 else if a < 0xF0 then 3 else 4)"

definition letter_value :: "char \<Rightarrow> nat" where
  "letter_value e = (case find (\<lambda>p. snd p = e) letter_escapes of Some p \<Rightarrow> fst p | None \<Rightarrow> byte e)"

definition read_piece :: "string \<Rightarrow> nat list \<times> string" where
  "read_piece q =
     (case q of
        [] \<Rightarrow> ([], [])
      | c # x \<Rightarrow>
          if c \<noteq> backslash then (map byte (take (raw_width (byte c)) q), drop (raw_width (byte c)) q)
          else case x of
                 [] \<Rightarrow> ([], [])
               | e # y \<Rightarrow>
                   if e = CHR ''x'' then ([unhex (take 2 y)], drop 2 y)
                   else if e = CHR ''u'' then (encode_bytes (unhex (take 4 y)), drop 4 y)
                   else if e = CHR ''U'' then (encode_bytes (unhex (take 8 y)), drop 8 y)
                   else ([letter_value e], y))"

lemma encode_shape:
  assumes "r < 0x110000"
  obtains a t where "encode_bytes r = a # t" "raw_width a = Suc (length t)" "\<forall>b \<in> set (a # t). b < 256"
    "r \<noteq> 0x5C \<Longrightarrow> a \<noteq> 0x5C" "r \<noteq> 0x22 \<Longrightarrow> a \<noteq> 0x22"
proof -
  consider "r < 0x80" | "0x80 \<le> r" "r < 0x800" | "0x800 \<le> r" "r < 0x10000" | "0x10000 \<le> r" by linarith
  then show thesis
  proof cases
    case 1
    then show thesis by (intro that [of r "[]"]) (simp_all add: encode_bytes_def raw_width_def)
  next
    case 2
    then have "r div 64 < 32" by (simp add: less_mult_imp_div_less)
    with 2 show thesis
      by (intro that [of "0xC0 + r div 64" "[0x80 + r mod 64]"])
        (auto simp: encode_bytes_def raw_width_def intro: less_le_trans [OF mod_less_divisor])
  next
    case 3
    then have "r div 4096 < 16" by (simp add: less_mult_imp_div_less)
    with 3 show thesis
      by (intro that [of "0xE0 + r div 4096" "[0x80 + r div 64 mod 64, 0x80 + r mod 64]"])
        (auto simp: encode_bytes_def raw_width_def)
  next
    case 4
    have "r div 262144 < 5" using assms by (simp add: less_mult_imp_div_less)
    with 4 show thesis
      by (intro that [of "0xF0 + r div 262144"
            "[0x80 + r div 4096 mod 64, 0x80 + r div 64 mod 64, 0x80 + r mod 64]"])
        (auto simp: encode_bytes_def raw_width_def)
  qed
qed

lemma read_raw:
  assumes "r < 0x110000" "r \<noteq> 0x5C"
  shows "read_piece (encode_rune r @ x) = (encode_bytes r, x)"
proof -
  obtain a t where e: "encode_bytes r = a # t" "raw_width a = Suc (length t)" "\<forall>b \<in> set (a # t). b < 256"
      "a \<noteq> 0x5C"
    using encode_shape [OF assms(1)] assms(2) by metis
  have "char_of a \<noteq> backslash"
  proof
    assume "char_of a = backslash"
    then have "byte (char_of a) = 0x5C" by simp
    then show False using e(3,4) by simp
  qed
  moreover have "map (byte \<circ> char_of) t = t" using e(3) by (intro map_idI) simp
  ultimately show ?thesis using e by (simp add: read_piece_def encode_rune_def)
qed

lemma letter_pieces:
  "\<forall>p \<in> set letter_escapes. read_piece (backslash # snd p # x) = ([fst p], x) \<and> encode_bytes (fst p) = [fst p]"
  by (simp add: letter_escapes_def read_piece_def letter_value_def encode_bytes_def)

lemma read_letter: "map_of letter_escapes r = Some c \<Longrightarrow> read_piece (backslash # c # x) = (encode_bytes r, x)"
  using letter_pieces [of x] by (force dest!: map_of_SomeD)

lemma escaped_chars: "char_of (0x22 :: nat) = CHR 0x22" "char_of (0x5C :: nat) = CHR 0x5C"
  by code_simp+

lemma read_quote: "r = 0x22 \<or> r = 0x5C \<Longrightarrow> read_piece (backslash # char_of r # x) = (encode_bytes r, x)"
  by (elim disjE)
    (simp_all only: escaped_chars, simp_all add: read_piece_def letter_value_def letter_escapes_def encode_bytes_def)

lemma read_hex: "b < 256 \<Longrightarrow> read_piece (backslash # CHR ''x'' # hex_n 2 b @ x) = ([b], x)"
  by (simp add: read_piece_def unhex_hex_n)

lemma read_escaped:
  assumes "r < 0x110000"
  shows "read_piece (appendEscapedRune table r @ x) = (encode_bytes r, x)"
proof -
  consider (quote) "r = 0x22 \<or> r = 0x5C" | (raw) "r \<noteq> 0x22" "r \<noteq> 0x5C" "unicode_IsPrint table r"
    | (letter) c where "r \<noteq> 0x22" "r \<noteq> 0x5C" "\<not> unicode_IsPrint table r" "map_of letter_escapes r = Some c"
    | (number) "r \<noteq> 0x22" "r \<noteq> 0x5C" "\<not> unicode_IsPrint table r" "map_of letter_escapes r = None"
    by (cases "map_of letter_escapes r") blast+
  then show ?thesis
  proof cases
    case quote
    then have "appendEscapedRune table r = [backslash, char_of r]" by (simp only: appendEscapedRune_def if_True)
    then show ?thesis using read_quote [OF quote] by (simp only: append_Cons append_Nil)
  next
    case raw
    then show ?thesis using assms by (simp add: appendEscapedRune_def read_raw)
  next
    case letter
    then show ?thesis by (simp add: appendEscapedRune_def read_letter)
  next
    case number
    consider "r < 0x20 \<or> r = 0x7F" | "\<not> (r < 0x20 \<or> r = 0x7F)" "r < 0x10000" | "\<not> r < 0x10000" by blast
    then show ?thesis
    proof cases
      case 1
      then have "encode_bytes r = [r]" "r < 256" by (auto simp: encode_bytes_def)
      then show ?thesis using number 1 by (simp add: appendEscapedRune_def read_hex)
    next
      case 2
      then show ?thesis using number by (simp add: appendEscapedRune_def read_piece_def unhex_hex_n)
    next
      case 3
      then show ?thesis
        using number assms by (simp add: appendEscapedRune_def read_piece_def unhex_hex_n)
    qed
  qed
qed

text \<open>Every text that is not empty is quoted as a first piece, which stands for its first bytes, and the rest.\<close>

lemma quote_step:
  assumes "s \<noteq> []"
  obtains w where "0 < w" "read_piece (quote_body table s @ y) = (map byte (take w s), quote_body table (drop w s) @ y)"
proof -
  obtain r w where d: "decode_rune s = (r, w)" by (rule prod.exhaust)
  show thesis
  proof (cases "w = 1 \<and> r = RuneError")
    case True
    have "take (Suc 0) s = [hd s]" using assms by (cases s) simp_all
    then show thesis
      using True d assms
      by (intro that [of 1]) (simp_all add: quote_body.simps [of table s] read_hex)
  next
    case False
    then have "encode_bytes r = map byte (take w s)" "0 < w" using encode_decode [OF assms d False] by (simp_all add: take_map)
    then show thesis
      using False d assms decode_limit [OF assms d]
      by (intro that [of w]) (auto simp: quote_body.simps [of table s] read_escaped)
  qed
qed

lemma raw_first: "r < 0x110000 \<Longrightarrow> r \<noteq> 0x22 \<Longrightarrow> \<exists>c u. encode_rune r = c # u \<and> c \<noteq> CHR 0x22"
proof -
  assume "r < 0x110000" "r \<noteq> 0x22"
  then obtain a t where e: "encode_bytes r = a # t" "\<forall>b \<in> set (a # t). b < 256" "a \<noteq> 0x22"
    by (metis encode_shape)
  have "char_of a \<noteq> CHR 0x22"
  proof
    assume "char_of a = CHR 0x22"
    then have "byte (char_of a) = 0x22" by simp
    then show False using e(2,3) by simp
  qed
  then show ?thesis using e(1) by (simp add: encode_rune_def)
qed

lemma quote_first:
  assumes "s \<noteq> []"
  shows "\<exists>c u. quote_body table s = c # u \<and> c \<noteq> CHR 0x22"
proof -
  obtain r w where d: "decode_rune s = (r, w)" by (rule prod.exhaust)
  have "\<exists>c u. appendEscapedRune table r = c # u \<and> c \<noteq> CHR 0x22"
    using raw_first [OF decode_limit [OF assms d]]
    by (auto simp: appendEscapedRune_def split: option.split)
  then show ?thesis using assms d by (auto simp: quote_body.simps [of table s])
qed

text \<open>
  A quoted text ends where its closing quote says: whatever follows, two texts that begin with a quoted text
  begin with the same one.
\<close>

lemma quote_body_prefix_free:
  "quote_body table s @ CHR 0x22 # x = quote_body table t @ CHR 0x22 # y \<Longrightarrow> s = t \<and> x = y"
proof (induction "length s" arbitrary: s t rule: less_induct)
  case less
  show ?case
  proof (cases "s = [] \<or> t = []")
    case True
    then show ?thesis
      using less.prems quote_first [of s table] quote_first [of t table]
      by (cases "s = []"; cases "t = []") (auto simp: quote_body.simps [of table "[]"])
  next
    case False
    obtain w where w: "0 < w" "read_piece (quote_body table s @ CHR 0x22 # x) =
        (map byte (take w s), quote_body table (drop w s) @ CHR 0x22 # x)"
      using quote_step [of s table "CHR 0x22 # x"] False by metis
    obtain v where v: "0 < v" "read_piece (quote_body table t @ CHR 0x22 # y) =
        (map byte (take v t), quote_body table (drop v t) @ CHR 0x22 # y)"
      using quote_step [of t table "CHR 0x22 # y"] False by metis
    have same: "map byte (take w s) = map byte (take v t)"
        "quote_body table (drop w s) @ CHR 0x22 # x = quote_body table (drop v t) @ CHR 0x22 # y"
      using less.prems w(2) v(2) by simp_all
    have "take w s = take v t" by (rule map_injective [OF same(1)]) (simp add: inj_on_def)
    moreover have "drop w s = drop v t \<and> x = y"
      using less.hyps [of "drop w s"] same(2) w(1) False by simp
    ultimately show ?thesis by (metis append_take_drop_id)
  qed
qed

lemma strconv_Quote_prefix_free: "strconv_Quote table s @ x = strconv_Quote table t @ y \<Longrightarrow> s = t \<and> x = y"
  using quote_body_prefix_free [of table s x t y] by (simp add: strconv_Quote_def)

end
