(* ===== verification/Obs_Labels.thy ===== *)
theory Obs_Labels
  imports Std_Quote
begin

text \<open>
  The names of the metrics, the guard on their labels and the identifier of a series, from
  \<^verbatim>\<open>internal/obs/metrics.go\<close>. The table of printable characters \<^verbatim>\<open>strconv.Quote\<close> consults is the argument \<^verbatim>\<open>tbl\<close>.
\<close>

section \<open>Names\<close>

definition MetricEvaluationsTotal :: string where "MetricEvaluationsTotal = ''flagsvc_evaluations_total''"
definition MetricEvaluationSeconds :: string where "MetricEvaluationSeconds = ''flagsvc_evaluation_duration_seconds''"
definition MetricFallbackTotal :: string where "MetricFallbackTotal = ''flagsvc_evaluation_fallback_total''"
definition MetricConfigApplyTotal :: string where "MetricConfigApplyTotal = ''flagsvc_config_apply_total''"
definition MetricConfigApplySeconds :: string where "MetricConfigApplySeconds = ''flagsvc_config_apply_duration_seconds''"
definition MetricPropagationLag :: string where "MetricPropagationLag = ''flagsvc_propagation_lag_seconds''"
definition MetricSnapshotGeneration :: string where "MetricSnapshotGeneration = ''flagsvc_snapshot_generation''"
definition MetricSnapshotFlags :: string where "MetricSnapshotFlags = ''flagsvc_snapshot_flags''"
definition MetricHTTPRequestsTotal :: string where "MetricHTTPRequestsTotal = ''flagsvc_http_requests_total''"
definition MetricHTTPSeconds :: string where "MetricHTTPSeconds = ''flagsvc_http_request_duration_seconds''"
definition MetricPanicsTotal :: string where "MetricPanicsTotal = ''flagsvc_panics_total''"
definition MetricLabelsDropped :: string where "MetricLabelsDropped = ''flagsvc_metrics_labels_dropped_total''"
definition MetricSeriesOverflow :: string where "MetricSeriesOverflow = ''flagsvc_metrics_series_overflow_total''"

lemmas metric_names =
  MetricEvaluationsTotal_def MetricEvaluationSeconds_def MetricFallbackTotal_def MetricConfigApplyTotal_def
  MetricConfigApplySeconds_def MetricPropagationLag_def MetricSnapshotGeneration_def MetricSnapshotFlags_def
  MetricHTTPRequestsTotal_def MetricHTTPSeconds_def MetricPanicsTotal_def

section \<open>Labels\<close>

record Label =
  lb_Name :: string
  lb_Value :: string

definition L_label :: "string \<Rightarrow> string \<Rightarrow> Label" where
  "L_label name val = \<lparr>lb_Name = name, lb_Value = val\<rparr>"

definition allowedLabelNames :: "string list" where
  "allowedLabelNames =
     [''flag'', ''env'', ''reason'', ''result'', ''stage'', ''state'', ''route'', ''method'', ''code'', ''site'']"

definition deniedLabelNames :: "(string \<times> string) list" where
  "deniedLabelNames =
     [(''user_id'', ''unbounded: 1e9 users x 500 flags is 5e11 series, an outage of the metrics backend''),
      (''tenant_id'', ''unbounded until a ceiling is proven; log it instead''),
      (''session_id'', ''unbounded''),
      (''request_id'', ''unbounded''),
      (''trace_id'', ''unbounded; this is what tracing is for''),
      (''span_id'', ''unbounded''),
      (''rule_id'', ''grows with config edits and is already carried on Result and in logs''),
      (''bucket'', ''10000 distinct values per flag''),
      (''path'', ''attacker-controlled; use the route label''),
      (''url'', ''attacker-controlled''),
      (''query'', ''attacker-controlled''),
      (''ip'', ''unbounded and personally identifying''),
      (''email'', ''unbounded and personally identifying''),
      (''value'', ''flag values are unbounded for string flags'')]"

definition MaxLabelValueLen :: nat where "MaxLabelValueLen = 96"

text \<open>The causes of \<^verbatim>\<open>ErrLabelRejected\<close>.\<close>

datatype label_error =
    EmptyLabelName
  | DeniedLabel string string
  | UnlistedLabel string "string list"
  | LongLabelValue string nat nat

definition sortedAllowed :: "string list" where
  "sortedAllowed = sort allowedLabelNames"

definition AllowedLabelNames :: "string list" where
  "AllowedLabelNames = sortedAllowed"

definition ValidateLabel :: "Label \<Rightarrow> label_error option" where
  "ValidateLabel l =
     (let name = strings_ToLower (strings_TrimSpace (lb_Name l)) in
      if name = [] then Some EmptyLabelName
      else case map_of deniedLabelNames name of
             Some why \<Rightarrow> Some (DeniedLabel name why)
           | None \<Rightarrow>
               if name \<notin> set allowedLabelNames then Some (UnlistedLabel name sortedAllowed)
               else if length (lb_Value l) > MaxLabelValueLen
               then Some (LongLabelValue name (length (lb_Value l)) MaxLabelValueLen)
               else None)"

fun SanitizeLabels :: "Label list \<Rightarrow> Label list \<times> string list" where
  "SanitizeLabels [] = ([], [])"
| "SanitizeLabels (l # ls) =
     (let (kept, dropped) = SanitizeLabels ls in
      if ValidateLabel l \<noteq> None then (kept, lb_Name l # dropped)
      else (L_label (strings_ToLower (strings_TrimSpace (lb_Name l))) (lb_Value l) # kept, dropped))"

text \<open>
  The identifier of a series. \<^verbatim>\<open>sort.Slice\<close> is an insertion sort on a slice this short, so equal names keep their
  order.
\<close>

fun series_labels :: "(nat \<Rightarrow> bool) \<Rightarrow> Label list \<Rightarrow> string" where
  "series_labels tbl [] = []"
| "series_labels tbl [l] = lb_Name l @ CHR ''='' # strconv_Quote tbl (lb_Value l)"
| "series_labels tbl (l # ls) =
     lb_Name l @ CHR ''='' # strconv_Quote tbl (lb_Value l) @ CHR '','' # series_labels tbl ls"

definition seriesKey :: "(nat \<Rightarrow> bool) \<Rightarrow> string \<Rightarrow> Label list \<Rightarrow> string" where
  "seriesKey tbl name labels =
     (if labels = [] then name
      else name @ ''{'' @ series_labels tbl (sort_key lb_Name labels) @ ''}'')"

definition clean_label :: "Label \<Rightarrow> bool" where
  "clean_label l \<longleftrightarrow>
     lb_Name l \<in> set allowedLabelNames \<and> lb_Name l \<notin> fst ` set deniedLabelNames \<and> length (lb_Value l) \<le> 96"

lemma kept_clean: "l \<in> set (fst (SanitizeLabels ls)) \<Longrightarrow> clean_label l"
  by (induction ls)
    (auto simp: Let_def ValidateLabel_def clean_label_def L_label_def MaxLabelValueLen_def map_of_eq_None_iff
      split: prod.splits if_splits option.splits, force+)

lemma dropped_count: "length (fst (SanitizeLabels ls)) + length (snd (SanitizeLabels ls)) = length ls"
  by (induction ls) (auto simp: Let_def split: prod.splits)

lemma allowed_plain: "n \<in> set allowedLabelNames \<Longrightarrow> CHR ''='' \<notin> set n \<and> n \<noteq> []"
  by (auto simp: allowedLabelNames_def)

lemma cut_eq: "c \<notin> set a \<Longrightarrow> c \<notin> set b \<Longrightarrow> a @ c # x = b @ c # y \<longleftrightarrow> a = b \<and> x = y"
proof (induction a arbitrary: b)
  case Nil
  then show ?case by (cases b) auto
next
  case (Cons d a)
  then show ?case by (cases b) auto
qed

text \<open>The labels of a series can be read off its key.\<close>

definition labels_rest :: "(nat \<Rightarrow> bool) \<Rightarrow> Label list \<Rightarrow> string" where
  "labels_rest tbl ls = (if ls = [] then ''}'' else CHR '','' # series_labels tbl ls @ ''}'')"

lemma series_labels_step:
  "series_labels tbl (l # ls) @ ''}'' = lb_Name l @ CHR ''='' # strconv_Quote tbl (lb_Value l) @ labels_rest tbl ls"
  by (cases ls) (simp_all add: labels_rest_def)

lemma series_labels_inj:
  assumes "\<forall>l \<in> set ls \<union> set ls'. CHR ''='' \<notin> set (lb_Name l)"
    and "series_labels tbl ls @ ''}'' = series_labels tbl ls' @ ''}''"
  shows "ls = ls'"
  using assms
proof (induction ls arbitrary: ls')
  case Nil
  then show ?case
    by (cases ls') (auto simp: series_labels_step dest!: arg_cong [of "''}''" _ "\<lambda>x. CHR ''='' \<in> set x"])
next
  case (Cons l ls)
  note step = this
  show ?case
  proof (cases ls')
    case Nil
    then show ?thesis
      using arg_cong [OF Cons.prems(2), of "\<lambda>x. CHR ''='' \<in> set x"] by (simp only: series_labels_step) simp
  next
    case (Cons m ms)
    have "lb_Name l = lb_Name m"
      and q: "strconv_Quote tbl (lb_Value l) @ labels_rest tbl ls = strconv_Quote tbl (lb_Value m) @ labels_rest tbl ms"
      using Cons.prems unfolding Cons series_labels_step by (simp_all add: cut_eq)
    moreover have "lb_Value l = lb_Value m" and r: "labels_rest tbl ls = labels_rest tbl ms"
      using strconv_Quote_prefix_free [OF q] by simp_all
    moreover have "ls = ms"
    proof (cases "ls = [] \<or> ms = []")
      case True
      then show ?thesis using r by (auto simp: labels_rest_def split: if_splits)
    next
      case False
      then have "series_labels tbl ls @ ''}'' = series_labels tbl ms @ ''}''"
        using r by (simp add: labels_rest_def)
      then show ?thesis using Cons.IH Cons.prems(1) Cons by simp
    qed
    ultimately show ?thesis using Cons by (simp add: Label.equality)
  qed
qed

definition plain_name :: "string \<Rightarrow> bool" where
  "plain_name n \<longleftrightarrow> CHR ''{'' \<notin> set n"

lemma seriesKey_inj:
  assumes "plain_name n" "plain_name n'" "\<forall>l \<in> set ls \<union> set ls'. CHR ''='' \<notin> set (lb_Name l)"
    and "seriesKey tbl n ls = seriesKey tbl n' ls'"
  shows "n = n' \<and> sort_key lb_Name ls = sort_key lb_Name ls'"
proof -
  consider "ls = []" "ls' = []" | "ls = []" "ls' \<noteq> []" | "ls \<noteq> []" "ls' = []" | "ls \<noteq> []" "ls' \<noteq> []" by blast
  then show ?thesis
  proof cases
    case 4
    then have "n @ CHR ''{'' # series_labels tbl (sort_key lb_Name ls) @ ''}'' =
        n' @ CHR ''{'' # series_labels tbl (sort_key lb_Name ls') @ ''}''"
      using assms(4) by (simp add: seriesKey_def)
    then have "n = n'" "series_labels tbl (sort_key lb_Name ls) @ ''}'' = series_labels tbl (sort_key lb_Name ls') @ ''}''"
      using assms(1,2) cut_eq [of "CHR ''{''" n n'] unfolding plain_name_def by blast+
    then show ?thesis using series_labels_inj assms(3) by simp
  qed (use assms in \<open>auto simp: seriesKey_def plain_name_def\<close>)
qed

end
