(* ===== verification/Obs_Histogram.thy ===== *)
theory Obs_Histogram
  imports Complex_Main Transport_Error
begin

text \<open>
  The histograms of \<^verbatim>\<open>internal/obs/metrics.go\<close>. A \<^verbatim>\<open>float64\<close> is a rational number here and in \<^verbatim>\<open>Obs_Metrics\<close>, so
  what rounding does to a sum is left out; counts are 64 bits wide.
\<close>

section \<open>Histograms\<close>

record histogram =
  hg_bounds :: "rat list"
  hg_counts :: "uint64 list"
  hg_sum :: rat
  hg_total :: uint64

definition newHistogram :: "rat list \<Rightarrow> histogram" where
  "newHistogram bounds =
     \<lparr>hg_bounds = bounds, hg_counts = replicate (length bounds + 1) 0, hg_sum = 0, hg_total = 0\<rparr>"

text \<open>\<^verbatim>\<open>sort.Search\<close>: the binary search between two positions.\<close>

function sort_Search :: "(nat \<Rightarrow> bool) \<Rightarrow> nat \<Rightarrow> nat \<Rightarrow> nat" where
  "sort_Search f i j =
     (if i < j
      then let h = (i + j) div 2
           in if \<not> f h then sort_Search f (h + 1) j else sort_Search f i h
      else i)"
  by pat_completeness auto

termination sort_Search
  by (relation "measure (\<lambda>(f, i, j). j - i)") auto

declare sort_Search.simps [simp del]

definition sort_SearchFloat64s :: "rat list \<Rightarrow> rat \<Rightarrow> nat" where
  "sort_SearchFloat64s bounds v = sort_Search (\<lambda>i. v \<le> bounds ! i) 0 (length bounds)"

definition Observe :: "rat \<Rightarrow> histogram \<Rightarrow> histogram" where
  "Observe v h =
     (let i = sort_SearchFloat64s (hg_bounds h) v
      in h\<lparr>hg_counts := (hg_counts h)[i := hg_counts h ! i + 1],
           hg_sum := hg_sum h + v, hg_total := hg_total h + 1\<rparr>)"

definition Histogram_Snapshot :: "histogram \<Rightarrow> uint64 \<times> rat \<times> uint64 list" where
  "Histogram_Snapshot h = (hg_total h, hg_sum h, hg_counts h)"

text \<open>The loop of \<^verbatim>\<open>String\<close>: the running total at each bound, then at infinity.\<close>

fun cumulative :: "uint64 \<Rightarrow> rat list \<Rightarrow> uint64 list \<Rightarrow> (rat option \<times> uint64) list" where
  "cumulative cum (b # bs) (c # cs) = (Some b, cum + c) # cumulative (cum + c) bs cs"
| "cumulative cum [] (c # cs) = [(None, cum + last (c # cs))]"
| "cumulative cum bs [] = []"

text \<open>\<^verbatim>\<open>FormatFloat\<close> is the argument \<^verbatim>\<open>fmt\<close>.\<close>

fun join_commas :: "string list \<Rightarrow> string" where
  "join_commas [] = []"
| "join_commas [x] = x"
| "join_commas (x # xs) = x @ '','' @ join_commas xs"

definition Histogram_String :: "(rat \<Rightarrow> string) \<Rightarrow> histogram \<Rightarrow> string" where
  "Histogram_String fmt h =
     ''{'' @ quoted ''count'' @ '':'' @ format_nat (unat (hg_total h)) @ '','' @ quoted ''sum'' @ '':'' @ fmt (hg_sum h) @
     '','' @ quoted ''buckets'' @ '':{'' @
     join_commas (map (\<lambda>(b, c). quoted (case b of Some r \<Rightarrow> fmt r | None \<Rightarrow> ''+Inf'') @ '':'' @ format_nat (unat c))
       (cumulative 0 (hg_bounds h) (hg_counts h))) @ ''}}''"

text \<open>Below the lower position the predicate is false, from the upper one on it is true.\<close>

lemma sort_Search_least:
  assumes "i \<le> j" "j \<le> n" "\<And>a b. a \<le> b \<Longrightarrow> b < n \<Longrightarrow> f a \<Longrightarrow> f b"
    and "\<And>a. a < i \<Longrightarrow> \<not> f a" "\<And>a. j \<le> a \<Longrightarrow> a < n \<Longrightarrow> f a"
  shows "sort_Search f i j \<le> n \<and> (\<forall>a < n. f a \<longleftrightarrow> sort_Search f i j \<le> a)"
  using assms
proof (induction f i j rule: sort_Search.induct)
  case (1 f i j)
  note mono = 1(5) and low = 1(6) and high = 1(7)
  show ?case
  proof (cases "i < j")
    case False
    then have "sort_Search f i j = i" by (subst sort_Search.simps) simp
    moreover have "i = j" using False 1(3) by simp
    ultimately show ?thesis using 1(4) low high by (metis not_le)
  next
    case True
    define h where "h = (i + j) div 2"
    have h: "i \<le> h" "h < j" using True by (auto simp: h_def)
    show ?thesis
    proof (cases "f h")
      case t: True
      have "sort_Search f i j = sort_Search f i h"
        using True t by (simp add: sort_Search.simps [of f i j] h_def [symmetric] Let_def)
      moreover have "sort_Search f i h \<le> n \<and> (\<forall>a < n. f a \<longleftrightarrow> sort_Search f i h \<le> a)"
        by (rule 1(2) [OF True h_def]) (use t h 1(4) mono low in auto)
      ultimately show ?thesis by simp
    next
      case f: False
      have "sort_Search f i j = sort_Search f (h + 1) j"
        using True f by (simp add: sort_Search.simps [of f i j] h_def [symmetric] Let_def)
      moreover have "\<not> f a" if "a < h + 1" for a
        using that mono [of a h] f h(2) 1(4) by linarith
      then have "sort_Search f (h + 1) j \<le> n \<and> (\<forall>a < n. f a \<longleftrightarrow> sort_Search f (h + 1) j \<le> a)"
        by (intro 1(1) [OF True h_def]) (use f h 1(4) mono high in auto)
      ultimately show ?thesis by simp
    qed
  qed
qed

text \<open>On sorted bounds the search finds the first bound that is not below the value.\<close>

lemma SearchFloat64s_least:
  assumes "sorted bounds"
  shows "sort_SearchFloat64s bounds v \<le> length bounds"
    and "i < length bounds \<Longrightarrow> sort_SearchFloat64s bounds v \<le> i \<longleftrightarrow> v \<le> bounds ! i"
proof -
  have "sort_SearchFloat64s bounds v \<le> length bounds \<and>
      (\<forall>a < length bounds. v \<le> bounds ! a \<longleftrightarrow> sort_SearchFloat64s bounds v \<le> a)"
    unfolding sort_SearchFloat64s_def
  proof (rule sort_Search_least)
    show "v \<le> bounds ! b" if "a \<le> b" "b < length bounds" "v \<le> bounds ! a" for a b
      using sorted_nth_mono [OF assms that(1,2)] that(3) by simp
  qed simp_all
  then show "sort_SearchFloat64s bounds v \<le> length bounds"
    and "i < length bounds \<Longrightarrow> sort_SearchFloat64s bounds v \<le> i \<longleftrightarrow> v \<le> bounds ! i"
    by simp_all
qed

definition observe_all :: "rat list \<Rightarrow> histogram \<Rightarrow> histogram" where
  "observe_all vs h = foldl (\<lambda>h v. Observe v h) h vs"

definition bound_counts :: "histogram \<Rightarrow> rat list \<Rightarrow> bool" where
  "bound_counts h vs \<longleftrightarrow>
     length (hg_counts h) = length (hg_bounds h) + 1 \<and> hg_total h = of_nat (length vs) \<and>
     hg_sum h = sum_list vs \<and> sum_list (hg_counts h) = of_nat (length vs) \<and>
     (\<forall>i < length (hg_bounds h). sum_list (take (i + 1) (hg_counts h)) = of_nat (length (filter (\<lambda>v. v \<le> hg_bounds h ! i) vs)))"

lemma bound_counts_new: "bound_counts (newHistogram bounds) []"
proof -
  have z: "sum_list (replicate n (0 :: uint64)) = 0" for n by (induction n) simp_all
  then show ?thesis using z by (simp add: bound_counts_def newHistogram_def take_Cons')
qed

lemma bound_counts_Observe:
  assumes "sorted (hg_bounds h)" "bound_counts h vs"
  shows "bound_counts (Observe v h) (vs @ [v])"
proof -
  let ?k = "sort_SearchFloat64s (hg_bounds h) v" and ?c = "hg_counts h"
  have k: "?k < length ?c"
    using SearchFloat64s_least(1) [OF assms(1)] assms(2) by (simp add: bound_counts_def less_Suc_eq_le)
  have "sum_list (take (i + 1) (?c[?k := ?c ! ?k + 1])) = sum_list (take (i + 1) ?c) + (if ?k \<le> i then 1 else 0)" for i
  proof (cases "?k \<le> i")
    case True
    then have "?k < length (take (i + 1) ?c)" "take (i + 1) ?c ! ?k = ?c ! ?k" using k by simp_all
    then show ?thesis
      using True sum_list_replace [of ?k "take (i + 1) ?c" "?c ! ?k + 1"] by (simp add: take_update_swap del: length_take)
  next
    case False
    then show ?thesis by simp
  qed
  moreover have "sum_list (?c[?k := ?c ! ?k + 1]) = sum_list ?c + 1" using sum_list_replace [OF k] by simp
  ultimately show ?thesis
    using assms(2) SearchFloat64s_least(2) [OF assms(1)] by (auto simp: bound_counts_def Observe_def Let_def)
qed

lemma observe_all_bounds [simp]: "hg_bounds (observe_all vs h) = hg_bounds h"
  by (induction vs arbitrary: h) (simp_all add: observe_all_def Observe_def Let_def)

lemma bound_counts_all:
  "sorted (hg_bounds h) \<Longrightarrow> bound_counts h us \<Longrightarrow> bound_counts (observe_all vs h) (us @ vs)"
proof (induction vs arbitrary: h us)
  case (Cons v vs)
  then have "bound_counts (Observe v h) (us @ [v])" "hg_bounds (Observe v h) = hg_bounds h"
    by (simp_all add: bound_counts_Observe) (simp add: Observe_def Let_def)
  then show ?case using Cons.IH [of "Observe v h" "us @ [v]"] Cons.prems(1) by (simp add: observe_all_def)
qed (simp add: observe_all_def)

lemma cumulative_sums:
  "length cs = length bs + 1 \<Longrightarrow>
     cumulative cum bs cs =
       map (\<lambda>i. (Some (bs ! i), cum + sum_list (take (i + 1) cs))) [0..<length bs] @ [(None, cum + sum_list cs)]"
proof (induction cum bs cs rule: cumulative.induct)
  case (1 cum b bs c cs)
  have "[0..<length (b # bs)] = 0 # map Suc [0..<length bs]" by (simp only: length_Cons upt_conv_Cons map_Suc_upt zero_less_Suc)
  then show ?case using 1 by (simp add: comp_def add.assoc del: upt_Suc)
next
  case (2 cum c cs)
  then show ?case by simp
qed simp

lemma index_map: "map (\<lambda>i. f (xs ! i)) [0..<length xs] = map f xs"
  by (rule nth_equalityI) simp_all

text \<open>A histogram shows exactly the values it was given: after any sequence of observations the buckets it
  renders carry, at each bound, the number of values up to that bound, and at infinity the number of all of them, which
  is also its count; the sum is the sum of the values. Counts are 64 bits wide. A value that equals a bound is
  counted at that bound.
\<close>

theorem histogram_counts_observations:
  assumes "sorted bounds"
  shows "let h = observe_all vs (newHistogram bounds)
    in cumulative 0 (hg_bounds h) (hg_counts h) =
         map (\<lambda>b. (Some b, of_nat (length (filter (\<lambda>v. v \<le> b) vs)))) bounds @ [(None, of_nat (length vs))] \<and>
       hg_total h = of_nat (length vs) \<and> hg_sum h = sum_list vs"
proof -
  define h where "h = observe_all vs (newHistogram bounds)"
  have b: "hg_bounds h = bounds" by (simp add: h_def newHistogram_def)
  have c: "bound_counts h vs"
    using bound_counts_all [OF _ bound_counts_new, of bounds vs] assms by (simp add: h_def newHistogram_def)
  then have "cumulative 0 (hg_bounds h) (hg_counts h) =
      map (\<lambda>i. (Some (bounds ! i), of_nat (length (filter (\<lambda>v. v \<le> bounds ! i) vs)))) [0..<length bounds] @
      [(None, of_nat (length vs))]"
    by (simp add: cumulative_sums bound_counts_def b)
  also have "\<dots> = map (\<lambda>b. (Some b, of_nat (length (filter (\<lambda>v. v \<le> b) vs)))) bounds @ [(None, of_nat (length vs))]"
    by (simp only: index_map [of "\<lambda>b. (Some b, of_nat (length (filter (\<lambda>v. v \<le> b) vs)))" bounds])
  finally show ?thesis using c by (simp add: h_def [symmetric] Let_def bound_counts_def)
qed

theorem histogram_counts_observations_witness:
  "let h = observe_all [1/2, 3, 1] (newHistogram [1, 2])
   in cumulative 0 (hg_bounds h) (hg_counts h) = [(Some 1, 2), (Some 2, 2), (None, 3)] \<and> hg_total h = 3"
  using histogram_counts_observations [of "[1, 2]" "[1/2, 3, 1]"] by (simp add: Let_def)

end
