(* ===== verification/Obs_Metrics.thy ===== *)
theory Obs_Metrics
  imports Obs_Labels Obs_Histogram
begin

text \<open>
  The metric registry and the recorder, \<^verbatim>\<open>internal/obs/metrics.go\<close> and \<^verbatim>\<open>recorder.go\<close>. The registry is guarded by a
  mutex and its variables are atomic, so each call is one step; a variable once handed out stays in the registry, so
  its key stands for the pointer to it. A panic is \<^const>\<open>None\<close>.
\<close>

section \<open>The registry\<close>

definition DefaultLatencyBuckets :: "rat list" where
  "DefaultLatencyBuckets =
     [5/1000000, 1/100000, 25/1000000, 5/100000, 1/10000, 25/100000, 5/10000, 1/1000, 5/1000, 25/1000, 1/10, 1]"

definition DefaultPropagationBuckets :: "rat list" where
  "DefaultPropagationBuckets = [1/100, 5/100, 1/10, 25/100, 1/2, 1, 2, 3, 5, 10, 30]"

definition DefaultMaxSeries :: int where "DefaultMaxSeries = 5000"

datatype var = FloatVar rat | HistVar histogram

text \<open>What the published map holds under a name: one of the two counters of the guard, or a series.\<close>

datatype root_entry = PubDropped | PubOverflow | PubSeries string

record ExpvarMetrics =
  em_root :: "(string, root_entry) gomap"
  em_series :: "(string, var) gomap"
  em_maxSeries :: int
  em_buckets :: "(string, rat list) gomap"
  em_dropped :: int64
  em_overflow :: int64

definition SetBuckets :: "string \<Rightarrow> rat list \<Rightarrow> ExpvarMetrics \<Rightarrow> ExpvarMetrics" where
  "SetBuckets name bounds m = m\<lparr>em_buckets := gm_set name (sort bounds) (em_buckets m)\<rparr>"

definition SetMaxSeries :: "int \<Rightarrow> ExpvarMetrics \<Rightarrow> ExpvarMetrics" where
  "SetMaxSeries n m = m\<lparr>em_maxSeries := n\<rparr>"

text \<open>A registry on a freshly published map.\<close>

definition NewExpvarMetrics :: ExpvarMetrics where
  "NewExpvarMetrics =
     SetBuckets MetricPropagationLag DefaultPropagationBuckets
      (SetBuckets MetricConfigApplySeconds DefaultLatencyBuckets
       (SetBuckets MetricHTTPSeconds DefaultLatencyBuckets
        (SetBuckets MetricEvaluationSeconds DefaultLatencyBuckets
         \<lparr>em_root = gm_set MetricSeriesOverflow PubOverflow (gm_set MetricLabelsDropped PubDropped []),
          em_series = [], em_maxSeries = DefaultMaxSeries, em_buckets = [], em_dropped = 0, em_overflow = 0\<rparr>)))"

definition DroppedLabels :: "ExpvarMetrics \<Rightarrow> int64" where "DroppedLabels = em_dropped"
definition OverflowedSeries :: "ExpvarMetrics \<Rightarrow> int64" where "OverflowedSeries = em_overflow"

definition em_key :: "(nat \<Rightarrow> bool) \<Rightarrow> string \<Rightarrow> Label list \<Rightarrow> ExpvarMetrics \<Rightarrow> string \<times> ExpvarMetrics" where
  "em_key tbl name labels m =
     (let (kept, dropped) = SanitizeLabels labels
      in (seriesKey tbl name kept,
          if dropped \<noteq> [] then m\<lparr>em_dropped := em_dropped m + of_nat (length dropped)\<rparr> else m))"

definition em_install :: "string \<Rightarrow> var \<Rightarrow> ExpvarMetrics \<Rightarrow> ExpvarMetrics" where
  "em_install k v m = m\<lparr>em_series := gm_set k v (em_series m), em_root := gm_set k (PubSeries k) (em_root m)\<rparr>"

definition overflow_key :: "string \<Rightarrow> string" where
  "overflow_key name = name @ ''{__overflow__}''"

definition em_get :: "(nat \<Rightarrow> bool) \<Rightarrow> string \<Rightarrow> Label list \<Rightarrow> (ExpvarMetrics \<Rightarrow> var) \<Rightarrow> ExpvarMetrics \<Rightarrow> string \<times> ExpvarMetrics" where
  "em_get tbl name labels mk m0 =
     (let (k, m) = em_key tbl name labels m0 in
      if gm_has (em_series m) k then (k, m)
      else if em_maxSeries m \<le> int (length (em_series m))
      then let m = m\<lparr>em_overflow := em_overflow m + 1\<rparr>; k = overflow_key name in
           if gm_has (em_series m) k then (k, m) else (k, em_install k (mk m) m)
      else (k, em_install k (mk m) m))"

text \<open>A counter and a gauge are a float variable; the type assertion panics on a histogram.\<close>

definition em_Float :: "(nat \<Rightarrow> bool) \<Rightarrow> string \<Rightarrow> Label list \<Rightarrow> ExpvarMetrics \<Rightarrow> (string \<times> ExpvarMetrics) option" where
  "em_Float tbl name labels m0 =
     (let (k, m) = em_get tbl name labels (\<lambda>_. FloatVar 0) m0 in
      case gm_get (em_series m) k of Some (FloatVar _) \<Rightarrow> Some (k, m) | _ \<Rightarrow> None)"

abbreviation em_Counter :: "(nat \<Rightarrow> bool) \<Rightarrow> string \<Rightarrow> Label list \<Rightarrow> ExpvarMetrics \<Rightarrow> (string \<times> ExpvarMetrics) option" where
  "em_Counter \<equiv> em_Float"

abbreviation em_Gauge :: "(nat \<Rightarrow> bool) \<Rightarrow> string \<Rightarrow> Label list \<Rightarrow> ExpvarMetrics \<Rightarrow> (string \<times> ExpvarMetrics) option" where
  "em_Gauge \<equiv> em_Float"

definition new_buckets :: "string \<Rightarrow> ExpvarMetrics \<Rightarrow> rat list" where
  "new_buckets name m =
     (case gm_get (em_buckets m) name of
        None \<Rightarrow> DefaultLatencyBuckets
      | Some b \<Rightarrow> if b = [] then DefaultLatencyBuckets else b)"

text \<open>The histogram of a name whose series is a float is one that records nothing.\<close>

definition em_Histogram :: "(nat \<Rightarrow> bool) \<Rightarrow> string \<Rightarrow> Label list \<Rightarrow> ExpvarMetrics \<Rightarrow> string option \<times> ExpvarMetrics" where
  "em_Histogram tbl name labels m0 =
     (let (k, m) = em_get tbl name labels (\<lambda>m. HistVar (newHistogram (new_buckets name m))) m0 in
      case gm_get (em_series m) k of Some (HistVar _) \<Rightarrow> (Some k, m) | _ \<Rightarrow> (None, m))"

text \<open>The methods of a variable.\<close>

definition float_upd :: "(rat \<Rightarrow> rat) \<Rightarrow> string \<Rightarrow> ExpvarMetrics \<Rightarrow> ExpvarMetrics" where
  "float_upd f k m =
     (case gm_get (em_series m) k of
        Some (FloatVar x) \<Rightarrow> m\<lparr>em_series := gm_set k (FloatVar (f x)) (em_series m)\<rparr>
      | _ \<Rightarrow> m)"

definition float_Add :: "rat \<Rightarrow> string \<Rightarrow> ExpvarMetrics \<Rightarrow> ExpvarMetrics" where
  "float_Add d = float_upd (\<lambda>x. x + d)"

definition float_Inc :: "string \<Rightarrow> ExpvarMetrics \<Rightarrow> ExpvarMetrics" where
  "float_Inc = float_Add 1"

definition float_Set :: "rat \<Rightarrow> string \<Rightarrow> ExpvarMetrics \<Rightarrow> ExpvarMetrics" where
  "float_Set v = float_upd (\<lambda>_. v)"

definition hist_Observe :: "rat \<Rightarrow> string \<Rightarrow> ExpvarMetrics \<Rightarrow> ExpvarMetrics" where
  "hist_Observe v k m =
     (case gm_get (em_series m) k of
        Some (HistVar h) \<Rightarrow> m\<lparr>em_series := gm_set k (HistVar (Observe v h)) (em_series m)\<rparr>
      | _ \<Rightarrow> m)"

section \<open>The metrics interface\<close>

text \<open>What the recorder calls: a metric is looked up and used at once.\<close>

record 'm Metrics =
  mt_Inc :: "string \<Rightarrow> Label list \<Rightarrow> 'm \<Rightarrow> 'm option"
  mt_Set :: "string \<Rightarrow> Label list \<Rightarrow> rat \<Rightarrow> 'm \<Rightarrow> 'm option"
  mt_Observe :: "string \<Rightarrow> Label list \<Rightarrow> rat \<Rightarrow> 'm \<Rightarrow> 'm option"

definition nopMetrics :: "'m Metrics" where
  "nopMetrics = \<lparr>mt_Inc = (\<lambda>_ _ m. Some m), mt_Set = (\<lambda>_ _ _ m. Some m), mt_Observe = (\<lambda>_ _ _ m. Some m)\<rparr>"

definition expvarMetrics :: "(nat \<Rightarrow> bool) \<Rightarrow> ExpvarMetrics Metrics" where
  "expvarMetrics tbl =
     \<lparr>mt_Inc = (\<lambda>n ls m. map_option (\<lambda>(k, m). float_Inc k m) (em_Counter tbl n ls m)),
      mt_Set = (\<lambda>n ls v m. map_option (\<lambda>(k, m). float_Set v k m) (em_Gauge tbl n ls m)),
      mt_Observe = (\<lambda>n ls v m.
        case em_Histogram tbl n ls m of (Some k, m) \<Rightarrow> Some (hist_Observe v k m) | (None, m) \<Rightarrow> Some m)\<rparr>"

section \<open>The recorder\<close>

text \<open>\<^verbatim>\<open>Duration.Seconds\<close>.\<close>

definition Seconds :: "int \<Rightarrow> rat" where
  "Seconds d = of_int d / 1000000000"

fun in_turn :: "('m \<Rightarrow> 'm option) list \<Rightarrow> 'm \<Rightarrow> 'm option" where
  "in_turn [] m = Some m"
| "in_turn (f # fs) m = (case f m of None \<Rightarrow> None | Some m' \<Rightarrow> in_turn fs m')"

definition Recorder_Evaluation :: "'m Metrics \<Rightarrow> string \<Rightarrow> string \<Rightarrow> string \<Rightarrow> bool \<Rightarrow> int \<Rightarrow> 'm \<Rightarrow> 'm option" where
  "Recorder_Evaluation r flag env reason fallback d =
     in_turn
      ([mt_Inc r MetricEvaluationsTotal [L_label ''flag'' flag, L_label ''env'' env, L_label ''reason'' reason],
        mt_Observe r MetricEvaluationSeconds [] (Seconds d)] @
       (if fallback
        then [mt_Inc r MetricFallbackTotal [L_label ''flag'' flag, L_label ''env'' env, L_label ''reason'' reason]]
        else []))"

definition Recorder_BatchLatency :: "'m Metrics \<Rightarrow> int \<Rightarrow> 'm \<Rightarrow> 'm option" where
  "Recorder_BatchLatency r d = in_turn [mt_Observe r MetricEvaluationSeconds [] (Seconds d)]"

definition Recorder_ConfigApply :: "'m Metrics \<Rightarrow> string \<Rightarrow> int \<Rightarrow> 'm \<Rightarrow> 'm option" where
  "Recorder_ConfigApply r result d =
     in_turn
      [mt_Inc r MetricConfigApplyTotal [L_label ''result'' result],
       mt_Observe r MetricConfigApplySeconds [L_label ''stage'' ''publish''] (Seconds d)]"

definition Recorder_PropagationLag :: "'m Metrics \<Rightarrow> rat \<Rightarrow> 'm \<Rightarrow> 'm option" where
  "Recorder_PropagationLag r s =
     in_turn [mt_Observe r MetricPropagationLag [] s, mt_Set r (MetricPropagationLag @ ''_last'') [] s]"

definition Recorder_SnapshotGeneration :: "'m Metrics \<Rightarrow> string \<Rightarrow> int64 \<Rightarrow> 'm \<Rightarrow> 'm option" where
  "Recorder_SnapshotGeneration r env g =
     in_turn [mt_Set r MetricSnapshotGeneration [L_label ''env'' env] (of_int (sint g))]"

definition Recorder_SnapshotFlags :: "'m Metrics \<Rightarrow> string \<Rightarrow> nat \<Rightarrow> 'm \<Rightarrow> 'm option" where
  "Recorder_SnapshotFlags r env n = in_turn [mt_Set r MetricSnapshotFlags [L_label ''env'' env] (of_nat n)]"

definition Recorder_HTTPRequest :: "'m Metrics \<Rightarrow> string \<Rightarrow> string \<Rightarrow> nat \<Rightarrow> int \<Rightarrow> 'm \<Rightarrow> 'm option" where
  "Recorder_HTTPRequest r route meth status d =
     in_turn
      [mt_Inc r MetricHTTPRequestsTotal
         [L_label ''route'' route, L_label ''method'' meth, L_label ''code'' (format_nat status)],
       mt_Observe r MetricHTTPSeconds [L_label ''route'' route] (Seconds d)]"

definition Recorder_Panic :: "'m Metrics \<Rightarrow> string \<Rightarrow> 'm \<Rightarrow> 'm option" where
  "Recorder_Panic r site = in_turn [mt_Inc r MetricPanicsTotal [L_label ''site'' site]]"

datatype call =
    CEvaluation string string string bool int
  | CBatchLatency int
  | CConfigApply string int
  | CPropagationLag rat
  | CSnapshotGeneration string int64
  | CSnapshotFlags string nat
  | CHTTPRequest string string nat int
  | CPanic string

fun record_call :: "'m Metrics \<Rightarrow> call \<Rightarrow> 'm \<Rightarrow> 'm option" where
  "record_call r (CEvaluation flag env reason fb d) = Recorder_Evaluation r flag env reason fb d"
| "record_call r (CBatchLatency d) = Recorder_BatchLatency r d"
| "record_call r (CConfigApply result d) = Recorder_ConfigApply r result d"
| "record_call r (CPropagationLag s) = Recorder_PropagationLag r s"
| "record_call r (CSnapshotGeneration env g) = Recorder_SnapshotGeneration r env g"
| "record_call r (CSnapshotFlags env n) = Recorder_SnapshotFlags r env n"
| "record_call r (CHTTPRequest route meth status d) = Recorder_HTTPRequest r route meth status d"
| "record_call r (CPanic site) = Recorder_Panic r site"

definition record_calls :: "'m Metrics \<Rightarrow> call list \<Rightarrow> 'm \<Rightarrow> 'm option" where
  "record_calls r cs = in_turn (map (record_call r) cs)"

text \<open>The records a handler sends, given the time each took.\<close>

fun event_call :: "event \<Rightarrow> int \<Rightarrow> call option" where
  "event_call (MEvaluation flag env reason fb) d = Some (CEvaluation flag env reason fb d)"
| "event_call MBatchLatency d = Some (CBatchLatency d)"
| "event_call (MConfigApply result) d = Some (CConfigApply result d)"
| "event_call (MSnapshotGeneration env g) d = Some (CSnapshotGeneration env g)"
| "event_call (MSnapshotFlags env n) d = Some (CSnapshotFlags env n)"
| "event_call (MHTTPRequest route meth status) d = Some (CHTTPRequest route meth status d)"
| "event_call (MPanic site) d = Some (CPanic site)"
| "event_call _ d = None"

section \<open>What any metrics backend owes the recorder\<close>

definition counter_names :: "string list" where
  "counter_names = [MetricEvaluationsTotal, MetricFallbackTotal, MetricConfigApplyTotal, MetricHTTPRequestsTotal, MetricPanicsTotal]"

definition gauge_names :: "string list" where
  "gauge_names = [MetricPropagationLag @ ''_last'', MetricSnapshotGeneration, MetricSnapshotFlags]"

definition histogram_names :: "string list" where
  "histogram_names = [MetricEvaluationSeconds, MetricConfigApplySeconds, MetricPropagationLag, MetricHTTPSeconds]"

definition recorder_names :: "string list" where
  "recorder_names = counter_names @ gauge_names @ histogram_names"

fun call_counters :: "call \<Rightarrow> string list" where
  "call_counters (CEvaluation flag env reason fb d) = MetricEvaluationsTotal # (if fb then [MetricFallbackTotal] else [])"
| "call_counters (CConfigApply result d) = [MetricConfigApplyTotal]"
| "call_counters (CHTTPRequest route meth status d) = [MetricHTTPRequestsTotal]"
| "call_counters (CPanic site) = [MetricPanicsTotal]"
| "call_counters _ = []"

lemma in_turn_append: "in_turn (fs @ gs) m = (case in_turn fs m of None \<Rightarrow> None | Some m' \<Rightarrow> in_turn gs m')"
  by (induction fs arbitrary: m) (auto split: option.split)

text \<open>
  A backend whose operations preserve an invariant and change a tally of the counters as their names say, and never
  panic: then neither does the recorder.
\<close>

locale metrics_backend =
  fixes r :: "'m Metrics" and ok :: "'m \<Rightarrow> bool" and tally :: "string \<Rightarrow> 'm \<Rightarrow> rat"
    and step :: rat
  assumes inc: "n \<in> set counter_names \<Longrightarrow> ok m \<Longrightarrow>
      \<exists>m'. mt_Inc r n ls m = Some m' \<and> ok m' \<and>
        (\<forall>k \<in> set counter_names. tally k m' = tally k m + (if k = n then step else 0))"
    and set: "n \<in> set gauge_names \<Longrightarrow> ok m \<Longrightarrow>
      \<exists>m'. mt_Set r n ls v m = Some m' \<and> ok m' \<and> (\<forall>k \<in> set counter_names. tally k m' = tally k m)"
    and observe: "n \<in> set histogram_names \<Longrightarrow> ok m \<Longrightarrow>
      \<exists>m'. mt_Observe r n ls v m = Some m' \<and> ok m' \<and> (\<forall>k \<in> set counter_names. tally k m' = tally k m)"
begin

definition does :: "('m \<Rightarrow> 'm option) \<Rightarrow> string list \<Rightarrow> bool" where
  "does f ns \<longleftrightarrow> (\<forall>m. ok m \<longrightarrow> (\<exists>m'. f m = Some m' \<and> ok m' \<and>
     (\<forall>k \<in> set counter_names. tally k m' = tally k m + step * of_nat (count_list ns k))))"

lemma does_inc: "n \<in> set counter_names \<Longrightarrow> does (mt_Inc r n ls) [n]"
  using inc by (fastforce simp: does_def)

lemma does_set: "n \<in> set gauge_names \<Longrightarrow> does (mt_Set r n ls v) []"
  using set by (fastforce simp: does_def)

lemma does_observe: "n \<in> set histogram_names \<Longrightarrow> does (mt_Observe r n ls v) []"
  using observe by (fastforce simp: does_def)

lemma does_nothing: "does (in_turn []) []"
  by (simp add: does_def)

lemma does_then:
  assumes "does f ns" "does (in_turn fs) ms"
  shows "does (in_turn (f # fs)) (ns @ ms)"
  unfolding does_def
proof (intro allI impI)
  fix m assume "ok m"
  then obtain m1 where m1: "f m = Some m1" "ok m1"
      "\<forall>k \<in> set counter_names. tally k m1 = tally k m + step * of_nat (count_list ns k)"
    using assms(1) unfolding does_def by blast
  then obtain m2 where "in_turn fs m1 = Some m2" "ok m2"
      "\<forall>k \<in> set counter_names. tally k m2 = tally k m1 + step * of_nat (count_list ms k)"
    using assms(2) unfolding does_def by blast
  with m1 show "\<exists>m'. in_turn (f # fs) m = Some m' \<and> ok m' \<and>
      (\<forall>k \<in> set counter_names. tally k m' = tally k m + step * of_nat (count_list (ns @ ms) k))"
    by (auto simp: algebra_simps)
qed

lemma does_call: "does (record_call r c) (call_counters c)"
proof -
  have names: "set counter_names = {MetricEvaluationsTotal, MetricFallbackTotal, MetricConfigApplyTotal, MetricHTTPRequestsTotal, MetricPanicsTotal}"
      "set gauge_names = {MetricPropagationLag @ ''_last'', MetricSnapshotGeneration, MetricSnapshotFlags}"
      "set histogram_names = {MetricEvaluationSeconds, MetricConfigApplySeconds, MetricPropagationLag, MetricHTTPSeconds}"
    by (auto simp: counter_names_def gauge_names_def histogram_names_def)
  have one: "n \<in> set counter_names \<Longrightarrow> does (in_turn fs) ms \<Longrightarrow> does (in_turn (mt_Inc r n ls # fs)) (n # ms)" for n ls fs ms
    using does_then [OF does_inc] by fastforce
  have set0: "n \<in> set gauge_names \<Longrightarrow> does (in_turn fs) ms \<Longrightarrow> does (in_turn (mt_Set r n ls v # fs)) ms" for n ls v fs ms
    using does_then [OF does_set] by fastforce
  have obs0: "n \<in> set histogram_names \<Longrightarrow> does (in_turn fs) ms \<Longrightarrow> does (in_turn (mt_Observe r n ls v # fs)) ms" for n ls v fs ms
    using does_then [OF does_observe] by fastforce
  note steps = one set0 obs0 does_nothing
  show ?thesis
    by (cases c)
      (simp_all only: record_call.simps call_counters.simps Recorder_Evaluation_def Recorder_BatchLatency_def Recorder_ConfigApply_def
         Recorder_PropagationLag_def Recorder_SnapshotGeneration_def Recorder_SnapshotFlags_def
         Recorder_HTTPRequest_def Recorder_Panic_def append_Cons append_Nil if_True if_False split: if_split,
       (intro impI conjI steps; simp add: names)+)
qed

lemma does_calls: "does (record_calls r cs) (concat (map call_counters cs))"
  unfolding record_calls_def
  by (induction cs) (simp_all only: list.map concat.simps does_nothing does_then [OF does_call])

end

interpretation nop: metrics_backend nopMetrics "\<lambda>_. True" "\<lambda>_ _. 0" 0
  by unfold_locales (simp_all add: nopMetrics_def)

section \<open>The registry owes it that much\<close>

definition series_of :: "string \<Rightarrow> string \<Rightarrow> bool" where
  "series_of n k \<longleftrightarrow> k = n \<or> prefix (n @ ''{'') k"

definition var_value :: "var \<Rightarrow> rat" where
  "var_value v = (case v of FloatVar x \<Rightarrow> x | HistVar h \<Rightarrow> 0)"

text \<open>The sum of a metric over all its series.\<close>

definition metric_total :: "string \<Rightarrow> ExpvarMetrics \<Rightarrow> rat" where
  "metric_total n m = sum_list (map (\<lambda>(k, v). if series_of n k then var_value v else 0) (em_series m))"

definition overflow_keys :: "string list" where
  "overflow_keys = map overflow_key recorder_names"

definition clean_key :: "(nat \<Rightarrow> bool) \<Rightarrow> string \<Rightarrow> bool" where
  "clean_key tbl k \<longleftrightarrow> (\<exists>n \<in> set recorder_names. \<exists>ls. (\<forall>l \<in> set ls. clean_label l) \<and> k = seriesKey tbl n ls)"

definition regular_count :: "ExpvarMetrics \<Rightarrow> nat" where
  "regular_count m = length (filter (\<lambda>k. k \<notin> set overflow_keys) (gm_keys (em_series m)))"

definition float_names :: "string list" where
  "float_names = counter_names @ gauge_names"

definition reg_ok :: "(nat \<Rightarrow> bool) \<Rightarrow> int \<Rightarrow> ExpvarMetrics \<Rightarrow> bool" where
  "reg_ok tbl N m \<longleftrightarrow>
     gm_ok (em_series m) \<and> em_maxSeries m = N \<and> int (regular_count m) \<le> max 0 N \<and>
     (\<forall>k v. gm_get (em_series m) k = Some v \<longrightarrow>
        (k \<in> set overflow_keys \<or> clean_key tbl k) \<and>
        (\<forall>n \<in> set float_names. series_of n k \<longrightarrow> (\<exists>x. v = FloatVar x)))"

lemma recorder_names_plain: "list_all plain_name recorder_names" "distinct recorder_names" "length recorder_names = 12"
  by (simp_all add: recorder_names_def counter_names_def gauge_names_def histogram_names_def metric_names plain_name_def)

lemma series_of_unique:
  assumes "plain_name n" "plain_name n'" "series_of n k" "series_of n' k"
  shows "n = n'"
proof -
  have plain: "CHR ''{'' \<notin> set n" "CHR ''{'' \<notin> set n'" using assms by (simp_all add: plain_name_def)
  from assms(3,4) consider "k = n" "k = n'" | "k = n" "prefix (n' @ ''{'') k" | "k = n'" "prefix (n @ ''{'') k"
    | "prefix (n @ ''{'') k" "prefix (n' @ ''{'') k" by (auto simp: series_of_def)
  then show ?thesis
  proof cases
    case 4
    obtain x where x: "k = n @ CHR ''{'' # x" using 4(1) by (auto simp: prefix_def)
    obtain y where y: "k = n' @ CHR ''{'' # y" using 4(2) by (auto simp: prefix_def)
    show ?thesis using cut_eq [OF plain, of x y] x y by simp
  qed (use plain in \<open>auto simp: prefix_def\<close>)
qed

lemma names_apart:
  "n \<in> set recorder_names \<Longrightarrow> n' \<in> set recorder_names \<Longrightarrow> series_of n k \<Longrightarrow> series_of n' k \<Longrightarrow> n = n'"
  using series_of_unique recorder_names_plain(1) by (auto simp: list_all_iff)

lemma series_of_keys: "series_of n (seriesKey tbl n ls)" "series_of n (overflow_key n)"
  by (simp_all add: series_of_def seriesKey_def overflow_key_def)

lemma total_install:
  assumes "\<not> gm_has (em_series m) k" "var_value v = 0"
  shows "metric_total n (em_install k v m) = metric_total n m"
proof -
  obtain xs ys where "em_series m = xs @ ys" "gm_set k v (em_series m) = xs @ (k, v) # ys"
    using gm_set_new [OF assms(1)] by blast
  then show ?thesis using assms(2) by (simp add: metric_total_def em_install_def)
qed

lemma regular_install:
  assumes "\<not> gm_has (em_series m) k"
  shows "regular_count (em_install k v m) = regular_count m + (if k \<in> set overflow_keys then 0 else 1)"
proof -
  obtain xs ys where "em_series m = xs @ ys" "gm_set k v (em_series m) = xs @ (k, v) # ys"
    using gm_set_new [OF assms] by blast
  then show ?thesis by (simp add: regular_count_def em_install_def gm_keys_def)
qed

lemma regular_le: "regular_count m \<le> length (em_series m)"
  by (metis gm_keys_def length_filter_le length_map regular_count_def)

lemma reg_ok_install:
  assumes "reg_ok tbl N m" "\<not> gm_has (em_series m) k" "n \<in> set recorder_names" "series_of n k"
    and "k \<in> set overflow_keys \<or> clean_key tbl k \<and> int (length (em_series m)) < N"
    and "n \<in> set float_names \<Longrightarrow> \<exists>x. v = FloatVar x"
  shows "reg_ok tbl N (em_install k v m)"
proof -
  have "int (regular_count (em_install k v m)) \<le> max 0 N"
    using assms(1,2,5) regular_le [of m] by (auto simp: reg_ok_def regular_install)
  moreover have "\<exists>x. v = FloatVar x" if "n' \<in> set float_names" "series_of n' k" for n'
  proof -
    have "n' \<in> set recorder_names" using that(1) by (auto simp: recorder_names_def float_names_def)
    then have "n' = n" using names_apart assms(3,4) that(2) by blast
    then show ?thesis using assms(6) that(1) by simp
  qed
  ultimately show ?thesis
    using assms(1,5) by (auto simp: reg_ok_def em_install_def gm_ok_set split: if_splits)
qed

text \<open>Of the invariant only the series and the cap matter, not the counters of the guard.\<close>

lemma guard_counters:
  assumes "em_series m' = em_series m" "em_maxSeries m' = em_maxSeries m"
  shows "reg_ok tbl N m' = reg_ok tbl N m" "metric_total n m' = metric_total n m"
  using assms by (simp_all add: reg_ok_def regular_count_def metric_total_def)

lemma em_key_same:
  assumes "em_key tbl n ls m = (k, m')"
  shows "em_series m' = em_series m" "em_maxSeries m' = em_maxSeries m"
    "k = seriesKey tbl n (fst (SanitizeLabels ls))"
  using assms by (auto simp: em_key_def split: prod.splits)

lemma get_ok:
  assumes "reg_ok tbl N m" "n \<in> set recorder_names" "em_get tbl n ls mk m = (k, m')"
    and "\<And>x. var_value (mk x) = 0" "n \<in> set float_names \<Longrightarrow> \<forall>x. \<exists>y. mk x = FloatVar y"
  shows "reg_ok tbl N m' \<and> series_of n k \<and> gm_has (em_series m') k \<and> (\<forall>n'. metric_total n' m' = metric_total n' m)"
proof -
  obtain k1 m1 where k1: "em_key tbl n ls m = (k1, m1)" by (rule prod.exhaust)
  note same = em_key_same [OF k1]
  have m1: "reg_ok tbl N m1" "\<And>n'. metric_total n' m1 = metric_total n' m"
    using guard_counters [OF same(1,2)] assms(1) by simp_all
  have clean: "clean_key tbl k1" using same(3) kept_clean assms(2) by (auto simp: clean_key_def)
  have N: "em_maxSeries m1 = N" using m1(1) by (simp add: reg_ok_def)
  define m2 where "m2 = m1\<lparr>em_overflow := em_overflow m1 + 1\<rparr>"
  have m2: "em_series m2 = em_series m1" "em_maxSeries m2 = em_maxSeries m1" by (simp_all add: m2_def)
  have m2': "reg_ok tbl N m2" "\<And>n'. metric_total n' m2 = metric_total n' m"
    using guard_counters [OF m2] m1 by simp_all
  have over: "overflow_key n \<in> set overflow_keys" using assms(2) by (simp add: overflow_keys_def)
  have install: "reg_ok tbl N (em_install k' (mk x) y)" "gm_has (em_series (em_install k' (mk x) y)) k'"
      "\<And>n'. metric_total n' (em_install k' (mk x) y) = metric_total n' y"
    if "reg_ok tbl N y" "\<not> gm_has (em_series y) k'" "series_of n k'"
      "k' \<in> set overflow_keys \<or> clean_key tbl k' \<and> int (length (em_series y)) < N" for x y k'
    using reg_ok_install [OF that(1,2) assms(2) that(3,4)] assms(4,5) total_install [OF that(2)]
    by (auto simp: em_install_def)
  consider (known) "gm_has (em_series m1) k1" "k = k1" "m' = m1"
    | (over_known) "gm_has (em_series m2) (overflow_key n)" "k = overflow_key n" "m' = m2"
    | (over_new) "\<not> gm_has (em_series m2) (overflow_key n)" "k = overflow_key n"
        "m' = em_install (overflow_key n) (mk m2) m2"
    | (new) "\<not> gm_has (em_series m1) k1" "int (length (em_series m1)) < N" "k = k1" "m' = em_install k1 (mk m1) m1"
  proof -
    have g: "em_get tbl n ls mk m =
        (if gm_has (em_series m1) k1 then (k1, m1)
         else if N \<le> int (length (em_series m1))
         then (if gm_has (em_series m2) (overflow_key n) then (overflow_key n, m2)
               else (overflow_key n, em_install (overflow_key n) (mk m2) m2))
         else (k1, em_install k1 (mk m1) m1))"
      by (simp only: em_get_def k1 case_prod_conv N m2_def [symmetric] Let_def)
    consider "gm_has (em_series m1) k1" | "\<not> gm_has (em_series m1) k1" "\<not> N \<le> int (length (em_series m1))"
      | "\<not> gm_has (em_series m1) k1" "N \<le> int (length (em_series m1))" "gm_has (em_series m2) (overflow_key n)"
      | "\<not> gm_has (em_series m1) k1" "N \<le> int (length (em_series m1))" "\<not> gm_has (em_series m2) (overflow_key n)"
      by blast
    then show thesis
    proof cases
      case 1
      then show thesis using assms(3) by (intro known) (simp_all only: g if_True prod.inject)
    next
      case 2
      then have "k1 = k \<and> em_install k1 (mk m1) m1 = m'" using assms(3) 2 unfolding g by (metis prod.inject)
      then show thesis using 2 new by (metis not_le)
    next
      case 3
      then show thesis using assms(3) by (intro over_known) (simp_all only: g if_False if_True prod.inject)
    next
      case 4
      then have "overflow_key n = k \<and> em_install (overflow_key n) (mk m2) m2 = m'"
        using assms(3) unfolding g by (metis prod.inject)
      then show thesis using 4 over_new by metis
    qed
  qed
  then show ?thesis
  proof cases
    case known
    then show ?thesis using m1 same(3) series_of_keys by simp
  next
    case over_known
    then show ?thesis using m2' series_of_keys by simp
  next
    case over_new
    then show ?thesis using install [OF m2'(1)] over m2'(2) series_of_keys by simp
  next
    case new
    then show ?thesis using install [OF m1(1)] clean m1(2) same(3) series_of_keys by simp
  qed
qed

lemma total_old:
  assumes "gm_ok (em_series m)" "gm_get (em_series m) k = Some w"
  shows "metric_total n (m\<lparr>em_series := gm_set k v (em_series m)\<rparr>) =
     metric_total n m + (if series_of n k then var_value v - var_value w else 0)"
proof -
  obtain xs ys where "em_series m = xs @ (k, w) # ys" "gm_set k v (em_series m) = xs @ (k, v) # ys"
    using gm_set_old [OF assms] by blast
  then show ?thesis by (simp add: metric_total_def)
qed

lemma reg_ok_old:
  assumes "reg_ok tbl N m" "gm_get (em_series m) k = Some w" "(\<exists>x. w = FloatVar x) \<Longrightarrow> \<exists>x. v = FloatVar x"
  shows "reg_ok tbl N (m\<lparr>em_series := gm_set k v (em_series m)\<rparr>)"
proof -
  have ok: "gm_ok (em_series m)" using assms(1) by (simp add: reg_ok_def)
  obtain xs ys where "em_series m = xs @ (k, w) # ys" "gm_set k v (em_series m) = xs @ (k, v) # ys"
    using gm_set_old [OF ok assms(2)] by blast
  then have "regular_count (m\<lparr>em_series := gm_set k v (em_series m)\<rparr>) = regular_count m"
    by (simp add: regular_count_def gm_keys_def)
  then show ?thesis using assms by (auto simp: reg_ok_def gm_ok_set)
qed

lemma float_ok:
  assumes "reg_ok tbl N m" "n \<in> set float_names"
  shows "\<exists>k m1 x. em_Float tbl n ls m = Some (k, m1) \<and> reg_ok tbl N (float_upd f k m1) \<and>
    (\<forall>n' \<in> set recorder_names. metric_total n' (float_upd f k m1) = metric_total n' m + (if n' = n then f x - x else 0))"
proof -
  have n: "n \<in> set recorder_names" using assms(2) by (auto simp: recorder_names_def float_names_def)
  obtain k m1 where g: "em_get tbl n ls (\<lambda>_. FloatVar 0) m = (k, m1)" by (rule prod.exhaust)
  have m1: "reg_ok tbl N m1" "series_of n k" "gm_has (em_series m1) k" "\<And>n'. metric_total n' m1 = metric_total n' m"
    using get_ok [OF assms(1) n g] by (auto simp: var_value_def)
  then obtain x where x: "gm_get (em_series m1) k = Some (FloatVar x)"
    using assms(2) by (fastforce simp: reg_ok_def gm_has_def)
  have "em_Float tbl n ls m = Some (k, m1)" by (simp add: em_Float_def g x)
  moreover have "reg_ok tbl N (float_upd f k m1)"
    using reg_ok_old [OF m1(1) x] by (simp add: float_upd_def x)
  moreover have "metric_total n' (float_upd f k m1) = metric_total n' m + (if n' = n then f x - x else 0)"
    if "n' \<in> set recorder_names" for n'
  proof -
    have "series_of n' k \<longleftrightarrow> n' = n" using names_apart [OF that n] m1(2) by auto
    then show ?thesis
      using total_old [OF _ x] m1(1,4) by (simp add: float_upd_def x var_value_def reg_ok_def)
  qed
  ultimately show ?thesis by blast
qed

lemma hist_ok:
  assumes "reg_ok tbl N m" "n \<in> set recorder_names" "n \<notin> set float_names"
  shows "\<exists>m'. mt_Observe (expvarMetrics tbl) n ls v m = Some m' \<and> reg_ok tbl N m' \<and>
    (\<forall>n'. metric_total n' m' = metric_total n' m)"
proof -
  obtain k m1 where g: "em_get tbl n ls (\<lambda>m. HistVar (newHistogram (new_buckets n m))) m = (k, m1)" by (rule prod.exhaust)
  have m1: "reg_ok tbl N m1" "\<And>n'. metric_total n' m1 = metric_total n' m"
    using get_ok [OF assms(1,2) g] assms(3) by (auto simp: var_value_def)
  show ?thesis
  proof (cases "\<exists>h. gm_get (em_series m1) k = Some (HistVar h)")
    case True
    then obtain h where h: "gm_get (em_series m1) k = Some (HistVar h)" by blast
    have e: "mt_Observe (expvarMetrics tbl) n ls v m = Some (m1\<lparr>em_series := gm_set k (HistVar (Observe v h)) (em_series m1)\<rparr>)"
      by (simp add: expvarMetrics_def em_Histogram_def g h hist_Observe_def)
    show ?thesis
      unfolding e using reg_ok_old [OF m1(1) h] total_old [OF _ h] m1 by (simp add: var_value_def reg_ok_def)
  next
    case False
    then have "mt_Observe (expvarMetrics tbl) n ls v m = Some m1"
      by (auto simp: expvarMetrics_def em_Histogram_def g split: option.split var.split)
    then show ?thesis using m1 by simp
  qed
qed

interpretation expvar: metrics_backend "expvarMetrics tbl" "reg_ok tbl N" metric_total 1
proof
  fix n ls m assume n: "n \<in> set counter_names" and ok: "reg_ok tbl N m"
  then have "n \<in> set float_names" "set counter_names \<subseteq> set recorder_names"
    by (auto simp: float_names_def recorder_names_def)
  then show "\<exists>m'. mt_Inc (expvarMetrics tbl) n ls m = Some m' \<and> reg_ok tbl N m' \<and>
      (\<forall>k \<in> set counter_names. metric_total k m' = metric_total k m + (if k = n then 1 else 0))"
    using float_ok [OF ok, of n ls "\<lambda>x. x + 1"]
    by (auto simp: expvarMetrics_def float_Inc_def float_Add_def subset_iff)
next
  fix n ls v m assume n: "n \<in> set gauge_names" and ok: "reg_ok tbl N m"
  then have f: "n \<in> set float_names" "set counter_names \<subseteq> set recorder_names"
    by (auto simp: float_names_def recorder_names_def)
  have "n \<notin> set counter_names"
    using n recorder_names_plain(2) by (auto simp: recorder_names_def)
  then show "\<exists>m'. mt_Set (expvarMetrics tbl) n ls v m = Some m' \<and> reg_ok tbl N m' \<and>
      (\<forall>k \<in> set counter_names. metric_total k m' = metric_total k m)"
    using float_ok [OF ok f(1), of ls "\<lambda>_. v"] f(2)
    by (auto simp: expvarMetrics_def float_Set_def subset_iff)
next
  fix n ls v m assume n: "n \<in> set histogram_names" and ok: "reg_ok tbl N m"
  then have "n \<in> set recorder_names" "n \<notin> set float_names"
    using recorder_names_plain(2) by (auto simp: recorder_names_def float_names_def)
  then show "\<exists>m'. mt_Observe (expvarMetrics tbl) n ls v m = Some m' \<and> reg_ok tbl N m' \<and>
      (\<forall>k \<in> set counter_names. metric_total k m' = metric_total k m)"
    using hist_ok [OF ok] by blast
qed

section \<open>What the registry promises\<close>

lemma reg_ok_fresh: "reg_ok tbl N (SetMaxSeries N NewExpvarMetrics)" "metric_total n (SetMaxSeries N NewExpvarMetrics) = 0"
  by (simp_all add: reg_ok_def SetMaxSeries_def NewExpvarMetrics_def SetBuckets_def regular_count_def metric_total_def gm_keys_def)

lemma reg_ok_size:
  assumes "reg_ok tbl N m"
  shows "int (length (em_series m)) \<le> max 0 N + 12"
proof -
  let ?ks = "gm_keys (em_series m)"
  have "distinct ?ks" using assms gm_keys_sorted by (auto simp: reg_ok_def strict_sorted_iff)
  then have "length (filter (\<lambda>k. k \<in> set overflow_keys) ?ks) = card ({k \<in> set ?ks. k \<in> set overflow_keys})"
    by (metis distinct_card distinct_filter set_filter)
  also have "\<dots> \<le> card (set overflow_keys)" by (intro card_mono) auto
  also have "\<dots> \<le> 12" using card_length [of overflow_keys] recorder_names_plain(3) by (simp add: overflow_keys_def)
  finally have "length (filter (\<lambda>k. k \<in> set overflow_keys) ?ks) \<le> 12" .
  moreover have "length ?ks = regular_count m + length (filter (\<lambda>k. k \<in> set overflow_keys) ?ks)"
    using sum_length_filter_compl [of "\<lambda>k. k \<in> set overflow_keys" ?ks] by (simp add: regular_count_def)
  ultimately show ?thesis using assms by (simp add: reg_ok_def gm_keys_def)
qed

text \<open>C37. The metrics cannot take the service down. Whatever is recorded, with whatever flag keys, environments,
  routes and methods, and however often, the recorder never panics: no name is used both for a counter and for a
  histogram. The registry never holds more than its cap of series and one overflow series for each of the
  twelve names, and every other series carries only allowed labels, none of them on the list of denied ones and none of
  a value longer than 96 bytes.
\<close>

theorem registry_bounded:
  "\<exists>m. record_calls (expvarMetrics tbl) cs (SetMaxSeries N NewExpvarMetrics) = Some m \<and>
     int (length (em_series m)) \<le> max 0 N + 12 \<and>
     list_all (\<lambda>k. k \<in> set overflow_keys \<or> clean_key tbl k) (gm_keys (em_series m))"
proof -
  obtain m where m: "record_calls (expvarMetrics tbl) cs (SetMaxSeries N NewExpvarMetrics) = Some m" "reg_ok tbl N m"
    using expvar.does_calls [of tbl N cs] reg_ok_fresh(1) unfolding expvar.does_def by blast
  then show ?thesis using reg_ok_size by (auto simp: list_all_iff gm_keys_iff reg_ok_def)
qed

text \<open>No count is lost: the series of a counter, the overflow series among them, add up to the number of times it
  was recorded, however many series were refused and however many labels were dropped.
\<close>

theorem counters_add_up:
  assumes "n \<in> set counter_names"
    and "record_calls (expvarMetrics tbl) cs (SetMaxSeries N NewExpvarMetrics) = Some m"
  shows "metric_total n m = of_nat (count_list (concat (map call_counters cs)) n)"
proof -
  obtain m' where "record_calls (expvarMetrics tbl) cs (SetMaxSeries N NewExpvarMetrics) = Some m'"
      "metric_total n m' = metric_total n (SetMaxSeries N NewExpvarMetrics) + 1 * of_nat (count_list (concat (map call_counters cs)) n)"
    using expvar.does_calls [of tbl N cs] reg_ok_fresh(1) assms(1) unfolding expvar.does_def by blast
  then show ?thesis using assms(2) reg_ok_fresh(2) by simp
qed

theorem counters_add_up_witness:
  "\<exists>m. record_calls (expvarMetrics (\<lambda>_. False)) [CPanic ''evaluate'', CBatchLatency 5, CPanic ''batch''] (SetMaxSeries 1 NewExpvarMetrics) = Some m \<and>
     metric_total MetricPanicsTotal m = 2"
proof -
  let ?cs = "[CPanic ''evaluate'', CBatchLatency 5, CPanic ''batch'']"
  obtain m where m: "record_calls (expvarMetrics (\<lambda>_. False)) ?cs (SetMaxSeries 1 NewExpvarMetrics) = Some m"
    using expvar.does_calls [of "\<lambda>_. False" 1 ?cs] reg_ok_fresh(1) unfolding expvar.does_def by blast
  have "metric_total MetricPanicsTotal m = of_nat (count_list (concat (map call_counters ?cs)) MetricPanicsTotal)"
    by (rule counters_add_up [OF _ m]) (simp add: counter_names_def)
  then show ?thesis using m by simp
qed

text \<open>C39. Two records share a series only if they are records of the same metric with the same labels: whatever bytes
  the values of the labels hold, quotes, commas and braces among them, no series can be mistaken for another one, nor
  for an overflow series.
\<close>

theorem series_identified:
  assumes "n \<in> set recorder_names" "n' \<in> set recorder_names"
    and "kept = fst (SanitizeLabels ls)" "kept' = fst (SanitizeLabels ls')"
  shows "(seriesKey tbl n kept = seriesKey tbl n' kept' \<longleftrightarrow> n = n' \<and> sort_key lb_Name kept = sort_key lb_Name kept') \<and>
    seriesKey tbl n kept \<noteq> overflow_key n'"
proof
  have plain: "plain_name n" "plain_name n'" using assms(1,2) recorder_names_plain(1) by (auto simp: list_all_iff)
  have eq: "\<forall>l \<in> set kept \<union> set kept'. CHR ''='' \<notin> set (lb_Name l)"
    using assms(3,4) kept_clean allowed_plain by (fastforce simp: clean_label_def)
  have nil: "kept = [] \<longleftrightarrow> kept' = []" if "sort_key lb_Name kept = sort_key lb_Name kept'"
    using that by (metis length_0_conv length_sort)
  show "seriesKey tbl n kept = seriesKey tbl n' kept' \<longleftrightarrow> n = n' \<and> sort_key lb_Name kept = sort_key lb_Name kept'"
  proof
    assume "seriesKey tbl n kept = seriesKey tbl n' kept'"
    then show "n = n' \<and> sort_key lb_Name kept = sort_key lb_Name kept'" by (rule seriesKey_inj [OF plain eq])
  next
    assume "n = n' \<and> sort_key lb_Name kept = sort_key lb_Name kept'"
    then show "seriesKey tbl n kept = seriesKey tbl n' kept'" unfolding seriesKey_def using nil by metis
  qed
  show "seriesKey tbl n kept \<noteq> overflow_key n'"
  proof
    assume a: "seriesKey tbl n kept = overflow_key n'"
    show False
    proof (cases kept)
      case Nil
      then have "CHR ''{'' \<in> set n" using a by (simp add: seriesKey_def overflow_key_def)
      then show False using plain(1) by (simp add: plain_name_def)
    next
      case (Cons l kept1)
      then obtain l0 ls0 where s: "sort_key lb_Name kept = l0 # ls0" by (metis length_0_conv length_sort list.distinct(1) neq_Nil_conv)
      have "n @ CHR ''{'' # (series_labels tbl (sort_key lb_Name kept) @ ''}'') = n' @ CHR ''{'' # ''__overflow__}''"
        using a Cons by (simp add: seriesKey_def overflow_key_def)
      then have "series_labels tbl (l0 # ls0) @ ''}'' = ''__overflow__}''"
        using cut_eq plain s unfolding plain_name_def by metis
      then have "CHR ''='' \<in> set ''__overflow__}''" unfolding series_labels_step by (metis in_set_conv_decomp)
      then show False by simp
    qed
  qed
qed

theorem series_identified_witness:
  "seriesKey (\<lambda>_. False) MetricSnapshotFlags (fst (SanitizeLabels [L_label ''env'' ''prod''])) \<noteq> overflow_key MetricSnapshotFlags"
proof -
  have "MetricSnapshotFlags \<in> set recorder_names" by (simp add: recorder_names_def gauge_names_def)
  then show ?thesis
    using series_identified [OF _ _ refl refl, of MetricSnapshotFlags MetricSnapshotFlags "\<lambda>_. False"] by blast
qed

text \<open>
  The cap is not the bound on the whole registry its comment calls it: every metric name adds a series of its
  own past the cap.
\<close>

lemma cap_exceeded:
  "map_option (\<lambda>m. gm_keys (em_series m))
     (record_calls (expvarMetrics tbl) [CBatchLatency 5, CPropagationLag 1] (SetMaxSeries 1 NewExpvarMetrics)) =
   Some [MetricEvaluationSeconds, overflow_key (MetricPropagationLag @ ''_last''), overflow_key MetricPropagationLag]"
  by (simp add: record_calls_def Recorder_BatchLatency_def Recorder_PropagationLag_def expvarMetrics_def
      em_Histogram_def em_Float_def em_get_def em_key_def em_install_def seriesKey_def hist_Observe_def
      float_Set_def float_upd_def overflow_key_def SetMaxSeries_def NewExpvarMetrics_def SetBuckets_def
      metric_names gm_keys_def gm_has_def gm_get_def Let_def)

text \<open>
  A flag key may be 128 bytes long, a label value 96: the evaluations of all flags with longer keys are
  counted together, without a flag label.
\<close>

lemma long_flag_unlabelled:
  assumes "length key > 96"
  shows "SanitizeLabels [L_label ''flag'' key, L_label ''env'' env] =
    (fst (SanitizeLabels [L_label ''env'' env]), ''flag'' # snd (SanitizeLabels [L_label ''env'' env]))"
proof -
  have "ValidateLabel (L_label ''flag'' key) \<noteq> None"
    using assms by (auto simp: ValidateLabel_def L_label_def MaxLabelValueLen_def Let_def split: option.split)
  then show ?thesis by (auto simp: L_label_def Let_def split: prod.split)
qed

end
