(* ===== verification/Obs_Sampler.thy ===== *)
theory Obs_Sampler
  imports Complex_Main Sampling
begin

text \<open>
  The sampler of evaluation errors, \<^verbatim>\<open>Sampler\<close> in \<^verbatim>\<open>internal/obs/log.go\<close>: a token bucket for each key. Its tokens,
  a \<^verbatim>\<open>float64\<close>, are a rational number; the clock is an argument, in nanoseconds. A call holds the mutex, so it is one step.
\<close>

record bucket =
  bk_tokens :: rat
  bk_last :: int
  bk_suppressed :: int64

record Sampler =
  sp_rate :: rat
  sp_burst :: rat
  sp_buckets :: "(string, bucket) gomap"
  sp_maxKeys :: int

definition NewSampler :: "rat \<Rightarrow> rat \<Rightarrow> int \<Rightarrow> Sampler" where
  "NewSampler rate burst maxKeys =
     \<lparr>sp_rate = rate, sp_burst = burst, sp_buckets = [], sp_maxKeys = (if maxKeys \<le> 0 then 4096 else maxKeys)\<rparr>"

text \<open>The tokens of a bucket at an instant.\<close>

definition refilled :: "rat \<Rightarrow> rat \<Rightarrow> int \<Rightarrow> bucket \<Rightarrow> rat" where
  "refilled rate burst now b =
     (let t = bk_tokens b + of_int (now - bk_last b) / 1000000000 * rate in if t > burst then burst else t)"

text \<open>The bucket of a key, a full one if there is none yet.\<close>

definition bucket_of :: "string \<Rightarrow> int \<Rightarrow> Sampler \<Rightarrow> bucket" where
  "bucket_of key now s =
     (case gm_get (sp_buckets s) key of
        None \<Rightarrow> \<lparr>bk_tokens = sp_burst s, bk_last = now, bk_suppressed = 0\<rparr>
      | Some b \<Rightarrow> b)"

definition put_bucket :: "string \<Rightarrow> bucket \<Rightarrow> Sampler \<Rightarrow> Sampler" where
  "put_bucket key b s = s\<lparr>sp_buckets := gm_set key b (sp_buckets s)\<rparr>"

definition Allow :: "string \<Rightarrow> int \<Rightarrow> Sampler \<Rightarrow> (bool \<times> int64) \<times> Sampler" where
  "Allow key now s =
     (if gm_get (sp_buckets s) key = None \<and> sp_maxKeys s \<le> int (length (sp_buckets s)) then ((True, 0), s)
      else
        let b = bucket_of key now s; t = refilled (sp_rate s) (sp_burst s) now b
        in if t < 1
           then ((False, 0), put_bucket key \<lparr>bk_tokens = t, bk_last = now, bk_suppressed = bk_suppressed b + 1\<rparr> s)
           else ((True, bk_suppressed b), put_bucket key \<lparr>bk_tokens = t - 1, bk_last = now, bk_suppressed = 0\<rparr> s))"

text \<open>What the line of a call says, as the logger computes it.\<close>

definition sampled_of :: "string \<Rightarrow> int \<Rightarrow> Sampler \<Rightarrow> (int64 \<times> bool) \<times> Sampler" where
  "sampled_of key now s =
     (let ((allow, n), s') = Allow key now s in ((if allow then n + 1 else 0, allow), s'))"

section \<open>Accounting\<close>

definition held :: "(string, bucket) gomap \<Rightarrow> int64" where
  "held m = sum_list (map (\<lambda>p. bk_suppressed (snd p)) m)"

definition held_back :: "Sampler \<Rightarrow> int64" where
  "held_back s = held (sp_buckets s)"

definition sampler_ok :: "Sampler \<Rightarrow> bool" where
  "sampler_ok s \<longleftrightarrow> gm_ok (sp_buckets s)"

lemma held_set:
  assumes "gm_ok m"
  shows "held (gm_set k b m) = held m + bk_suppressed b - (case gm_get m k of None \<Rightarrow> 0 | Some b' \<Rightarrow> bk_suppressed b')"
proof (cases "gm_get m k")
  case None
  then obtain xs ys where "m = xs @ ys" and e: "gm_set k b m = xs @ (k, b) # ys"
    using gm_set_new [of m k b] by (auto simp: gm_has_def)
  show ?thesis unfolding e None by (simp add: held_def \<open>m = xs @ ys\<close>)
next
  case (Some b')
  then obtain xs ys where "m = xs @ (k, b') # ys" and e: "gm_set k b m = xs @ (k, b) # ys"
    using gm_set_old [OF assms, of k b' b] by blast
  show ?thesis unfolding e Some by (simp add: held_def \<open>m = xs @ (k, b') # ys\<close>)
qed

lemma held_back_put:
  "sampler_ok s \<Longrightarrow> held_back (put_bucket key b s) = held_back s + bk_suppressed b - bk_suppressed (bucket_of key now s)"
  by (auto simp: held_back_def put_bucket_def sampler_ok_def held_set bucket_of_def split: option.split)

lemma sampler_ok_put: "sampler_ok s \<Longrightarrow> sampler_ok (put_bucket key b s)"
  by (simp add: sampler_ok_def put_bucket_def gm_ok_set)

lemma Allow_cases:
  obtains (untracked) "Allow key now s = ((True, 0), s)" "gm_get (sp_buckets s) key = None"
      "sp_maxKeys s \<le> int (length (sp_buckets s))"
  | (suppress) t where "t = refilled (sp_rate s) (sp_burst s) now (bucket_of key now s)" "t < 1"
      "Allow key now s = ((False, 0), put_bucket key \<lparr>bk_tokens = t, bk_last = now,
         bk_suppressed = bk_suppressed (bucket_of key now s) + 1\<rparr> s)"
  | (emit) t where "t = refilled (sp_rate s) (sp_burst s) now (bucket_of key now s)" "1 \<le> t"
      "Allow key now s = ((True, bk_suppressed (bucket_of key now s)),
         put_bucket key \<lparr>bk_tokens = t - 1, bk_last = now, bk_suppressed = 0\<rparr> s)"
  by (cases "gm_get (sp_buckets s) key = None \<and> sp_maxKeys s \<le> int (length (sp_buckets s))";
      cases "refilled (sp_rate s) (sp_burst s) now (bucket_of key now s) < 1")
    (auto simp: Allow_def Let_def not_less)

interpretation sampler: log_sampler sampled_of held_back sampler_ok
proof
  fix s k t assume ok: "sampler_ok s"
  note put = held_back_put [OF ok, of k _ t] sampler_ok_put [OF ok]
  show "sampler_ok (snd (sampled_of k t s))"
    by (cases rule: Allow_cases [of k t s]) (simp_all add: sampled_of_def put ok)
  show "fst (fst (sampled_of k t s)) + held_back (snd (sampled_of k t s)) = held_back s + 1"
    by (cases rule: Allow_cases [of k t s]) (simp_all add: sampled_of_def put)
  show "\<not> snd (fst (sampled_of k t s)) \<Longrightarrow> fst (fst (sampled_of k t s)) = 0"
    by (cases rule: Allow_cases [of k t s]) (simp_all add: sampled_of_def)
qed

section \<open>The rate\<close>

text \<open>The lines of one key among a sequence of calls, and the sampler after it.\<close>

fun lines_for :: "string \<Rightarrow> (string \<times> int) list \<Rightarrow> Sampler \<Rightarrow> nat" where
  "lines_for key [] s = 0"
| "lines_for key ((k, now) # cs) s =
     (let (r, s') = Allow k now s in (if fst r \<and> k = key then 1 else 0) + lines_for key cs s')"

fun sampler_after :: "(string \<times> int) list \<Rightarrow> Sampler \<Rightarrow> Sampler" where
  "sampler_after [] s = s"
| "sampler_after ((k, now) # cs) s = sampler_after cs (snd (Allow k now s))"

text \<open>What a key may still emit at an instant.\<close>

definition available :: "string \<Rightarrow> int \<Rightarrow> Sampler \<Rightarrow> rat" where
  "available key now s = refilled (sp_rate s) (sp_burst s) now (bucket_of key now s)"

definition on_time :: "int \<Rightarrow> Sampler \<Rightarrow> bool" where
  "on_time now s \<longleftrightarrow> gm_ok (sp_buckets s) \<and> 0 \<le> sp_rate s \<and> 0 \<le> sp_burst s \<and>
     (\<forall>k b. gm_get (sp_buckets s) k = Some b \<longrightarrow> bk_last b \<le> now \<and> 0 \<le> bk_tokens b)"

text \<open>The keys seen so far, too few to fill the table.\<close>

definition roomy :: "string set \<Rightarrow> Sampler \<Rightarrow> bool" where
  "roomy K s \<longleftrightarrow> finite K \<and> int (card K) \<le> sp_maxKeys s \<and> gm_ok (sp_buckets s) \<and> set (gm_keys (sp_buckets s)) \<subseteq> K"

lemma refilled_bounds:
  assumes "0 \<le> rate" "0 \<le> burst" "bk_last b \<le> now" "0 \<le> bk_tokens b"
  shows "0 \<le> refilled rate burst now b" "refilled rate burst now b \<le> burst"
proof -
  have "0 \<le> of_int (now - bk_last b) / 1000000000 * rate" using assms by simp
  then show "0 \<le> refilled rate burst now b" "refilled rate burst now b \<le> burst"
    using assms by (auto simp: refilled_def Let_def)
qed

lemma refilled_later:
  assumes "0 \<le> rate" "now \<le> later"
  shows "refilled rate burst later b \<le> refilled rate burst now b + rate * of_int (later - now) / 1000000000"
proof -
  define a d where "a = of_int (now - bk_last b) / 1000000000 * rate" "d = rate * of_int (later - now) / 1000000000"
  have e: "of_int (later - bk_last b) / 1000000000 * rate = a + d"
    by (simp add: a_d_def field_simps)
  have "0 \<le> d" using assms by (simp add: a_d_def)
  then show ?thesis
    unfolding refilled_def Let_def e a_d_def(1) [symmetric] a_d_def(2) [symmetric] by simp
qed

lemma tracked:
  assumes "roomy K s" "k \<in> K" "gm_get (sp_buckets s) k = None"
  shows "int (length (sp_buckets s)) < sp_maxKeys s"
proof -
  have "distinct (gm_keys (sp_buckets s))" using assms(1) gm_keys_sorted by (auto simp: roomy_def strict_sorted_iff)
  then have "length (sp_buckets s) = card (set (gm_keys (sp_buckets s)))"
    by (metis distinct_card gm_keys_def length_map)
  also have "\<dots> < card K"
    using assms by (intro psubset_card_mono) (auto simp: roomy_def gm_keys_iff)
  finally show ?thesis using assms(1) by (simp add: roomy_def)
qed

lemma roomy_Allow: "roomy K s \<Longrightarrow> k \<in> K \<Longrightarrow> roomy K (snd (Allow k now s))"
  by (cases rule: Allow_cases [of k now s])
    (auto simp: roomy_def put_bucket_def gm_ok_set gm.keys_assign)

lemma bucket_of_on_time:
  assumes "on_time now s"
  shows "bk_last (bucket_of k now s) \<le> now" "0 \<le> bk_tokens (bucket_of k now s)"
  using assms by (auto simp: on_time_def bucket_of_def split: option.split)

lemma on_time_later: "on_time t s \<Longrightarrow> t \<le> now \<Longrightarrow> on_time now s"
  by (fastforce simp: on_time_def)

lemma on_time_put:
  "on_time now s \<Longrightarrow> bk_last b = now \<Longrightarrow> 0 \<le> bk_tokens b \<Longrightarrow> on_time now (put_bucket k b s)"
  by (auto simp: on_time_def put_bucket_def gm_ok_set)

lemma on_time_Allow:
  assumes "on_time now s"
  shows "on_time now (snd (Allow k now s))"
proof -
  have rb: "0 \<le> sp_rate s" "0 \<le> sp_burst s" using assms by (simp_all add: on_time_def)
  have "0 \<le> refilled (sp_rate s) (sp_burst s) now (bucket_of k now s)"
    using refilled_bounds(1) [OF rb] bucket_of_on_time [OF assms] by blast
  then show ?thesis
    by (cases rule: Allow_cases [of k now s]) (use assms in \<open>simp_all add: on_time_put\<close>)
qed

lemma Allow_params [simp]:
  "sp_rate (snd (Allow k now s)) = sp_rate s" "sp_burst (snd (Allow k now s)) = sp_burst s"
  "sp_maxKeys (snd (Allow k now s)) = sp_maxKeys s"
  by (cases rule: Allow_cases [of k now s]; simp add: put_bucket_def)+

lemma available_bounds:
  assumes "on_time now s"
  shows "0 \<le> available k now s" "available k now s \<le> sp_burst s"
proof -
  have rb: "0 \<le> sp_rate s" "0 \<le> sp_burst s" using assms by (simp_all add: on_time_def)
  show "0 \<le> available k now s" "available k now s \<le> sp_burst s"
    using refilled_bounds [OF rb] bucket_of_on_time [OF assms] by (auto simp: available_def)
qed

lemma available_later:
  assumes "on_time t s" "t \<le> now"
  shows "available k now s \<le> available k t s + sp_rate s * of_int (now - t) / 1000000000"
proof (cases "gm_get (sp_buckets s) k")
  case None
  have "0 \<le> sp_rate s * of_int (now - t) / 1000000000" using assms by (simp add: on_time_def)
  then show ?thesis using None by (simp add: available_def bucket_of_def refilled_def)
next
  case (Some b)
  then show ?thesis
    using refilled_later [of "sp_rate s" t now "sp_burst s" b] assms by (simp add: available_def bucket_of_def on_time_def)
qed

text \<open>A line costs its key a token; a call on another key costs it nothing.\<close>

lemma available_Allow:
  assumes "on_time now s" "roomy K s" "k \<in> K"
  shows "(if fst (fst (Allow k now s)) \<and> k = key then 1 else 0) + available key now (snd (Allow k now s)) \<le> available key now s"
proof -
  have same: "refilled r b now \<lparr>bk_tokens = t, bk_last = now, bk_suppressed = n\<rparr> \<le> t" for r b t n
    by (simp add: refilled_def)
  have other: "key \<noteq> k \<Longrightarrow> bucket_of key now (put_bucket k b s) = bucket_of key now s" for b
    by (simp add: bucket_of_def put_bucket_def split: option.split)
  have own: "bucket_of k now (put_bucket k b s) = b" for b by (simp add: bucket_of_def put_bucket_def)
  have params: "sp_rate (put_bucket k b s) = sp_rate s" "sp_burst (put_bucket k b s) = sp_burst s" for b
    by (simp_all add: put_bucket_def)
  show ?thesis
  proof (cases rule: Allow_cases [of k now s])
    case untracked
    then show ?thesis using tracked [OF assms(2,3)] by simp
  next
    case (suppress t)
    then show ?thesis using same by (cases "key = k") (simp_all add: available_def other own params)
  next
    case (emit t)
    then show ?thesis using same [of _ _ "t - 1"] by (cases "key = k") (auto simp: available_def other own params le_diff_eq add.commute)
  qed
qed

lemma emitted_bound:
  assumes "on_time t s" "sorted (t # map snd cs)" "\<forall>c \<in> set cs. snd c \<le> T \<and> fst c \<in> K" "roomy K s" "t \<le> T"
  shows "of_nat (lines_for key cs s) \<le> available key t s + sp_rate s * of_int (T - t) / 1000000000"
  using assms
proof (induction cs arbitrary: t s)
  case Nil
  have "0 \<le> sp_rate s * of_int (T - t) / 1000000000" using Nil by (simp add: on_time_def)
  then show ?case using available_bounds(1) [OF Nil(1), of key] by simp
next
  case (Cons c cs)
  obtain k now where c: "c = (k, now)" by (rule prod.exhaust)
  have le: "t \<le> now" "now \<le> T" "k \<in> K" using Cons.prems by (auto simp: c)
  define s' where "s' = snd (Allow k now s)"
  have tn: "on_time now s" using on_time_later Cons.prems(1) le(1) by blast
  have IH: "of_nat (lines_for key cs s') \<le> available key now s' + sp_rate s * of_int (T - now) / 1000000000"
    using Cons.IH [of now s'] on_time_Allow [OF tn, of k] roomy_Allow [OF Cons.prems(4) le(3), of now] Cons.prems(2,3) le(2)
    by (simp add: s'_def c)
  have "of_nat (lines_for key (c # cs) s) = (if fst (fst (Allow k now s)) \<and> k = key then 1 else 0) + (of_nat (lines_for key cs s') :: rat)"
    by (simp add: c s'_def split: prod.split)
  also have "\<dots> \<le> available key now s + sp_rate s * of_int (T - now) / 1000000000"
    using IH available_Allow [OF tn Cons.prems(4) le(3), of key] by (simp add: s'_def)
  also have "\<dots> \<le> available key t s + sp_rate s * of_int (now - t) / 1000000000 + sp_rate s * of_int (T - now) / 1000000000"
    using available_later [OF Cons.prems(1) le(1), of key] by simp
  also have "\<dots> = available key t s + sp_rate s * of_int (T - t) / 1000000000" by (simp add: field_simps)
  finally show ?case .
qed

lemma sampler_after_ok:
  "on_time t s \<Longrightarrow> sorted (t # map snd cs) \<Longrightarrow> fst ` set cs \<subseteq> K \<Longrightarrow> roomy K s \<Longrightarrow> \<forall>c \<in> set cs. snd c \<le> u \<Longrightarrow> t \<le> u \<Longrightarrow>
     on_time u (sampler_after cs s) \<and> roomy K (sampler_after cs s) \<and>
     sp_rate (sampler_after cs s) = sp_rate s \<and> sp_burst (sampler_after cs s) = sp_burst s"
proof (induction cs arbitrary: t s)
  case Nil
  then show ?case using on_time_later by simp
next
  case (Cons c cs)
  obtain k now where c: "c = (k, now)" by (rule prod.exhaust)
  have "on_time now s" using on_time_later Cons.prems(1,2) by (auto simp: c)
  then show ?case
    using Cons.IH [of now "snd (Allow k now s)"] on_time_Allow [of now s k] roomy_Allow [OF Cons.prems(4), of k now] Cons.prems
    by (simp add: c)
qed

text \<open>C36. One broken flag cannot flood the log. As long as no more keys have been seen than the sampler tracks, then in any
  stretch of time, whatever went before it and however many calls come, a key emits at most the burst and
  the rate times the length of the stretch; and the lines say how many events they stand for, so that with what is
  still held back they account for every call.
\<close>

theorem sampler_limits:
  assumes "0 \<le> rate" "0 \<le> burst" "0 < maxKeys" "int (card (fst ` set (cs @ ds))) \<le> maxKeys"
    and "sorted (map snd (cs @ ds))" "\<forall>d \<in> set ds. t0 \<le> snd d \<and> snd d \<le> t1" "t0 \<le> t1"
    and "sample_run sampled_of (cs @ ds) (NewSampler rate burst maxKeys) = (rs, s')"
  shows "of_nat (lines_for key ds (sampler_after cs (NewSampler rate burst maxKeys))) \<le> burst + rate * of_int (t1 - t0) / 1000000000
    \<and> sum_list (map fst rs) + held_back s' = of_nat (length (cs @ ds))"
proof
  let ?s = "NewSampler rate burst maxKeys" and ?K = "fst ` set (cs @ ds)"
  have new: "on_time t ?s" "roomy ?K ?s" for t using assms(1-4) by (simp_all add: on_time_def roomy_def NewSampler_def gm_keys_def)
  have "held_back ?s = 0" "sampler_ok ?s" by (simp_all add: held_back_def held_def sampler_ok_def NewSampler_def)
  then show "sum_list (map fst rs) + held_back s' = of_nat (length (cs @ ds))"
    using sampler.run_accounts [OF _ assms(8)] by simp
  have pos: "0 \<le> rate * of_int (t1 - t0) / 1000000000" using assms(1,7) by simp
  show "of_nat (lines_for key ds (sampler_after cs ?s)) \<le> burst + rate * of_int (t1 - t0) / 1000000000"
  proof (cases ds)
    case Nil
    then show ?thesis using pos assms(2) by simp
  next
    case (Cons d ds')
    let ?u = "snd d"
    define t where "t = (case cs of [] \<Rightarrow> ?u | c # _ \<Rightarrow> snd c)"
    have sorted: "sorted (t # map snd cs)" "\<forall>c \<in> set cs. snd c \<le> ?u" "t \<le> ?u" "sorted (?u # map snd ds)"
      using assms(5) by (auto simp: Cons t_def sorted_append split: list.split) force+
    have sub: "fst ` set cs \<subseteq> ?K" by auto
    have params: "sp_rate ?s = rate" "sp_burst ?s = burst" by (simp_all add: NewSampler_def)
    have after: "on_time ?u (sampler_after cs ?s)" "roomy ?K (sampler_after cs ?s)"
        "sp_rate (sampler_after cs ?s) = rate" "sp_burst (sampler_after cs ?s) = burst"
      using sampler_after_ok [OF new(1) sorted(1) sub new(2) sorted(2,3)] params by simp_all
    have "of_nat (lines_for key ds (sampler_after cs ?s)) \<le>
        available key ?u (sampler_after cs ?s) + rate * of_int (t1 - ?u) / 1000000000"
      using emitted_bound [OF after(1) sorted(4), of t1 ?K key] assms(6) after(2,3) Cons by auto
    also have "\<dots> \<le> burst + rate * of_int (t1 - ?u) / 1000000000"
      using available_bounds(2) [OF after(1), of key] after(4) by simp
    also have "\<dots> \<le> burst + rate * of_int (t1 - t0) / 1000000000"
      using assms(1,6) Cons by (simp add: mult_left_mono divide_right_mono)
    finally show ?thesis .
  qed
qed

text \<open>The configuration of the service: a line a second, bursts of five.\<close>

definition a_burst :: "(string \<times> int) list" where
  "a_burst = replicate 7 (''f|ERROR'', 0) @ [(''f|ERROR'', 2000000000)]"

theorem sampler_limits_witness:
  "lines_for ''f|ERROR'' a_burst (NewSampler 1 5 4096) = 6 \<and> (of_nat (lines_for ''f|ERROR'' a_burst (NewSampler 1 5 4096)) :: rat) \<le> 5 + 1 * of_int 2000000000 / 1000000000"
proof
  show "lines_for ''f|ERROR'' a_burst (NewSampler 1 5 4096) = 6"
    by (simp add: a_burst_def NewSampler_def numeral_eq_Suc Allow_def bucket_of_def put_bucket_def refilled_def gm_get_def)
  obtain rs s' where r: "sample_run sampled_of ([] @ a_burst) (NewSampler 1 5 4096) = (rs, s')" by (rule prod.exhaust)
  show "(of_nat (lines_for ''f|ERROR'' a_burst (NewSampler 1 5 4096)) :: rat) \<le> 5 + 1 * of_int 2000000000 / 1000000000"
    using conjunct1 [OF sampler_limits [OF _ _ _ _ _ _ _ r, of 0 2000000000 "''f|ERROR''"]]
    by (simp add: a_burst_def numeral_eq_Suc)
qed

end
