(* ===== verification/Obs_Log.thy ===== *)
theory Obs_Log
  imports Obs_Sampler Transport_Error
begin

text \<open>
  The logger, \<^verbatim>\<open>internal/obs/log.go\<close>: the handler that keeps personal data out of the log, the trace stamped on a line,
  the fixed schema of evaluation errors. Of \<^verbatim>\<open>log/slog\<close> the model has the JSON handler with its level, its
  attributes and groups; a line is the JSON object that is written, its time an argument. The attributes of a call are given
  as pairs of a key and a value.
\<close>

section \<open>Keys\<close>

definition KeyEvent :: string where "KeyEvent = ''event''"
definition KeyTraceID :: string where "KeyTraceID = ''trace_id''"
definition KeySpanID :: string where "KeySpanID = ''span_id''"
definition KeyFlag :: string where "KeyFlag = ''flag''"
definition KeyEnv :: string where "KeyEnv = ''env''"
definition KeyReason :: string where "KeyReason = ''reason''"
definition KeyGeneration :: string where "KeyGeneration = ''generation''"
definition KeyRuleID :: string where "KeyRuleID = ''rule_id''"
definition KeyStack :: string where "KeyStack = ''stack''"
definition KeyError :: string where "KeyError = ''err''"
definition KeyCtxKeys :: string where "KeyCtxKeys = ''ctx_keys''"
definition KeySampledOf :: string where "KeySampledOf = ''sampled_of''"
definition KeyService :: string where "KeyService = ''service''"
definition KeyInstanceID :: string where "KeyInstanceID = ''instance_id''"
definition KeyValueSource :: string where "KeyValueSource = ''returned_value_source''"
definition KeySite :: string where "KeySite = ''site''"

definition EventEvaluationError :: string where "EventEvaluationError = ''flag.evaluation.error''"
definition EventPanic :: string where "EventPanic = ''runtime.panic.recovered''"

lemmas log_keys =
  KeyEvent_def KeyTraceID_def KeySpanID_def KeyFlag_def KeyEnv_def KeyReason_def KeyGeneration_def KeyRuleID_def
  KeyStack_def KeyError_def KeyCtxKeys_def KeySampledOf_def KeyService_def KeyInstanceID_def KeyValueSource_def
  KeySite_def

definition piiKeys :: "string list" where
  "piiKeys =
     [''user_id'', ''userid'', ''user'', ''subject'', ''bucket_key'', ''email'', ''phone'', ''ip'', ''ip_address'',
      ''remote_addr'', ''session_id'', ''cookie'', ''authorization'', ''token'', ''api_key'', ''password'', ''secret'',
      ''attributes'', ''context_values'', ''eval_context'', ''variant_payload'']"

definition RedactedValue :: string where "RedactedValue = ''[redacted]''"

definition IsPIIKey :: "string \<Rightarrow> bool" where
  "IsPIIKey name \<longleftrightarrow> strings_ToLower name \<in> set piiKeys"

section \<open>Attributes and lines\<close>

datatype attr = Attr (at_Key: string) (at_Value: attr_value)
  and attr_value = AString string | AInt int | AStrings "string list" | AGroup "attr list"

definition LevelDebug :: int where "LevelDebug = - 4"
definition LevelInfo :: int where "LevelInfo = 0"
definition LevelWarn :: int where "LevelWarn = 4"
definition LevelError :: int where "LevelError = 8"

text \<open>
  The members an attribute adds to a line. A group without a key is inlined, one without members left out; at the top of the
  line the hook of \<^verbatim>\<open>New\<close> renames \<^verbatim>\<open>time\<close>.
\<close>

fun render_attr :: "bool \<Rightarrow> attr \<Rightarrow> (string \<times> json) list" where
  "render_attr outer (Attr k (AGroup as)) =
     (let ms = concat (map (render_attr (outer \<and> k = [])) as)
      in if ms = [] then [] else if k = [] then ms else [(k, JObj ms)])"
| "render_attr outer (Attr k (AString s)) = [(if outer \<and> k = ''time'' then ''ts'' else k, JStr s)]"
| "render_attr outer (Attr k (AInt i)) = [(if outer \<and> k = ''time'' then ''ts'' else k, JNum (strconv_FormatInt i))]"
| "render_attr outer (Attr k (AStrings ss)) = [(if outer \<and> k = ''time'' then ''ts'' else k, JArr (map JStr ss))]"

text \<open>What was bound to a handler, in order: attributes, and groups that hold all that follows.\<close>

datatype bound = BAttrs "attr list" | BGroup string

fun render :: "bool \<Rightarrow> bound list \<Rightarrow> attr list \<Rightarrow> (string \<times> json) list" where
  "render outer [] as = concat (map (render_attr outer) as)"
| "render outer (BAttrs bs # gs) as = concat (map (render_attr outer) bs) @ render outer gs as"
| "render outer (BGroup n # gs) as =
     (let ms = render False gs as in if ms = [] then [] else [(n, JObj ms)])"

record jsonHandler =
  jh_Level :: int
  jh_Bound :: "bound list"

fun level_string :: "int \<Rightarrow> string" where
  "level_string l =
     (if l < 0 then ''DEBUG'' @ (if l = - 4 then [] else (if l + 4 < 0 then [] else ''+'') @ strconv_FormatInt (l + 4))
      else if l < 4 then ''INFO'' @ (if l = 0 then [] else ''+'' @ strconv_FormatInt l)
      else if l < 8 then ''WARN'' @ (if l = 4 then [] else ''+'' @ strconv_FormatInt (l - 4))
      else ''ERROR'' @ (if l = 8 then [] else ''+'' @ strconv_FormatInt (l - 8)))"

definition json_line :: "jsonHandler \<Rightarrow> string \<Rightarrow> int \<Rightarrow> string \<Rightarrow> attr list \<Rightarrow> json" where
  "json_line h time level msg as =
     JObj ([(''ts'', JStr time), (''level'', JStr (level_string level)), (''msg'', JStr msg)] @
           render True (jh_Bound h) as)"

section \<open>The redacting handler\<close>

record redactHandler =
  rh_inner :: jsonHandler
  rh_redact :: bool

definition rh_Enabled :: "redactHandler \<Rightarrow> int \<Rightarrow> bool" where
  "rh_Enabled h level \<longleftrightarrow> jh_Level (rh_inner h) \<le> level"

definition rh_filter :: "redactHandler \<Rightarrow> attr \<Rightarrow> int \<Rightarrow> attr option" where
  "rh_filter h a level =
     (if \<not> rh_redact h \<or> \<not> IsPIIKey (at_Key a) then Some a
      else if level < LevelError then None
      else Some (Attr (at_Key a) (AString RedactedValue)))"

definition trace_attrs :: "Trace \<Rightarrow> attr list" where
  "trace_attrs t =
     (if Trace_Valid t
      then Attr KeyTraceID (AString (tr_TraceID t)) #
           (if tr_SpanID t \<noteq> [] then [Attr KeySpanID (AString (tr_SpanID t))] else [])
      else [])"

definition rh_Handle :: "redactHandler \<Rightarrow> Trace \<Rightarrow> string \<Rightarrow> int \<Rightarrow> string \<Rightarrow> attr list \<Rightarrow> json" where
  "rh_Handle h t time level msg as =
     json_line (rh_inner h) time level msg (trace_attrs t @ List.map_filter (\<lambda>a. rh_filter h a level) as)"

definition rh_WithAttrs :: "attr list \<Rightarrow> redactHandler \<Rightarrow> redactHandler" where
  "rh_WithAttrs as h =
     (let kept = filter (\<lambda>a. \<not> (rh_redact h \<and> IsPIIKey (at_Key a))) as
      in h\<lparr>rh_inner := (rh_inner h)\<lparr>jh_Bound := jh_Bound (rh_inner h) @ [BAttrs kept]\<rparr>\<rparr>)"

definition rh_WithGroup :: "string \<Rightarrow> redactHandler \<Rightarrow> redactHandler" where
  "rh_WithGroup name h =
     (if name = [] then h else h\<lparr>rh_inner := (rh_inner h)\<lparr>jh_Bound := jh_Bound (rh_inner h) @ [BGroup name]\<rparr>\<rparr>)"

section \<open>The logger\<close>

record log_options =
  op_Level :: int
  op_Service :: string
  op_InstanceID :: string
  op_AllowPII :: bool
  op_Sampler :: "Sampler option"

record Logger =
  lg_handler :: redactHandler
  lg_sampler :: "Sampler option"

definition Logger_With :: "attr list \<Rightarrow> Logger \<Rightarrow> Logger" where
  "Logger_With as l = (if as = [] then l else l\<lparr>lg_handler := rh_WithAttrs as (lg_handler l)\<rparr>)"

definition Logger_WithTrace :: "Trace \<Rightarrow> Logger \<Rightarrow> Logger" where
  "Logger_WithTrace t =
     Logger_With [Attr KeyTraceID (AString (tr_TraceID t)), Attr KeySpanID (AString (tr_SpanID t))]"

definition New_Logger :: "log_options \<Rightarrow> Logger" where
  "New_Logger o' =
     (let l = \<lparr>lg_handler = \<lparr>rh_inner = \<lparr>jh_Level = op_Level o', jh_Bound = []\<rparr>, rh_redact = \<not> op_AllowPII o'\<rparr>,
               lg_sampler = op_Sampler o'\<rparr>;
          l = (if op_Service o' \<noteq> [] then Logger_With [Attr KeyService (AString (op_Service o'))] l else l)
      in if op_InstanceID o' \<noteq> [] then Logger_With [Attr KeyInstanceID (AString (op_InstanceID o'))] l else l)"

text \<open>\<^verbatim>\<open>LogAttrs\<close>: the lines a call writes.\<close>

definition Logger_log :: "Logger \<Rightarrow> Trace \<Rightarrow> string \<Rightarrow> int \<Rightarrow> string \<Rightarrow> attr list \<Rightarrow> json list" where
  "Logger_log l t time level msg as =
     (if rh_Enabled (lg_handler l) level then [rh_Handle (lg_handler l) t time level msg as] else [])"

definition Logger_Debug :: "Logger \<Rightarrow> Trace \<Rightarrow> string \<Rightarrow> string \<Rightarrow> attr list \<Rightarrow> json list" where
  "Logger_Debug l t time = Logger_log l t time LevelDebug"
definition Logger_Info :: "Logger \<Rightarrow> Trace \<Rightarrow> string \<Rightarrow> string \<Rightarrow> attr list \<Rightarrow> json list" where
  "Logger_Info l t time = Logger_log l t time LevelInfo"
definition Logger_Warn :: "Logger \<Rightarrow> Trace \<Rightarrow> string \<Rightarrow> string \<Rightarrow> attr list \<Rightarrow> json list" where
  "Logger_Warn l t time = Logger_log l t time LevelWarn"
definition Logger_Error :: "Logger \<Rightarrow> Trace \<Rightarrow> string \<Rightarrow> string \<Rightarrow> attr list \<Rightarrow> json list" where
  "Logger_Error l t time = Logger_log l t time LevelError"

text \<open>The fields of \<^verbatim>\<open>EvalError\<close> that no caller in the repository sets come on outer of those the HTTP surface knows.\<close>

record EvalErrorFull = EvalError +
  ee_Err :: "string option"
  ee_Stack :: string

definition eval_error_attrs :: "EvalErrorFull \<Rightarrow> int64 \<Rightarrow> attr list" where
  "eval_error_attrs e suppressed =
     [Attr KeyEvent (AString EventEvaluationError), Attr KeyFlag (AString (ee_Flag e)), Attr KeyEnv (AString (ee_Env e)),
      Attr KeyReason (AString (ee_Reason e)), Attr KeyGeneration (AInt (sint (ee_Generation e))),
      Attr KeySampledOf (AInt (sint (suppressed + 1)))] @
     (if ee_RuleID e \<noteq> [] then [Attr KeyRuleID (AString (ee_RuleID e))] else []) @
     (if ee_ValueSource e \<noteq> [] then [Attr KeyValueSource (AString (ee_ValueSource e))] else []) @
     (if ee_CtxKeys e \<noteq> [] then [Attr KeyCtxKeys (AStrings (ee_CtxKeys e))] else []) @
     (case ee_Err e of Some m \<Rightarrow> [Attr KeyError (AString m)] | None \<Rightarrow> []) @
     (if ee_Stack e \<noteq> [] then [Attr KeyStack (AString (ee_Stack e))] else [])"

definition fallback_msg :: string where "fallback_msg = ''flag evaluation returned a fallback value''"

definition EvaluationError :: "Trace \<Rightarrow> string \<Rightarrow> int \<Rightarrow> EvalErrorFull \<Rightarrow> Logger \<Rightarrow> json list \<times> Logger" where
  "EvaluationError t time now e l =
     (case lg_sampler l of
        None \<Rightarrow> (Logger_log l t time LevelError fallback_msg (eval_error_attrs e 0), l)
      | Some s \<Rightarrow>
          (let ((allow, n), s') = Allow (ee_Flag e @ ''|'' @ ee_Reason e) now s
           in (if \<not> allow then [] else Logger_log l t time LevelError fallback_msg (eval_error_attrs e n),
               l\<lparr>lg_sampler := Some s'\<rparr>)))"

text \<open>A recovered value: an error or a string shows its text, anything else what \<^verbatim>\<open>slog\<close> makes of it.\<close>

datatype recovered_value = PanicError string | PanicString string | PanicOther string

fun sprint :: "recovered_value \<Rightarrow> string" where
  "sprint (PanicError m) = m"
| "sprint (PanicString s) = s"
| "sprint (PanicOther s) = s"

definition Logger_Panic :: "Logger \<Rightarrow> Trace \<Rightarrow> string \<Rightarrow> string \<Rightarrow> recovered_value \<Rightarrow> string \<Rightarrow> json list" where
  "Logger_Panic l t time site v stack =
     Logger_log l t time LevelError ''recovered panic''
       [Attr KeyEvent (AString EventPanic), Attr KeySite (AString site), Attr KeyError (AString (sprint v)),
        Attr KeyStack (AString stack)]"

definition MapKeys :: "(string, 'v) gomap \<Rightarrow> string list" where
  "MapKeys m = gm_keys m"

text \<open>At most eight kilobytes of the stack of the goroutine.\<close>

definition CallerStack :: "string \<Rightarrow> string" where
  "CallerStack stack = take (8 * 1024) stack"

section \<open>Redaction\<close>

text \<open>Two lists of attributes a reader must not be able to tell apart.\<close>

definition same_public :: "attr list \<Rightarrow> attr list \<Rightarrow> bool" where
  "same_public as bs \<longleftrightarrow> list_all2 (\<lambda>a b. at_Key a = at_Key b \<and> (\<not> IsPIIKey (at_Key a) \<longrightarrow> a = b)) as bs"

datatype binding = With "attr list" | Group string

fun bind_handler :: "binding \<Rightarrow> redactHandler \<Rightarrow> redactHandler" where
  "bind_handler (With as) h = rh_WithAttrs as h"
| "bind_handler (Group n) h = rh_WithGroup n h"

definition bind_all :: "binding list \<Rightarrow> redactHandler \<Rightarrow> redactHandler" where
  "bind_all bs h = foldl (\<lambda>h b. bind_handler b h) h bs"

fun same_binding :: "binding \<Rightarrow> binding \<Rightarrow> bool" where
  "same_binding (With as) (With bs) = same_public as bs"
| "same_binding (Group m) (Group n) = (m = n)"
| "same_binding _ _ = False"

lemma same_filter:
  assumes "rh_redact h" "same_public as bs"
  shows "List.map_filter (\<lambda>a. rh_filter h a level) as = List.map_filter (\<lambda>a. rh_filter h a level) bs"
  using assms(2) unfolding same_public_def
proof (induction as bs rule: list_all2_induct)
  case (Cons a as b bs)
  then have key: "at_Key a = at_Key b" and pub: "\<not> IsPIIKey (at_Key a) \<Longrightarrow> a = b" by blast+
  have "rh_filter h a level = rh_filter h b level"
  proof (cases "IsPIIKey (at_Key a)")
    case True
    then show ?thesis unfolding rh_filter_def key [symmetric] using assms(1) by (simp only: simp_thms if_False)
  next
    case False
    then show ?thesis by (rule arg_cong [OF pub])
  qed
  then show ?case using Cons(3) by (simp only: map_filter_simps)
qed simp

lemma same_kept:
  "same_public as bs \<Longrightarrow> filter (\<lambda>a. \<not> IsPIIKey (at_Key a)) as = filter (\<lambda>a. \<not> IsPIIKey (at_Key a)) bs"
  unfolding same_public_def
proof (induction as bs rule: list_all2_induct)
  case (Cons a as b bs)
  show ?case
  proof (cases "IsPIIKey (at_Key a)")
    case True
    moreover have "IsPIIKey (at_Key b)" using Cons(1) True by metis
    ultimately show ?thesis using Cons(3) by simp
  next
    case False
    then have "a = b" using Cons(1) by metis
    then show ?thesis using Cons(3) by simp
  qed
qed simp

lemma bind_redact [simp]: "rh_redact (bind_handler b h) = rh_redact h"
  by (cases b) (simp_all add: rh_WithAttrs_def rh_WithGroup_def Let_def)

lemma same_bind: "rh_redact h \<Longrightarrow> same_binding b c \<Longrightarrow> bind_handler b h = bind_handler c h"
  by (cases b; cases c) (simp_all add: rh_WithAttrs_def same_kept)

lemma bind_all_redact: "rh_redact (bind_all bs h) = rh_redact h"
  by (induction bs arbitrary: h) (simp_all add: bind_all_def)

lemma same_bind_all:
  "list_all2 same_binding bs cs \<Longrightarrow> rh_redact h \<Longrightarrow> bind_all bs h = bind_all cs h"
proof (induction bs cs arbitrary: h rule: list_all2_induct)
  case (Cons b bs c cs)
  then show ?case using same_bind [of h b c] by (simp add: bind_all_def)
qed simp

text \<open>The keys of a line, at every depth.\<close>

fun line_keys :: "json \<Rightarrow> string list" where
  "line_keys (JObj ms) = concat (map (\<lambda>m. fst m # line_keys (snd m)) ms)"
| "line_keys (JArr js) = concat (map line_keys js)"
| "line_keys _ = []"

definition member_keys :: "(string \<times> json) list \<Rightarrow> string list" where
  "member_keys ms = line_keys (JObj ms)"

lemma member_keys_simps [simp]:
  "member_keys [] = []" "member_keys (m # ms) = fst m # line_keys (snd m) @ member_keys ms"
  "member_keys (xs @ ys) = member_keys xs @ member_keys ys"
  by (simp_all add: member_keys_def)

abbreviation public :: "string \<Rightarrow> bool" where "public k \<equiv> \<not> IsPIIKey k"

text \<open>An attribute that is no group; a binding of such attributes, or of a group with no personal name.\<close>

definition flat :: "attr \<Rightarrow> bool" where
  "flat a \<longleftrightarrow> (case at_Value a of AGroup as \<Rightarrow> False | _ \<Rightarrow> True)"

fun flat_binding :: "binding \<Rightarrow> bool" where
  "flat_binding (With as) = list_all flat as"
| "flat_binding (Group n) = public n"

fun clean_bound :: "bound \<Rightarrow> bool" where
  "clean_bound (BAttrs as) = list_all (\<lambda>a. flat a \<and> public (at_Key a)) as"
| "clean_bound (BGroup n) = public n"

lemma public_keys [simp]: "public ''ts''" "public ''level''" "public ''msg''" "public KeyTraceID" "public KeySpanID"
    "public KeyService" "public KeyInstanceID"
  by code_simp+

lemma render_flat: "flat a \<Longrightarrow> member_keys (render_attr outer a) = [if outer \<and> at_Key a = ''time'' then ''ts'' else at_Key a]"
  by (cases a; cases "at_Value a") (auto simp: flat_def member_keys_def o_def)

lemma render_public:
  "list_all (\<lambda>a. flat a \<and> public (at_Key a)) as \<Longrightarrow>
     list_all public (member_keys (concat (map (render_attr outer) as)))"
  by (induction as) (auto simp: render_flat)

lemma render_bound_public:
  "list_all clean_bound gs \<Longrightarrow> list_all (\<lambda>a. flat a \<and> public (at_Key a)) as \<Longrightarrow>
     list_all public (member_keys (render outer gs as))"
proof (induction outer gs as rule: render.induct)
  case (3 outer n gs as)
  then show ?case by (simp add: Let_def) (simp add: member_keys_def)
qed (simp_all add: render_public)

lemma bind_clean:
  "rh_redact h \<Longrightarrow> flat_binding b \<Longrightarrow> list_all clean_bound (jh_Bound (rh_inner h)) \<Longrightarrow>
     list_all clean_bound (jh_Bound (rh_inner (bind_handler b h)))"
  by (cases b) (auto simp: rh_WithAttrs_def rh_WithGroup_def Let_def list_all_iff)

lemma bind_all_clean:
  "rh_redact h \<Longrightarrow> list_all flat_binding bs \<Longrightarrow> list_all clean_bound (jh_Bound (rh_inner h)) \<Longrightarrow>
     list_all clean_bound (jh_Bound (rh_inner (bind_all bs h)))"
proof (induction bs arbitrary: h)
  case (Cons b bs)
  then show ?case using bind_clean [of h b] by (simp add: bind_all_def)
qed (simp add: bind_all_def)

lemma New_Logger_clean:
  "rh_redact (lg_handler (New_Logger o')) = (\<not> op_AllowPII o')"
  "\<not> op_AllowPII o' \<Longrightarrow> list_all clean_bound (jh_Bound (rh_inner (lg_handler (New_Logger o'))))"
  by (auto simp: New_Logger_def Logger_With_def rh_WithAttrs_def Let_def flat_def)

text \<open>C35. What a personal attribute says never shows. Take a logger of the package that was not told to allow personal
  data, bound in two ways to the same attributes and groups, and two calls with the same attributes, except that
  wherever the key of an attribute is on the list of personal keys, in any letter case, the values may differ: they
  write the same line, at every level. Below error level not even the key shows, at any depth of the line, the
  service, the instance and the trace it carries included, provided no attribute is itself a group and no group has
  a personal name: the policy looks at the keys of attributes and not inside a group, with or without a key.\<close>

theorem redaction_hides:
  assumes "\<not> op_AllowPII o'" and "list_all2 same_binding bs cs" and "same_public as as'"
  defines "h \<equiv> lg_handler (New_Logger o')"
  shows "rh_Handle (bind_all bs h) t time level msg as = rh_Handle (bind_all cs h) t time level msg as' \<and>
    (level < LevelError \<longrightarrow> list_all flat_binding bs \<longrightarrow> list_all flat as \<longrightarrow>
       list_all public (line_keys (rh_Handle (bind_all bs h) t time level msg as)))"
proof
  have h: "rh_redact h" using New_Logger_clean(1) [of o'] assms(1) by (simp add: h_def)
  have r: "rh_redact (bind_all bs h)" "rh_redact (bind_all cs h)" using h by (simp_all add: bind_all_redact)
  show "rh_Handle (bind_all bs h) t time level msg as = rh_Handle (bind_all cs h) t time level msg as'"
    unfolding same_bind_all [OF assms(2) h] rh_Handle_def same_filter [OF r(2) assms(3)] ..
  show "level < LevelError \<longrightarrow> list_all flat_binding bs \<longrightarrow> list_all flat as \<longrightarrow>
       list_all public (line_keys (rh_Handle (bind_all bs h) t time level msg as))"
  proof (intro impI)
    assume lvl: "level < LevelError" and fb: "list_all flat_binding bs" and fl: "list_all flat as"
    let ?as = "trace_attrs t @ List.map_filter (\<lambda>a. rh_filter (bind_all bs h) a level) as"
    have "list_all clean_bound (jh_Bound (rh_inner (bind_all bs h)))"
      using bind_all_clean [OF h fb] New_Logger_clean(2) [OF assms(1)] by (simp add: h_def)
    moreover have "list_all (\<lambda>a. flat a \<and> public (at_Key a)) ?as"
      using fl r(1) lvl
      by (auto simp: list_all_iff trace_attrs_def flat_def map_filter_def rh_filter_def split: if_splits)
    ultimately have "list_all public (member_keys (render True (jh_Bound (rh_inner (bind_all bs h))) ?as))"
      by (rule render_bound_public)
    then show "list_all public (line_keys (rh_Handle (bind_all bs h) t time level msg as))"
      by (simp add: rh_Handle_def json_line_def member_keys_def)
  qed
qed

text \<open>
  The policy looks at the attributes of a call and not inside a group, so the value of a personal key in a
  group is written out, and that of a group without a key at the top of the line.
\<close>

definition quiet_handler :: redactHandler where
  "quiet_handler = \<lparr>rh_inner = \<lparr>jh_Level = LevelInfo, jh_Bound = []\<rparr>, rh_redact = True\<rparr>"

lemma grouped_value_shows:
  "rh_Handle quiet_handler no_trace ''now'' LevelInfo ''m'' [Attr ''req'' (AGroup [Attr ''email'' (AString ''a@b'')])] =
     JObj [(''ts'', JStr ''now''), (''level'', JStr ''INFO''), (''msg'', JStr ''m''),
           (''req'', JObj [(''email'', JStr ''a@b'')])]"
  "rh_Handle quiet_handler no_trace ''now'' LevelInfo ''m'' [Attr [] (AGroup [Attr ''email'' (AString ''a@b'')])] =
     JObj [(''ts'', JStr ''now''), (''level'', JStr ''INFO''), (''msg'', JStr ''m''), (''email'', JStr ''a@b'')]"
proof -
  have "public ''req''" "public []" by code_simp+
  then show
    "rh_Handle quiet_handler no_trace ''now'' LevelInfo ''m'' [Attr ''req'' (AGroup [Attr ''email'' (AString ''a@b'')])] =
       JObj [(''ts'', JStr ''now''), (''level'', JStr ''INFO''), (''msg'', JStr ''m''),
             (''req'', JObj [(''email'', JStr ''a@b'')])]"
    "rh_Handle quiet_handler no_trace ''now'' LevelInfo ''m'' [Attr [] (AGroup [Attr ''email'' (AString ''a@b'')])] =
       JObj [(''ts'', JStr ''now''), (''level'', JStr ''INFO''), (''msg'', JStr ''m''), (''email'', JStr ''a@b'')]"
    by (simp_all add: rh_Handle_def quiet_handler_def json_line_def trace_attrs_def Trace_Valid_def no_trace_def
        rh_filter_def map_filter_simps LevelInfo_def)
qed

definition shipped_options :: log_options where
  "shipped_options = \<lparr>op_Level = LevelInfo, op_Service = ''flagd'', op_InstanceID = ''i1'', op_AllowPII = False, op_Sampler = None\<rparr>"

theorem redaction_hides_witness:
  "rh_Handle (bind_all [With [Attr ''Email'' (AString ''a@b'')], Group ''g''] (lg_handler (New_Logger shipped_options)))
     no_trace ''now'' LevelError ''m'' [Attr ''USER_ID'' (AString ''alice''), Attr ''flag'' (AString ''f'')] =
   rh_Handle (bind_all [With [Attr ''Email'' (AInt 7)], Group ''g''] (lg_handler (New_Logger shipped_options)))
     no_trace ''now'' LevelError ''m'' [Attr ''USER_ID'' (AString ''bob''), Attr ''flag'' (AString ''f'')]
   \<and> list_all public (line_keys (rh_Handle
       (bind_all [With [Attr ''Email'' (AString ''a@b'')], Group ''g''] (lg_handler (New_Logger shipped_options)))
       no_trace ''now'' LevelInfo ''m'' [Attr ''USER_ID'' (AString ''alice''), Attr ''flag'' (AString ''f'')]))"
proof -
  have pii: "IsPIIKey ''Email''" "IsPIIKey ''USER_ID''" "public ''g''"
    by code_simp+
  have o: "\<not> op_AllowPII shipped_options" by (simp add: shipped_options_def)
  have b: "list_all2 same_binding [With [Attr ''Email'' (AString ''a@b'')], Group ''g'']
      [With [Attr ''Email'' (AInt 7)], Group ''g'']"
    by (simp add: same_public_def pii)
  have a: "same_public [Attr ''USER_ID'' (AString ''alice''), Attr ''flag'' (AString ''f'')]
      [Attr ''USER_ID'' (AString ''bob''), Attr ''flag'' (AString ''f'')]"
    by (simp add: same_public_def pii)
  show ?thesis
    by (rule conjI [OF conjunct1 [OF redaction_hides [OF o b a]] conjunct2 [OF redaction_hides [OF o b a], rule_format]])
      (simp_all add: flat_def pii LevelInfo_def LevelError_def)
qed

end
