(* ===== verification/Flagd_Main.thy ===== *)
theory Flagd_Main
  imports Flagd Obs_Metrics Obs_Log
begin

text \<open>
  The process, \<^verbatim>\<open>cmd/flagd/main.go\<close>, and the listeners it runs, the lifecycle part of
  \<^verbatim>\<open>internal/transport/http/server.go\<close>. The environment of the process, the outcome of binding an address, the way an
  accept loop ends, a signal and how long the requests in flight take are arguments; so are the parsers of \<^verbatim>\<open>flag\<close>, \<^verbatim>\<open>time\<close> and
  \<^verbatim>\<open>fmt\<close> for command lines, durations and integers.
\<close>

section \<open>Options\<close>

record options =
  opt_evalAddr :: string
  opt_adminAddr :: string
  opt_logLevel :: string
  opt_instanceID :: string
  opt_environments :: string
  opt_requiredEnvs :: string
  opt_shutdownTimeout :: int
  opt_handlerTimeout :: int
  opt_maxBatchFlags :: int
  opt_maxBodyBytes :: int
  opt_staleAfter :: int
  opt_allowPII :: bool

text \<open>\<^verbatim>\<open>parseLevel\<close>; the error carries the text it was given.\<close>

definition parseLevel :: "string \<Rightarrow> string + int" where
  "parseLevel s =
     (let l = strings_ToLower (strings_TrimSpace s) in
      if l = ''debug'' then Inr LevelDebug
      else if l = [] \<or> l = ''info'' then Inr LevelInfo
      else if l = ''warn'' \<or> l = ''warning'' then Inr LevelWarn
      else if l = ''error'' then Inr LevelError
      else Inl s)"

definition splitCSV :: "string \<Rightarrow> string list" where
  "splitCSV s =
     (if strings_TrimSpace s = [] then []
      else filter (\<lambda>p. p \<noteq> []) (map strings_TrimSpace (strings_Split s (CHR '',''))))"

type_synonym environ = "(string, string) gomap"

definition getenv :: "environ \<Rightarrow> string \<Rightarrow> string \<Rightarrow> string" where
  "getenv e key def = (case gm_get e key of Some v \<Rightarrow> if v \<noteq> [] then v else def | None \<Rightarrow> def)"

text \<open>A value that does not parse is passed over in silence.\<close>

definition getenv_parsed :: "(string \<Rightarrow> int option) \<Rightarrow> environ \<Rightarrow> string \<Rightarrow> int \<Rightarrow> int" where
  "getenv_parsed parse e key def =
     (case gm_get e key of
        Some v \<Rightarrow> if v \<noteq> [] then (case parse v of Some n \<Rightarrow> n | None \<Rightarrow> def) else def
      | None \<Rightarrow> def)"

definition envInt :: "(string \<Rightarrow> int option) \<Rightarrow> environ \<Rightarrow> string \<Rightarrow> int \<Rightarrow> int" where
  "envInt sscanf e key def =
     (case gm_get e key of
        Some v \<Rightarrow> if v \<noteq> [] then (case sscanf v of Some n \<Rightarrow> n | None \<Rightarrow> def) else def
      | None \<Rightarrow> def)"

definition defaultInstanceID :: "string option \<Rightarrow> string" where
  "defaultInstanceID host = (case host of Some h \<Rightarrow> if h \<noteq> [] then h else ''unknown'' | None \<Rightarrow> ''unknown'')"

record host =
  ho_environ :: environ
  ho_name :: "string option"
  ho_duration :: "string \<Rightarrow> int option"
  ho_int :: "string \<Rightarrow> int option"
  ho_flags :: "string list \<Rightarrow> options \<Rightarrow> string + options"

text \<open>What a flag that is not given falls back to.\<close>

definition environ_options :: "host \<Rightarrow> options" where
  "environ_options ho =
     (let e = ho_environ ho in
      \<lparr>opt_evalAddr = getenv e ''FLAGD_EVAL_ADDR'' '':8080'',
       opt_adminAddr = getenv e ''FLAGD_ADMIN_ADDR'' '':9090'',
       opt_logLevel = getenv e ''FLAGD_LOG_LEVEL'' ''info'',
       opt_instanceID = getenv e ''FLAGD_INSTANCE_ID'' (defaultInstanceID (ho_name ho)),
       opt_environments = getenv e ''FLAGD_ENVIRONMENTS'' [],
       opt_requiredEnvs = getenv e ''FLAGD_REQUIRED_ENVS'' [],
       opt_shutdownTimeout = getenv_parsed (ho_duration ho) e ''FLAGD_SHUTDOWN_TIMEOUT'' (25 * second),
       opt_handlerTimeout = getenv_parsed (ho_duration ho) e ''FLAGD_HANDLER_TIMEOUT'' (3 * second),
       opt_maxBatchFlags = envInt (ho_int ho) e ''FLAGD_MAX_BATCH_FLAGS'' 500,
       opt_maxBodyBytes = envInt (ho_int ho) e ''FLAGD_MAX_BODY_BYTES'' 1048576,
       opt_staleAfter = getenv_parsed (ho_duration ho) e ''FLAGD_STALE_AFTER'' (60 * second),
       opt_allowPII = False\<rparr>)"

definition parseOptions :: "host \<Rightarrow> string list \<Rightarrow> string + options" where
  "parseOptions ho args = ho_flags ho args (environ_options ho)"

definition server_config :: "options \<Rightarrow> Config" where
  "server_config o' =
     \<lparr>cfg_EvalAddr = opt_evalAddr o', cfg_AdminAddr = opt_adminAddr o', cfg_ReadHeaderTimeout = 0,
      cfg_ReadTimeout = 0, cfg_WriteTimeout = 0, cfg_IdleTimeout = 0, cfg_HandlerTimeout = opt_handlerTimeout o',
      cfg_MaxBodyBytes = opt_maxBodyBytes o', cfg_MaxBatchFlags = opt_maxBatchFlags o',
      cfg_RequiredEnvs = splitCSV (opt_requiredEnvs o'), cfg_StaleAfter = opt_staleAfter o',
      cfg_Service = ''flagd'', cfg_InstanceID = opt_instanceID o'\<rparr>"

definition logger_options :: "options \<Rightarrow> int \<Rightarrow> log_options" where
  "logger_options o' level =
     \<lparr>op_Level = level, op_Service = ''flagd'', op_InstanceID = opt_instanceID o', op_AllowPII = opt_allowPII o',
      op_Sampler = Some (NewSampler 1 5 4096)\<rparr>"

section \<open>The server\<close>

text \<open>Which dependencies are given; without a logger or metrics those that do nothing are filled in.\<close>

record given =
  gv_Snapshots :: bool
  gv_Evaluator :: bool

definition http_New :: "Config \<Rightarrow> given \<Rightarrow> string + Config" where
  "http_New cfg gv =
     (if \<not> gv_Snapshots gv then Inl ''httpx: Deps.Snapshots is required''
      else if \<not> gv_Evaluator gv then Inl ''httpx: Deps.Evaluator is required''
      else Inr (withDefaults cfg))"

record httpServer =
  hs_Addr :: string
  hs_ReadHeaderTimeout :: int
  hs_ReadTimeout :: int
  hs_WriteTimeout :: int
  hs_IdleTimeout :: int

definition newHTTPServer :: "Config \<Rightarrow> string \<Rightarrow> httpServer" where
  "newHTTPServer cfg addr =
     \<lparr>hs_Addr = addr, hs_ReadHeaderTimeout = cfg_ReadHeaderTimeout cfg, hs_ReadTimeout = cfg_ReadTimeout cfg,
      hs_WriteTimeout = cfg_WriteTimeout cfg, hs_IdleTimeout = cfg_IdleTimeout cfg\<rparr>"

text \<open>The addresses that are bound, what the accept loops have sent, and whether the shutdown has begun.\<close>

record Server =
  sv_listeners :: "string list"
  sv_errs :: "string option list"
  sv_closing :: bool

definition idle_server :: Server where
  "idle_server = \<lparr>sv_listeners = [], sv_errs = [], sv_closing = False\<rparr>"

text \<open>Binding both addresses; an error comes with the listeners that stay bound.\<close>

definition server_Start :: "string + string \<Rightarrow> string + string \<Rightarrow> Server \<Rightarrow> (string \<times> string list) + Server" where
  "server_Start eval admin sv =
     (case eval of
        Inl e \<Rightarrow> Inl (e, [])
      | Inr evalLn \<Rightarrow>
          (case admin of
             Inl e \<Rightarrow> Inl (e, remove1 evalLn [evalLn])
           | Inr adminLn \<Rightarrow> Inr (sv\<lparr>sv_listeners := [evalLn, adminLn]\<rparr>)))"

definition boundAddr :: "nat \<Rightarrow> Server \<Rightarrow> string" where
  "boundAddr i sv = (if i \<ge> length (sv_listeners sv) then [] else sv_listeners sv ! i)"

definition EvalAddr :: "Server \<Rightarrow> string" where "EvalAddr = boundAddr 0"
definition AdminAddr :: "Server \<Rightarrow> string" where "AdminAddr = boundAddr 1"

text \<open>How an accept loop ends. The boundary of \<^verbatim>\<open>safe.Go\<close> ends the goroutine of one that panics, and nothing is sent.\<close>

datatype serve_end = ServerClosed | ServeFailed string | ServePanicked

definition serve_goroutine :: "serve_end \<Rightarrow> Server \<Rightarrow> Server" where
  "serve_goroutine e sv =
     (case e of
        ServerClosed \<Rightarrow> sv\<lparr>sv_errs := sv_errs sv @ [None]\<rparr>
      | ServeFailed m \<Rightarrow> sv\<lparr>sv_errs := sv_errs sv @ [Some m]\<rparr>
      | ServePanicked \<Rightarrow> sv)"

text \<open>
  The requests in flight on one listener when it is drained: when the last of them ends, if it ever does, and the error
  of closing the listener. \<^verbatim>\<open>http.Server.Shutdown\<close> waits until they have ended, or until its context is
  done; without a deadline (\<^const>\<open>None\<close>) it may wait for ever. Its result is the time it took and its error;
  \<^const>\<open>None\<close> says that it never returns.
\<close>

record in_flight =
  fl_idle :: "nat option"
  fl_close :: "string option"

definition deadline_exceeded :: string where "deadline_exceeded = ''context deadline exceeded''"

definition http_Shutdown :: "int option \<Rightarrow> in_flight \<Rightarrow> (int \<times> string option) option" where
  "http_Shutdown deadline f =
     (case deadline of
        None \<Rightarrow> (case fl_idle f of None \<Rightarrow> None | Some d \<Rightarrow> Some (int d, fl_close f))
      | Some t \<Rightarrow>
          (case fl_idle f of
             None \<Rightarrow> Some (max 0 t, Some deadline_exceeded)
           | Some d \<Rightarrow> if int d \<le> max 0 t then Some (int d, fl_close f) else Some (max 0 t, Some deadline_exceeded)))"

text \<open>Both servers are drained side by side and their errors joined; only the first call does anything.\<close>

definition server_Shutdown :: "int option \<Rightarrow> in_flight \<Rightarrow> in_flight \<Rightarrow> Server \<Rightarrow> ((string list \<times> int) \<times> Server) option" where
  "server_Shutdown deadline eval admin sv =
     (if sv_closing sv then Some (([], 0), sv)
      else (case (http_Shutdown deadline eval, http_Shutdown deadline admin) of
              (Some (d, evalErr), Some (d', adminErr)) \<Rightarrow>
                Some ((List.map_filter (\<lambda>e. e) [evalErr, adminErr], max d d'), sv\<lparr>sv_closing := True\<rparr>)
            | _ \<Rightarrow> None))"

section \<open>The process\<close>

text \<open>What happens while the process runs: a signal, or the end of an accept loop.\<close>

datatype life = Signalled | ServeEnds serve_end

text \<open>
  The \<^verbatim>\<open>select\<close> of \<^verbatim>\<open>run\<close>: it waits for a signal or for what an accept loop sends. \<^const>\<open>None\<close> is a process that still runs.
\<close>

datatype woken = BySignal | ByListener "string option"

fun await :: "life list \<Rightarrow> Server \<Rightarrow> (woken \<times> Server) option" where
  "await [] sv = (case sv_errs sv of [] \<Rightarrow> None | e # es \<Rightarrow> Some (ByListener e, sv\<lparr>sv_errs := es\<rparr>))"
| "await (l # ls) sv =
     (case sv_errs sv of
        e # es \<Rightarrow> Some (ByListener e, sv\<lparr>sv_errs := es\<rparr>)
      | [] \<Rightarrow>
          (case l of
             Signalled \<Rightarrow> Some (BySignal, sv)
           | ServeEnds e \<Rightarrow> await ls (serve_goroutine e sv)))"

record world_of_run =
  wr_host :: host
  wr_args :: "string list"
  wr_bind_eval :: "string + string"
  wr_bind_admin :: "string + string"
  wr_life :: "life list"
  wr_eval_flight :: in_flight
  wr_admin_flight :: in_flight

text \<open>
  Where \<^verbatim>\<open>run\<close> is: it serves, it hangs in the drain, or it has returned, with its errors and the time the drain
  took, if there was one.
\<close>

datatype run_end = StillServing | HangsInShutdown | Returned "string list" "int option"

text \<open>After the \<^verbatim>\<open>select\<close>: a failed listener drains without a deadline and is returned as it is, everything else drains
  within the time configured.\<close>

definition run_ending :: "world_of_run \<Rightarrow> options \<Rightarrow> woken \<times> Server \<Rightarrow> run_end" where
  "run_ending w opts p =
     (case p of
        (ByListener (Some e), sv) \<Rightarrow>
          (case server_Shutdown None (wr_eval_flight w) (wr_admin_flight w) sv of
             None \<Rightarrow> HangsInShutdown
           | Some ((errs, d), sv) \<Rightarrow> Returned [e] (Some d))
      | (_, sv) \<Rightarrow>
          (case server_Shutdown (Some (opt_shutdownTimeout opts)) (wr_eval_flight w) (wr_admin_flight w) sv of
             None \<Rightarrow> HangsInShutdown
           | Some ((errs, d), sv) \<Rightarrow> Returned errs (Some d)))"

definition flagd_run :: "world_of_run \<Rightarrow> run_end" where
  "flagd_run w =
     (case parseOptions (wr_host w) (wr_args w) of
        Inl e \<Rightarrow> Returned [e] None
      | Inr opts \<Rightarrow>
          (case parseLevel (opt_logLevel opts) of
             Inl e \<Rightarrow> Returned [''unknown log level '' @ e] None
           | Inr level \<Rightarrow>
               (case http_New (server_config opts) \<lparr>gv_Snapshots = True, gv_Evaluator = True\<rparr> of
                  Inl e \<Rightarrow> Returned [e] None
                | Inr cfg \<Rightarrow>
                    (case server_Start (wr_bind_eval w) (wr_bind_admin w) idle_server of
                       Inl (e, left) \<Rightarrow> Returned [e] None
                     | Inr sv \<Rightarrow>
                         (case await (wr_life w) sv of
                            None \<Rightarrow> StillServing
                          | Some p \<Rightarrow> run_ending w opts p)))))"

text \<open>The exit status of \<^verbatim>\<open>main\<close>; \<^const>\<open>None\<close> is a process that has not exited.\<close>

definition exit_status :: "world_of_run \<Rightarrow> nat option" where
  "exit_status w =
     (case flagd_run w of Returned errs d \<Rightarrow> Some (if errs = [] then 0 else 1) | _ \<Rightarrow> None)"

section \<open>Properties\<close>

lemma splitCSV_items:
  "p \<in> set (splitCSV s) \<Longrightarrow> p \<noteq> [] \<and> (\<exists>q \<in> set (strings_Split s (CHR '','')). p = strings_TrimSpace q)"
  by (auto simp: splitCSV_def split: if_splits)

text \<open>No timeout is left at zero, which for \<^verbatim>\<open>net/http\<close> means for ever.\<close>

lemma timeouts_set:
  "cfg = withDefaults c \<Longrightarrow> s = newHTTPServer cfg a \<Longrightarrow>
     0 < hs_ReadHeaderTimeout s \<and> 0 < hs_ReadTimeout s \<and> 0 < hs_WriteTimeout s \<and> 0 < hs_IdleTimeout s \<and>
     0 < cfg_HandlerTimeout cfg \<and> 0 < cfg_MaxBodyBytes cfg \<and> 0 < cfg_MaxBatchFlags cfg"
  by (simp add: withDefaults_def newHTTPServer_def second_def)

lemma await_ends:
  "sv_errs sv = [] \<Longrightarrow>
     await ls sv = None \<longleftrightarrow> list_all (\<lambda>l. l = ServeEnds ServePanicked) ls"
proof (induction ls arbitrary: sv)
  case (Cons l ls)
  show ?case
  proof (cases l)
    case (ServeEnds e)
    then show ?thesis
      using Cons by (cases e; cases ls) (auto simp: serve_goroutine_def)
  qed (use Cons in simp)
qed simp

text \<open>The options of a process that starts: they are read, the log level is known, and both addresses are bound.\<close>

definition starts :: "world_of_run \<Rightarrow> options option" where
  "starts w =
     (case (parseOptions (wr_host w) (wr_args w), wr_bind_eval w, wr_bind_admin w) of
        (Inr opts, Inr evalLn, Inr adminLn) \<Rightarrow>
          (case parseLevel (opt_logLevel opts) of Inl e \<Rightarrow> None | Inr level \<Rightarrow> Some opts)
      | _ \<Rightarrow> None)"

text \<open>What ends a process that has started: the first event that is not a panic of an accept loop.\<close>

definition first_end :: "world_of_run \<Rightarrow> life option" where
  "first_end w = find (\<lambda>l. l \<noteq> ServeEnds ServePanicked) (wr_life w)"

lemma await_first:
  "sv_errs sv = [] \<Longrightarrow>
     map_option fst (await ls sv) =
       map_option (\<lambda>l. case l of Signalled \<Rightarrow> BySignal | ServeEnds (ServeFailed m) \<Rightarrow> ByListener (Some m) | _ \<Rightarrow> ByListener None)
         (find (\<lambda>l. l \<noteq> ServeEnds ServePanicked) ls)"
proof (induction ls arbitrary: sv)
  case (Cons l ls)
  show ?case
  proof (cases l)
    case (ServeEnds e)
    then show ?thesis
      using Cons by (cases e; cases ls) (auto simp: serve_goroutine_def)
  qed (use Cons in simp)
qed simp

lemma run_started:
  assumes "starts w = Some opts"
  obtains sv where "sv_errs sv = []" "\<not> sv_closing sv"
    "flagd_run w = (case await (wr_life w) sv of None \<Rightarrow> StillServing | Some p \<Rightarrow> run_ending w opts p)"
proof -
  obtain level evalLn adminLn where o: "parseOptions (wr_host w) (wr_args w) = Inr opts"
      "parseLevel (opt_logLevel opts) = Inr level" "wr_bind_eval w = Inr evalLn" "wr_bind_admin w = Inr adminLn"
    using assms by (auto simp: starts_def split: sum.splits)
  show thesis
    by (rule that [of "idle_server\<lparr>sv_listeners := [evalLn, adminLn]\<rparr>"])
      (simp_all add: o flagd_run_def http_New_def server_Start_def idle_server_def)
qed

lemma run_not_started:
  assumes "starts w = None"
  shows "\<exists>e. flagd_run w = Returned [e] None"
  using assms
  by (auto simp: starts_def flagd_run_def http_New_def server_Start_def split: sum.splits)

lemma serve_not_closing: "sv_closing (serve_goroutine e sv) = sv_closing sv"
  by (simp add: serve_goroutine_def split: serve_end.split)

lemma await_not_closing: "await ls sv = Some (k, sv') \<Longrightarrow> sv_closing sv' = sv_closing sv"
  by (induction ls sv rule: await.induct)
    (auto simp: serve_not_closing split: list.splits life.splits)

text \<open>What the requests in flight allow: a listener that is idle within a time, and closes without an error.\<close>

definition drains_within :: "int \<Rightarrow> in_flight \<Rightarrow> bool" where
  "drains_within t f \<longleftrightarrow>
     (case fl_idle f of None \<Rightarrow> False | Some d \<Rightarrow> int d \<le> max 0 t) \<and> fl_close f = None"

lemma bounded_shutdown:
  assumes "\<not> sv_closing sv"
  shows "\<exists>errs d sv'. server_Shutdown (Some t) eval admin sv = Some ((errs, d), sv') \<and> d \<le> max 0 t
    \<and> (errs = [] \<longleftrightarrow> drains_within t eval \<and> drains_within t admin)"
proof -
  have one: "\<exists>d e. http_Shutdown (Some t) f = Some (d, e) \<and> d \<le> max 0 t \<and> (e = None \<longleftrightarrow> drains_within t f)" for f
    by (cases "fl_idle f") (auto simp: http_Shutdown_def drains_within_def)
  obtain d e d' e' where "http_Shutdown (Some t) eval = Some (d, e)" "http_Shutdown (Some t) admin = Some (d', e')"
      "d \<le> max 0 t" "d' \<le> max 0 t" "e = None \<longleftrightarrow> drains_within t eval" "e' = None \<longleftrightarrow> drains_within t admin"
    using one [of eval] one [of admin] by blast
  then show ?thesis
    using assms by (cases e; cases e') (simp_all add: server_Shutdown_def map_filter_simps)
qed

lemma unbounded_shutdown:
  assumes "\<not> sv_closing sv"
  shows "server_Shutdown None eval admin sv =
    (case (fl_idle eval, fl_idle admin) of
       (Some d, Some d') \<Rightarrow>
         Some ((List.map_filter (\<lambda>e. e) [fl_close eval, fl_close admin], max (int d) (int d')), sv\<lparr>sv_closing := True\<rparr>)
     | _ \<Rightarrow> None)"
  using assms by (auto simp: server_Shutdown_def http_Shutdown_def split: option.split)

lemma run_ends:
  assumes "starts w = Some opts"
  shows "case first_end w of
       None \<Rightarrow> flagd_run w = StillServing
     | Some (ServeEnds (ServeFailed m)) \<Rightarrow>
         flagd_run w =
           (case (fl_idle (wr_eval_flight w), fl_idle (wr_admin_flight w)) of
              (Some d, Some d') \<Rightarrow> Returned [m] (Some (max (int d) (int d')))
            | _ \<Rightarrow> HangsInShutdown)
     | Some _ \<Rightarrow>
         \<exists>errs d. flagd_run w = Returned errs (Some d) \<and> d \<le> max 0 (opt_shutdownTimeout opts)
           \<and> (errs = [] \<longleftrightarrow> drains_within (opt_shutdownTimeout opts) (wr_eval_flight w)
                \<and> drains_within (opt_shutdownTimeout opts) (wr_admin_flight w))"
proof -
  obtain sv where sv: "sv_errs sv = []" "\<not> sv_closing sv"
    and r: "flagd_run w = (case await (wr_life w) sv of None \<Rightarrow> StillServing | Some p \<Rightarrow> run_ending w opts p)"
    using run_started [OF assms] by blast
  have first: "map_option fst (await (wr_life w) sv) =
      map_option (\<lambda>l. case l of Signalled \<Rightarrow> BySignal | ServeEnds (ServeFailed m) \<Rightarrow> ByListener (Some m) | _ \<Rightarrow> ByListener None)
        (first_end w)"
    unfolding first_end_def by (rule await_first [OF sv(1)])
  show ?thesis
  proof (cases "await (wr_life w) sv")
    case None
    then show ?thesis using first r by simp
  next
    case (Some p)
    obtain k sv' where p: "p = (k, sv')" by (rule prod.exhaust)
    obtain l where l: "first_end w = Some l" "k = (case l of Signalled \<Rightarrow> BySignal | ServeEnds (ServeFailed m) \<Rightarrow> ByListener (Some m) | _ \<Rightarrow> ByListener None)"
      using first Some p by (cases "first_end w") auto
    have open': "\<not> sv_closing sv'" using await_not_closing Some p sv(2) by blast
    note b = bounded_shutdown [OF open', of "opt_shutdownTimeout opts" "wr_eval_flight w" "wr_admin_flight w"]
      and u = unbounded_shutdown [OF open', of "wr_eval_flight w" "wr_admin_flight w"]
    show ?thesis
      using b u by (auto simp: r Some p l run_ending_def split: life.split serve_end.split option.split)
  qed
qed

text \<open>C40. How the process ends. A process that cannot read its options, knows no such log level or cannot bind both
  addresses returns its error without a drain and leaves nothing bound. Once it has started it serves until a
  signal comes or an accept loop returns. After a signal, or a loop that returned without an error, it has returned
  within the time configured for the drain, whatever the requests in flight do, and without an error exactly if
  both listeners were idle within that time and closed cleanly. After a loop that failed, the drain has no deadline:
  the process returns that error when the last request in flight on either listener has ended, and hangs if one never
  does. The exit status is 0 for no error and 1 for any, and there is none while the process serves or hangs.
\<close>

theorem process_ends:
  "(case starts w of
      None \<Rightarrow> (\<exists>e. flagd_run w = Returned [e] None)
    | Some opts \<Rightarrow>
        (case first_end w of
           None \<Rightarrow> flagd_run w = StillServing
         | Some (ServeEnds (ServeFailed m)) \<Rightarrow>
             flagd_run w =
               (case (fl_idle (wr_eval_flight w), fl_idle (wr_admin_flight w)) of
                  (Some d, Some d') \<Rightarrow> Returned [m] (Some (max (int d) (int d')))
                | _ \<Rightarrow> HangsInShutdown)
         | Some _ \<Rightarrow>
             (\<exists>errs d. flagd_run w = Returned errs (Some d) \<and> d \<le> max 0 (opt_shutdownTimeout opts)
                \<and> (errs = [] \<longleftrightarrow> drains_within (opt_shutdownTimeout opts) (wr_eval_flight w)
                     \<and> drains_within (opt_shutdownTimeout opts) (wr_admin_flight w)))))
   \<and> (\<forall>e left. server_Start (wr_bind_eval w) (wr_bind_admin w) idle_server = Inl (e, left) \<longrightarrow> left = [])
   \<and> exit_status w = (case flagd_run w of Returned [] d \<Rightarrow> Some 0 | Returned (e # es) d \<Rightarrow> Some 1 | _ \<Rightarrow> None)"
proof (intro conjI)
  show "\<forall>e left. server_Start (wr_bind_eval w) (wr_bind_admin w) idle_server = Inl (e, left) \<longrightarrow> left = []"
    by (auto simp: server_Start_def split: sum.splits)
  show "exit_status w = (case flagd_run w of Returned [] d \<Rightarrow> Some 0 | Returned (e # es) d \<Rightarrow> Some 1 | _ \<Rightarrow> None)"
    by (simp add: exit_status_def split: run_end.split list.split)
qed (use run_not_started [of w] run_ends [of w] in \<open>auto split: option.split\<close>)

text \<open>The plain case: default options, both addresses bound; one request on the evaluation listener.\<close>

definition quiet_world :: "nat option \<Rightarrow> life list \<Rightarrow> world_of_run" where
  "quiet_world busy ls =
     \<lparr>wr_host = \<lparr>ho_environ = [], ho_name = None, ho_duration = (\<lambda>_. None), ho_int = (\<lambda>_. None), ho_flags = (\<lambda>_ o'. Inr o')\<rparr>,
      wr_args = [], wr_bind_eval = Inr '':8080'', wr_bind_admin = Inr '':9090'', wr_life = ls,
      wr_eval_flight = \<lparr>fl_idle = busy, fl_close = None\<rparr>, wr_admin_flight = \<lparr>fl_idle = Some 0, fl_close = None\<rparr>\<rparr>"

lemma quiet_starts: "\<exists>opts. starts (quiet_world busy ls) = Some opts \<and> opt_shutdownTimeout opts = 25 * second"
proof -
  have "parseLevel ''info'' = Inr LevelInfo" by code_simp
  then show ?thesis
    by (simp add: starts_def quiet_world_def parseOptions_def environ_options_def getenv_def getenv_parsed_def gm_get_def)
qed

text \<open>A request that never ends costs the clean exit after a signal, and the exit itself after a failed listener.\<close>

theorem process_ends_witness:
  "exit_status (quiet_world (Some 7) [Signalled]) = Some 0 \<and> exit_status (quiet_world None [Signalled]) = Some 1
   \<and> exit_status (quiet_world (Some 7) [ServeEnds (ServeFailed ''eval'')]) = Some 1
   \<and> exit_status (quiet_world None [ServeEnds (ServeFailed ''eval'')]) = None"
proof -
  have ends: "first_end (quiet_world busy [Signalled]) = Some Signalled"
    "first_end (quiet_world busy [ServeEnds (ServeFailed m)]) = Some (ServeEnds (ServeFailed m))" for busy m
    by (simp_all add: first_end_def quiet_world_def)
  have flight: "wr_eval_flight (quiet_world busy ls) = \<lparr>fl_idle = busy, fl_close = None\<rparr>"
    "wr_admin_flight (quiet_world busy ls) = \<lparr>fl_idle = Some 0, fl_close = None\<rparr>" for busy ls
    by (simp_all add: quiet_world_def)
  show ?thesis
    using process_ends [of "quiet_world (Some 7) [Signalled]"] process_ends [of "quiet_world None [Signalled]"]
      process_ends [of "quiet_world (Some 7) [ServeEnds (ServeFailed ''eval'')]"]
      process_ends [of "quiet_world None [ServeEnds (ServeFailed ''eval'')]"]
      quiet_starts [of "Some 7" "[Signalled]"] quiet_starts [of None "[Signalled]"]
      quiet_starts [of "Some 7" "[ServeEnds (ServeFailed ''eval'')]"] quiet_starts [of None "[ServeEnds (ServeFailed ''eval'')]"]
    by (auto simp: ends flight drains_within_def second_def split: list.splits)
qed

text \<open>
  Two gaps. An accept loop that panics is contained by its boundary, which tells nobody: the process goes on with
  a listener that accepts nothing. And after a loop that failed the drain has no bound: one request that never ends on
  the other listener keeps the process from exiting.
\<close>

lemma panicked_listener_unseen: "exit_status (quiet_world busy [ServeEnds ServePanicked, ServeEnds ServePanicked]) = None"
proof -
  have "first_end (quiet_world busy [ServeEnds ServePanicked, ServeEnds ServePanicked]) = None"
    by (simp add: first_end_def quiet_world_def)
  then show ?thesis
    using quiet_starts [of busy "[ServeEnds ServePanicked, ServeEnds ServePanicked]"] run_ends
    by (fastforce simp: exit_status_def)
qed

lemma failed_listener_unbounded:
  "flagd_run (quiet_world None [ServeEnds (ServeFailed m)]) = HangsInShutdown"
proof -
  obtain opts where "starts (quiet_world None [ServeEnds (ServeFailed m)]) = Some opts" using quiet_starts by blast
  from run_ends [OF this] show ?thesis
    by (simp add: first_end_def quiet_world_def)
qed

end
