(* ===== verification/Flagd_Obs.thy ===== *)
theory Flagd_Obs
  imports Obs_Metrics Flagd "HOL-Library.Multiset"
begin

text \<open>
  The server and its metrics together: the records that the requests of both listeners send
  (\<^verbatim>\<open>internal/transport/http\<close>) are the calls of the recorder over the expvar registry (\<^verbatim>\<open>internal/obs\<close>), as
  \<^verbatim>\<open>cmd/flagd/main.go\<close> wires them. Requests are served at the same time, so their records reach the
  registry in any order.
\<close>

section \<open>Handlers leave the request counter alone\<close>

fun unrequested :: "act \<Rightarrow> bool" where
  "unrequested (Emit (MHTTPRequest route meth status)) = False"
| "unrequested _ = True"

definition quiet :: "'a run \<Rightarrow> bool" where
  "quiet m \<longleftrightarrow> (\<forall>n. list_all unrequested (fst (m n)))"

named_theorems quiet_intros \<open>computations that record no request\<close>

lemma quiet_ret [quiet_intros]: "quiet (ret x)"
  by (simp add: quiet_def ret_def)

lemma quiet_panic [quiet_intros]: "quiet (panic v)"
  by (simp add: quiet_def panic_def)

lemma quiet_perform [quiet_intros]: "list_all unrequested as \<Longrightarrow> quiet (perform as)"
  by (simp add: quiet_def perform_def)

lemma quiet_pin [quiet_intros]: "quiet (pin src env)"
  by (simp add: quiet_def pin_def)

lemma quiet_andThen [quiet_intros]:
  assumes "quiet m" and "\<And>x. quiet (k x)"
  shows "quiet (andThen m k)"
proof -
  have "list_all unrequested (fst (andThen m k n))" for n
  proof -
    obtain as n' r where m: "m n = (as, n', r)" by (rule prod_cases3)
    have as: "list_all unrequested as" using assms(1) m unfolding quiet_def by (metis fst_conv)
    show ?thesis
    proof (cases r)
      case (Inr x)
      have "list_all unrequested (fst (k x n'))" using assms(2) by (simp add: quiet_def)
      then show ?thesis using as by (auto simp: andThen_def m Inr split: prod.split)
    qed (simp add: andThen_def m as)
  qed
  then show ?thesis by (simp add: quiet_def)
qed

lemma unrequested_error [simp]: "list_all unrequested (write_error t now code msg)"
  by (simp add: write_error_def)

lemma unrequested_internal [simp]: "list_all unrequested (WriteInternal t now)"
  by (simp add: WriteInternal_def)

lemma quiet_fail [quiet_intros]: "quiet (fail cx code msg)"
  by (simp add: fail_def quiet_perform)

lemma quiet_writeJSON [quiet_intros]: "quiet (writeJSON cx status doc)"
  by (simp add: writeJSON_def quiet_perform split: option.split)

lemma quiet_generationOf [quiet_intros]: "quiet (generationOf s)"
  by (simp add: generationOf_def quiet_intros split: option.split)

lemma quiet_validateEnv [quiet_intros]: "quiet (validateEnv cx env)"
  by (simp add: validateEnv_def quiet_intros)

lemma quiet_http_finish [quiet_intros]: "quiet (http_finish cx key env ec res gen)"
  by (simp add: http_finish_def Let_def quiet_intros)

lemma unrequested_report: "list_all unrequested (report (Some Reporter) site v)"
  by (simp add: report_def Reporter_def)

lemma quiet_evaluateOne [quiet_intros]:
  assumes "cx_onPanic cx = Some Reporter"
  shows "quiet (evaluateOne cx ev snap key env ec def1)"
  using assms unrequested_report
  by (auto simp: evaluateOne_def safe_Do_def Let_def intro!: quiet_intros split: option.split sum.split)

lemma quiet_batch_results [quiet_intros]:
  "cx_onPanic cx = Some Reporter \<Longrightarrow> quiet (batch_results cx ev snap env ec fs)"
  by (induction fs) (auto intro!: quiet_intros split: option.split)

lemma quiet_decodeJSON [quiet_intros]: "quiet (decodeJSON scan cx into z rq)"
  by (auto simp: decodeJSON_def intro!: quiet_intros split: sum.split)

lemma quiet_evaluation [quiet_intros]:
  assumes "cx_onPanic cx = Some Reporter"
  shows "quiet (handleEvaluate scan cx ev src rq)" "quiet (handleEvaluateBatch scan cx ev src rq)"
  using assms
  by (auto simp: handleEvaluate_def evaluate_decoded_def handleEvaluateBatch_def batch_decoded_def writeTooManyFlags_def
      intro!: quiet_intros split: option.split)

lemma quiet_health_rows [quiet_intros]: "quiet (health_rows cx dp names)"
  by (induction names) (auto simp: health_row_def Let_def intro!: quiet_intros)

lemma quiet_envHealth [quiet_intros]: "quiet (envHealth cx dp)"
  using quiet_health_rows by (auto simp: quiet_def envHealth_def)

lemma quiet_mountHealth: "mountHealth cx dp rq = Some h \<Longrightarrow> quiet h"
  by (auto simp: mountHealth_def handleHealth_def handleLive_def handleReady_def Let_def
      intro!: quiet_intros split: if_splits prod.split)

lemma quiet_handleApplyLayer [quiet_intros]: "quiet (handleApplyLayer cx dp rq)"
proof -
  have "list_all unrequested (concat (map (\<lambda>a. [Emit (MSnapshotGeneration (f a) (g a)), Emit (MSnapshotFlags (h a) (i a))]) xs))"
    for f g h i and xs :: "AppliedEnv list"
    by (induction xs) simp_all
  then show ?thesis
    by (auto simp: handleApplyLayer_def intro!: quiet_intros split: option.split sum.split)
qed

lemma quiet_snapshot_debug: "quiet (snapshot_debug cx dp env key keys)"
  by (auto simp: snapshot_debug_def Let_def intro!: quiet_intros split: option.split bool.split)

lemma quiet_handleSnapshotDebug [quiet_intros]: "quiet (handleSnapshotDebug cx dp env rq)"
  using quiet_snapshot_debug by (auto simp: quiet_def handleSnapshotDebug_def)

text \<open>The redirect of \<^verbatim>\<open>net/http\<close> and the expvar page only write.\<close>

definition silent_pages :: "Deps \<Rightarrow> bool" where
  "silent_pages dp \<longleftrightarrow> (\<forall>rq. list_all unrequested (dp_redirect dp rq)) \<and> list_all unrequested (dp_Expvar dp)"

lemma quiet_muxes:
  assumes "silent_pages dp" and "cx_onPanic cx = Some Reporter"
  shows "quiet (eval_mux cx dp rq)" "quiet (admin_mux cx dp rq)"
  using assms quiet_mountHealth [of cx dp rq]
  by (auto simp: eval_mux_def admin_mux_def silent_pages_def handleNotFound_def intro!: quiet_intros split: option.split)

section \<open>Every answered request is counted once\<close>

datatype visit = EvalVisit world request | AdminVisit world request

fun handle :: "Config \<Rightarrow> Deps \<Rightarrow> visit \<Rightarrow> outcome" where
  "handle cfg dp (EvalVisit w rq) = EvalHandler cfg dp w rq"
| "handle cfg dp (AdminVisit w rq) = AdminHandler cfg dp w rq"

fun is_request :: "event \<Rightarrow> bool" where
  "is_request (MHTTPRequest route meth status) = True"
| "is_request _ = False"

lemma emitted_unrequested: "list_all unrequested as \<Longrightarrow> filter is_request (emitted as) = []"
proof (induction as)
  case (Cons a as)
  have "\<not> is_request e" if "a = Emit e" for e using Cons.prems that by (cases e) simp_all
  then show ?case using Cons by (cases a) simp_all
qed simp

lemma chain_panic_unrequested: "filter is_request (chain_panic dl p) = []"
  by (cases "(dl, p)" rule: chain_panic.cases) auto

lemma listener_requests:
  assumes "\<And>t. quiet (mux \<lparr>cx_cfg = withDefaults cfg, cx_onPanic = Some Reporter, cx_trace = t, cx_now = w_now w\<rparr> dp rq)"
  shows "length (filter is_request (emitted (fst (listener mux cfg dp w rq)))) = (if served (listener mux cfg dp w rq) = None then 0 else 1)"
proof -
  let ?h = "\<lambda>t. outcome_of (mux \<lparr>cx_cfg = withDefaults cfg, cx_onPanic = Some Reporter, cx_trace = t, cx_now = w_now w\<rparr> dp rq)"
  have "list_all unrequested (fst (?h t))" for t
    using assms [of t] by (auto simp: quiet_def outcome_of_def split: prod.split sum.split) (metis fst_conv)+
  then have "filter is_request (emitted (fst (?h (request_trace w rq)))) = []" by (rule emitted_unrequested)
  then show ?thesis
    using wrap_response [of w rq ?h] by (simp add: listener_def chain_panic_unrequested split: option.split)
qed

lemma handle_requests:
  "silent_pages dp \<Longrightarrow>
     length (filter is_request (emitted (fst (handle cfg dp v)))) = (if served (handle cfg dp v) = None then 0 else 1)"
  by (cases v)
    (simp_all only: handle.simps EvalHandler_def AdminHandler_def, auto simp only: http_context.simps intro!: listener_requests quiet_muxes)

text \<open>What reaches the recorder: the records with the time each measured.\<close>

definition recorded :: "(event \<times> int) list \<Rightarrow> call list" where
  "recorded es = List.map_filter (\<lambda>(e, d). event_call e d) es"

lemma metric_names_distinct:
  "MetricEvaluationsTotal \<noteq> MetricHTTPRequestsTotal" "MetricFallbackTotal \<noteq> MetricHTTPRequestsTotal"
  "MetricConfigApplyTotal \<noteq> MetricHTTPRequestsTotal" "MetricPanicsTotal \<noteq> MetricHTTPRequestsTotal"
  by (simp_all add: MetricEvaluationsTotal_def MetricHTTPRequestsTotal_def MetricFallbackTotal_def
      MetricConfigApplyTotal_def MetricPanicsTotal_def)

lemma recorded_requests:
  "count_list (concat (map call_counters (recorded es))) MetricHTTPRequestsTotal = length (filter is_request (map fst es))"
proof (induction es)
  case (Cons x es)
  obtain e d where "x = (e, d)" by (rule prod.exhaust)
  then show ?case
    using Cons metric_names_distinct by (cases e) (simp_all add: recorded_def map_filter_simps)
qed (simp add: recorded_def map_filter_simps)

lemma requests_of_all:
  assumes "silent_pages dp"
  shows "length (filter is_request (concat (map (\<lambda>v. emitted (fst (handle cfg dp v))) vs))) =
    length (filter (\<lambda>v. served (handle cfg dp v) \<noteq> None) vs)"
  by (induction vs) (simp_all add: handle_requests [OF assms])

text \<open>C38. The request counter counts requests. Whatever requests both listeners serve, with whatever deadlines, panics and
  aborts, and in whatever order their records reach the registry, recording them never panics, and the series of
  \<^verbatim>\<open>flagd_http_requests_total\<close>, its overflow series included, add up to the number of requests that were
  answered: none is counted twice, and none is lost but those whose connection was dropped on purpose.\<close>

theorem requests_counted:
  assumes "silent_pages dp"
    and "mset (map fst es) = mset (concat (map (\<lambda>v. emitted (fst (handle cfg dp v))) vs))"
  shows "\<exists>m. record_calls (expvarMetrics tbl) (recorded es) (SetMaxSeries N NewExpvarMetrics) = Some m
    \<and> metric_total MetricHTTPRequestsTotal m = of_nat (length (filter (\<lambda>v. served (handle cfg dp v) \<noteq> None) vs))"
proof -
  have "mset (filter is_request (map fst es)) =
      mset (filter is_request (concat (map (\<lambda>v. emitted (fst (handle cfg dp v))) vs)))"
    using assms(2) by (simp only: mset_filter)
  then have n: "length (filter is_request (map fst es)) = length (filter (\<lambda>v. served (handle cfg dp v) \<noteq> None) vs)"
    using requests_of_all [OF assms(1), of cfg vs] by (metis size_mset)
  have "MetricHTTPRequestsTotal \<in> set counter_names" by (simp add: counter_names_def)
  then show ?thesis
    using expvar.does_calls [of tbl N "recorded es"] reg_ok_fresh(1) [of tbl N] reg_ok_fresh(2) n
    unfolding expvar.does_def by (fastforce simp: recorded_requests)
qed

text \<open>One request that is not found.\<close>

lemma not_found_served: "served (handle (cx_cfg demo_cx) demo_deps (EvalVisit demo_world (demo_get ''/nowhere''))) \<noteq> None"
proof -
  have "clean_path ''/nowhere''" by code_simp
  then have "eval_mux cx demo_deps (demo_get ''/nowhere'') = handleNotFound cx" for cx
    by (simp add: eval_mux_def demo_get_def mountHealth_def)
  then show ?thesis
    by (simp add: EvalHandler_def listener_def wrap_response handleNotFound_def fail_def perform_def outcome_of_def
        demo_world_def)
qed

theorem requests_counted_witness:
  "\<exists>m. record_calls (expvarMetrics (\<lambda>_. False))
       (recorded (map (\<lambda>e. (e, 5))
         (emitted (fst (handle (cx_cfg demo_cx) demo_deps (EvalVisit demo_world (demo_get ''/nowhere''))))))) (SetMaxSeries 9 NewExpvarMetrics)
     = Some m \<and> metric_total MetricHTTPRequestsTotal m = 1"
proof -
  let ?v = "EvalVisit demo_world (demo_get ''/nowhere'')"
  have "silent_pages demo_deps" by (simp add: silent_pages_def demo_deps_def)
  from requests_counted [OF this, of "map (\<lambda>e. (e, 5)) (emitted (fst (handle (cx_cfg demo_cx) demo_deps ?v)))" "cx_cfg demo_cx" "[?v]"
      "\<lambda>_. False" 9]
  show ?thesis using not_found_served by (simp add: comp_def del: handle.simps)
qed

end
