(* ===== verification/Obs_Registry.thy ===== *)
theory Obs_Registry
  imports Obs_Metrics
begin

text \<open>
  The names a process publishes (\<^verbatim>\<open>publishMap\<close> of \<^verbatim>\<open>internal/obs/metrics.go\<close>) over the global table of
  \<^verbatim>\<open>expvar\<close>, in which a name is registered once and for all and a second registration panics. The maps are shared by
  reference, so what a name stands for is the number of the map.
\<close>

datatype published = SharedMap nat | OtherVar

record expvars =
  ex_vars :: "(string, published) gomap"
  ex_next :: nat

definition expvar_NewMap :: "string \<Rightarrow> expvars \<Rightarrow> (nat \<times> expvars) option" where
  "expvar_NewMap name ex =
     (if gm_has (ex_vars ex) name then None
      else Some (ex_next ex,
        ex\<lparr>ex_vars := gm_set name (SharedMap (ex_next ex)) (ex_vars ex), ex_next := ex_next ex + 1\<rparr>))"

text \<open>The nanoseconds of the clock in base 36, as \<^verbatim>\<open>strconv.FormatInt\<close> writes them.\<close>

definition base36_digits :: string where
  "base36_digits = ''0123456789abcdefghijklmnopqrstuvwxyz''"

fun format36 :: "nat \<Rightarrow> string" where
  "format36 n = (if n < 36 then [base36_digits ! n] else format36 (n div 36) @ [base36_digits ! (n mod 36)])"

definition FormatInt36 :: "int \<Rightarrow> string" where
  "FormatInt36 i = (if i < 0 then CHR ''-'' # format36 (nat (- i)) else format36 (nat i))"

text \<open>\<^const>\<open>None\<close> is the panic of a name that is taken.\<close>

definition publishMap :: "string \<Rightarrow> int64 \<Rightarrow> expvars \<Rightarrow> (nat \<times> expvars) option" where
  "publishMap name nano ex =
     (case gm_get (ex_vars ex) name of
        Some (SharedMap m) \<Rightarrow> Some (m, ex)
      | Some OtherVar \<Rightarrow> expvar_NewMap (name @ ''_'' @ FormatInt36 (sint nano)) ex
      | None \<Rightarrow> expvar_NewMap name ex)"

text \<open>Every map in the table has a number below the next one, and no two names the same.\<close>

definition ex_ok :: "expvars \<Rightarrow> bool" where
  "ex_ok ex \<longleftrightarrow>
     (\<forall>name m. gm_get (ex_vars ex) name = Some (SharedMap m) \<longrightarrow> m < ex_next ex)
     \<and> (\<forall>a b m. gm_get (ex_vars ex) a = Some (SharedMap m) \<and> gm_get (ex_vars ex) b = Some (SharedMap m) \<longrightarrow> a = b)"

lemma ex_ok_NewMap: "ex_ok ex \<Longrightarrow> expvar_NewMap name ex = Some (m, ex') \<Longrightarrow> ex_ok ex'"
  by (fastforce simp: ex_ok_def expvar_NewMap_def split: if_splits)

lemma ex_ok_publishMap: "ex_ok ex \<Longrightarrow> publishMap name nano ex = Some (m, ex') \<Longrightarrow> ex_ok ex'"
  by (auto simp: publishMap_def dest: ex_ok_NewMap split: option.splits published.splits)

text \<open>
  A second registry of a name is no panic: it gets the very map of the first, so both write the same page; and
  registries of different names never share one.
\<close>

lemma published_once:
  assumes "publishMap name nano ex = Some (m, ex')" and "gm_get (ex_vars ex) name \<noteq> Some OtherVar"
  shows "publishMap name nano' ex' = Some (m, ex')"
  using assms
  by (auto simp: publishMap_def expvar_NewMap_def split: option.splits published.splits if_splits)

lemma published_apart:
  assumes "ex_ok ex" and "publishMap a n ex = Some (m, ex')" and "publishMap b n' ex' = Some (m', ex'')"
    and "a \<noteq> b" and "gm_get (ex_vars ex) a \<noteq> Some OtherVar" and "gm_get (ex_vars ex') b \<noteq> Some OtherVar"
  shows "m \<noteq> m'"
proof -
  have ok: "ex_ok ex'" by (rule ex_ok_publishMap [OF assms(1,2)])
  have a: "gm_get (ex_vars ex') a = Some (SharedMap m)"
    using assms(2,5) by (auto simp: publishMap_def expvar_NewMap_def split: option.splits published.splits if_splits)
  then have "m < ex_next ex'" using ok by (simp add: ex_ok_def)
  then show ?thesis
    using assms(3,4,6) a ok
    by (auto simp: publishMap_def expvar_NewMap_def ex_ok_def split: option.splits published.splits if_splits)
qed

text \<open>A name that is taken by something else is published under a name of its own, and panics only if that is taken too.\<close>

lemma publish_panics:
  "publishMap name nano ex = None \<longleftrightarrow>
     gm_get (ex_vars ex) name = Some OtherVar \<and> gm_has (ex_vars ex) (name @ ''_'' @ FormatInt36 (sint nano))"
  by (auto simp: publishMap_def expvar_NewMap_def gm_has_def split: option.splits published.splits)

end
