(* ===== verification/Spec2Isabelle.thy ===== *)
theory Spec2Isabelle
  imports Client_Options Client_Threads Flagd_Main Flagd_Obs Obs_Registry
begin

text \<open>
  A model of the feature flag service, a Go program, with the properties that make it correct.

  The program. A flag is defined in three layers: a base, shared by all environments, an overlay per
  environment, and a time-bound layer of operator overrides per environment. The store (\<^verbatim>\<open>internal/config\<close>)
  validates the layers, merges them into one resolved flag per key, quarantines the flags that fail, and publishes the rest
  as an immutable snapshot with a generation, waking its subscribers. The evaluator (\<^verbatim>\<open>internal/core\<close>) answers
  one flag for one context from a snapshot: kill switch, rules in order, percentage rollout by a stable
  hash, default; it never panics and always answers. The client (\<^verbatim>\<open>pkg/client\<close>) holds the current snapshot in
  memory and on disk, keeps it current over a push stream with heartbeats and a reconcile poll, and
  evaluates in process with the same evaluator. The daemon (\<^verbatim>\<open>cmd/flagd\<close>) serves evaluations and configuration
  pushes over HTTP (\<^verbatim>\<open>internal/transport\<close>), with traces, metrics and logs (\<^verbatim>\<open>internal/obs\<close>).

  The theories, in the order in which they build on each other.

  \<^item> \<^verbatim>\<open>Prelude\<close>: signed comparison of words, strings and decimal numbers, Go maps as sorted
    association lists, behind the locale \<^verbatim>\<open>keyed_map\<close>. \<^verbatim>\<open>Std_Strings\<close> and \<^verbatim>\<open>Std_Quote\<close>: what the program uses of
    \<^verbatim>\<open>strings\<close>, \<^verbatim>\<open>encoding/hex\<close>, \<^verbatim>\<open>unicode/utf8\<close> and \<^verbatim>\<open>strconv.Quote\<close>.
  \<^item> \<^verbatim>\<open>Core_Value\<close> (\<^verbatim>\<open>value.go\<close>, \<^verbatim>\<open>model.go\<close>, \<^verbatim>\<open>evalctx.go\<close>, \<^verbatim>\<open>reason.go\<close>, \<^verbatim>\<open>result.go\<close>): values, flags,
    contexts, results, the JSON form of a value.
  \<^item> \<^verbatim>\<open>Core_Semver\<close> (\<^verbatim>\<open>semver.go\<close>): precedence is a total order (C6) and the parser accepts exactly the versions (C7).
  \<^item> \<^verbatim>\<open>Core_Matcher\<close> (\<^verbatim>\<open>matcher.go\<close>): three-valued conditions, rules, and the observer hook, which may panic (C4, C5).
  \<^item> \<^verbatim>\<open>Core_Bucket\<close> (\<^verbatim>\<open>bucket.go\<close>): the key that is hashed (C8) and the reduction of the hash to 10000 buckets (C9), behind
    the locale \<^verbatim>\<open>bucket_hasher\<close>.
  \<^item> \<^verbatim>\<open>Core_Evaluator\<close> (\<^verbatim>\<open>evaluator.go\<close>, \<^verbatim>\<open>contract.go\<close>): the pipeline with its panic boundary (C1 to C3), against
    \<^verbatim>\<open>decide\<close>, the decision table a flag stands for. \<^verbatim>\<open>Core_Contract\<close>: what the evaluator may rely on when
    snapshots come from a validating provider, as the locale \<^verbatim>\<open>typed_snapshots\<close>.
  \<^item> \<^verbatim>\<open>Config_Layer\<close> (\<^verbatim>\<open>opt.go\<close>, \<^verbatim>\<open>layer.go\<close>), \<^verbatim>\<open>Config_Merge\<close> (\<^verbatim>\<open>merge.go\<close>, C15 and C16), \<^verbatim>\<open>Config_Validate\<close>
    (\<^verbatim>\<open>validate.go\<close>, C17), \<^verbatim>\<open>Config_Snapshot\<close> (\<^verbatim>\<open>snapshot.go\<close>), \<^verbatim>\<open>Config_Store\<close> (\<^verbatim>\<open>store.go\<close>).
  \<^item> \<^verbatim>\<open>Config_Publish\<close>: the effect of a write on one environment, and the step relation of the store with its
    reachable states. \<^verbatim>\<open>Config_Serve\<close> (C10 to C14) and \<^verbatim>\<open>Config_Ops\<close> (C18, C19: a kill switch holds through
    writes and rebuilds, lands, and expires, stated over the entries of the raw layer): what the store promises, and that its
    snapshots meet the evaluator's contract, by interpreting \<^verbatim>\<open>typed_snapshots\<close>.
  \<^item> \<^verbatim>\<open>Sampling\<close>: the locale \<^verbatim>\<open>log_sampler\<close>, which the samplers of the client and of the service interpret.
  \<^item> \<^verbatim>\<open>Client_State\<close> (\<^verbatim>\<open>state.go\<close>), \<^verbatim>\<open>Client_Limiter\<close> (the limiter of \<^verbatim>\<open>client.go\<close>, C29), \<^verbatim>\<open>Client_Cache\<close>,
    \<^verbatim>\<open>Client_File\<close> and \<^verbatim>\<open>Client_Codec\<close> (\<^verbatim>\<open>cache.go\<close>, C26 to C28), \<^verbatim>\<open>Client_Updater\<close> (\<^verbatim>\<open>updater.go\<close> as functions that
    run alone; its invariants are interpretations of the locale \<^verbatim>\<open>updater_invariant\<close>), \<^verbatim>\<open>Client_Eval\<close> (the read path of
    \<^verbatim>\<open>client.go\<close>, whose loads of the cache are counted while the updater swaps it; C20 and C21), which also ties the store, the client and the evaluator together (C22), and
    \<^verbatim>\<open>Client_Options\<close> (the options, the hooks and \<^verbatim>\<open>New\<close>).
  \<^item> \<^verbatim>\<open>Client_Threads\<close>: the stream loop, the reconcile loop, the writer and \<^verbatim>\<open>Close\<close> as goroutines that interleave action by
    action. Alone, each task does what the function of \<^verbatim>\<open>Client_Updater\<close> does; together, ready still means config (C23), a race
    takes the client back no further than its last quiet state and heals (C24), and \<^verbatim>\<open>Close\<close> is clean (C25). The
    assertions at each place are interpretations of the locale \<^verbatim>\<open>undisturbed_assertions\<close>.
  \<^item> \<^verbatim>\<open>Obs_Trace\<close> (\<^verbatim>\<open>trace.go\<close>), \<^verbatim>\<open>Transport_Error\<close> (\<^verbatim>\<open>apierr\<close>: the codes, the sanitiser, the envelope), \<^verbatim>\<open>Transport_Chain\<close> (\<^verbatim>\<open>safe.go\<close>, \<^verbatim>\<open>middleware.go\<close>,
    the chain of \<^verbatim>\<open>server.go\<close>, C32): a handler is the list of its actions on the response writer, and the two wrapping
    writers interpret the locale \<^verbatim>\<open>remembering_writer\<close>.
  \<^item> \<^verbatim>\<open>Transport_Eval\<close> (\<^verbatim>\<open>api.go\<close>, \<^verbatim>\<open>eval.go\<close>, C31), where a handler is a computation that counts its loads of a snapshot and
    may panic, with a calculus of weakest preconditions, and \<^verbatim>\<open>Transport_Admin\<close> (\<^verbatim>\<open>health.go\<close>, \<^verbatim>\<open>admin.go\<close>, the routes),
    which shows over both listeners that every error is one sanitised envelope (C34).
  \<^item> \<^verbatim>\<open>Flagd\<close> (\<^verbatim>\<open>wiring.go\<close>): the store, the evaluator and the HTTP surface wired together; a request is answered with the
    decision of the evaluator on the published snapshot (C30), and a push reports what it published (C33).
  \<^item> \<^verbatim>\<open>Obs_Labels\<close>, \<^verbatim>\<open>Obs_Histogram\<close> and \<^verbatim>\<open>Obs_Metrics\<close> (\<^verbatim>\<open>metrics.go\<close>, \<^verbatim>\<open>recorder.go\<close>, C37 and C39): the recorder works
    against the locale \<^verbatim>\<open>metrics_backend\<close>, interpreted by the registry and by the metrics that do nothing. \<^verbatim>\<open>Obs_Registry\<close> is the table of published names.
    \<^verbatim>\<open>Obs_Sampler\<close> (C36) and \<^verbatim>\<open>Obs_Log\<close> (C35) are \<^verbatim>\<open>log.go\<close>.
  \<^item> \<^verbatim>\<open>Flagd_Main\<close> (\<^verbatim>\<open>main.go\<close>, the lifecycle of \<^verbatim>\<open>server.go\<close>, C40): options, start, the wait, and the drain, which has a deadline after
    a signal and none after a failed listener, where a request that never ends keeps the process from exiting. \<^verbatim>\<open>Flagd_Obs\<close>: the requests of both
    listeners against the registry, so that the request counter counts requests (C38).

  How the code is modelled. A struct is a record whose fields carry a prefix, an enumeration is a datatype with
  the source's constants, \<^verbatim>\<open>int32\<close>, \<^verbatim>\<open>int64\<close> and \<^verbatim>\<open>uint64\<close> are words that wrap, a length is a natural number,
  a map is a sorted association list, a string is a list of bytes, a \<^verbatim>\<open>float64\<close> a rational number. A nil slice and an empty one are the same
  list, except in a tri-state field, where null, absent and present are told apart, and in the disk
  codec, where an empty condition list is written as null. An interface the caller may implement returns an option, \<^const>\<open>None\<close> being a
  panic. State is passed explicitly; the mutex of the store, of the state machine, of the registry and of the sampler makes each of their
  operations one step, and where the code has no lock (the limiter, the asynchronous writer) the steps are the atomic operations, in any
  interleaving. Time is an integer of nanoseconds and comes in as an argument, as do the outcomes of fetches, frames and
  system calls.

  Parameters. \<^verbatim>\<open>sum64\<close> (xxhash), \<^verbatim>\<open>sha256\<close>, random bytes, the Unicode table of printable characters, and the text of a JSON document with
  its parser are arguments, and so are the decoding of layers, the rendering of a duration in seconds, the expvar page and the
  redirects of the request multiplexer; nothing is assumed of the hashes but, in C13, that the digest over the text of the flags tells apart the two
  contents in question (\<^verbatim>\<open>told_apart\<close>), and of the text nothing else but, in \<^verbatim>\<open>saved_snapshot_loads\<close>, that the
  document that was written reads back. Loops are recursions on lists; nothing needs fuel. The bound of eight steps in C25 covers a pending
  signal, its drain and write, and the final drain and write.

  Not modelled. The message of a finding and the text of most log lines; the parsing of layer documents by \<^verbatim>\<open>encoding/json\<close> (only the
  custom decoders are); the rounding of \<^verbatim>\<open>float64\<close> in \<^verbatim>\<open>QuarantineBudget\<close>, whose product is exact for the flag counts it
  meets, in the sums of the metrics and in the tokens of the sampler; timers and contexts, whose expiry is an input; escaped URL paths and the
  suppression of the body of a HEAD request; a push that lands between the \<^verbatim>\<open>Set\<close> and the later loads of \<^verbatim>\<open>ApplyLayer\<close>; the replacement of
  invalid UTF-8 by \<^verbatim>\<open>encoding/json\<close> in the disk codec; the methods that only forward (\<^verbatim>\<open>Flush\<close>, \<^verbatim>\<open>Unwrap\<close>, \<^verbatim>\<open>GoDone\<close>); the flag, duration and integer parsers of the standard library; a bytes reader and the package documentation.

  What remains is glue over the standard library: a \<^verbatim>\<open>net/http\<close> server and its connections, the parsing of JSON text and of
  command lines, the operating system's files, clocks and signals.
\<close>

end
